(* ===== verification/Prelude.thy ===== *)
theory Prelude
  imports Main "HOL-Library.Word"
begin

text \<open>
  Shared vocabulary of the development: the types of the model's values, the wrap-around of
  Go's \<^verbatim>\<open>int64\<close>, collections of rewrite and introduction rules, generic lemmas on maps and
  lists, and the two interfaces every component is built on: labelled transition systems with
  invariants and refinements, and bounded FIFO channels.
\<close>

named_theorems go_simps \<open>characteristic equations of the modelled Go library functions\<close>
named_theorems reg_simps \<open>how the registry operations act on each field of the server state\<close>
named_theorems reg_intros \<open>preservation of the registry invariant\<close>

type_synonym byte = "8 word"
type_synonym bytes = "byte list"
type_synonym gostring = string

abbreviation bytes_of_string :: "gostring \<Rightarrow> bytes" where
  "bytes_of_string s \<equiv> map of_char s"

definition string_of_bytes :: "bytes \<Rightarrow> gostring" where
  "string_of_bytes bs = map (\<lambda>b. char_of (unat b)) bs"

lemma char_byte [simp]: "char_of (unat (of_char c :: byte)) = c"
proof -
  have "unat (of_nat (of_char c :: nat) :: byte) = of_char c"
    using nat_of_char_less_256 [of c] by (subst unat_of_nat) simp
  then have "unat (of_char c :: byte) = of_char c" by (simp only: of_nat_of_char)
  then show ?thesis by simp
qed

lemma string_bytes [simp]: "string_of_bytes (bytes_of_string s) = s"
  by (simp add: string_of_bytes_def map_idI)

section \<open>Machine integers\<close>

text \<open>Two's complement wrap-around of Go's 64-bit \<^verbatim>\<open>int\<close>, \<^verbatim>\<open>int64\<close> and \<^verbatim>\<open>time.Duration\<close>.\<close>

definition wrap64 :: "int \<Rightarrow> int" where
  "wrap64 x = signed_take_bit 63 x"

definition in_int64 :: "int \<Rightarrow> bool" where
  "in_int64 x \<longleftrightarrow> - (2 ^ 63) \<le> x \<and> x < 2 ^ 63"

lemma wrap64_id [simp]: "in_int64 x \<Longrightarrow> wrap64 x = x"
  by (simp add: wrap64_def in_int64_def signed_take_bit_int_eq_self_iff)

lemma wrap64_range [simp]: "in_int64 (wrap64 x)"
  using signed_take_bit_int_less_exp [of 63 x] signed_take_bit_int_greater_eq_minus_exp [of 63 x]
  by (simp add: wrap64_def in_int64_def)

lemma wrap64_cong: "\<exists>k. wrap64 x = x + k * 2 ^ 64"
proof -
  have "wrap64 x = (x + 2 ^ 63) mod 2 ^ 64 - 2 ^ 63"
    by (simp add: wrap64_def signed_take_bit_eq_take_bit_shift take_bit_eq_mod)
  also have "\<dots> = x + (- ((x + 2 ^ 63) div 2 ^ 64)) * 2 ^ 64"
    by (simp add: minus_div_mult_eq_mod [symmetric])
  finally show ?thesis by blast
qed

text \<open>The wrap-around of a value that is too large by less than one turn.\<close>

lemma wrap64_over: "2 ^ 63 \<le> x \<Longrightarrow> x < 2 ^ 63 + 2 ^ 64 \<Longrightarrow> wrap64 x = x - 2 ^ 64"
proof -
  assume "2 ^ 63 \<le> x" "x < 2 ^ 63 + 2 ^ 64"
  then have "(x + 2 ^ 63) mod 2 ^ 64 = x + 2 ^ 63 - 2 ^ 64"
    by (subst mod_pos_geq) auto
  then show ?thesis
    by (simp add: wrap64_def signed_take_bit_eq_take_bit_shift take_bit_eq_mod)
qed

section \<open>Maps and lists\<close>

definition map_inj :: "('k \<rightharpoonup> 'v) \<Rightarrow> bool" where
  "map_inj m \<longleftrightarrow> (\<forall>k k' v. m k = Some v \<longrightarrow> m k' = Some v \<longrightarrow> k = k')"

text \<open>Go's \<^verbatim>\<open>delete(m, k)\<close> over several keys, and a store of one value at several keys.\<close>

fun delete_all :: "'k list \<Rightarrow> ('k \<rightharpoonup> 'v) \<Rightarrow> ('k \<rightharpoonup> 'v)" where
  "delete_all [] m = m"
| "delete_all (k # ks) m = delete_all ks (m(k := None))"

fun store_all :: "'k list \<Rightarrow> 'v \<Rightarrow> ('k \<rightharpoonup> 'v) \<Rightarrow> ('k \<rightharpoonup> 'v)" where
  "store_all [] v m = m"
| "store_all (k # ks) v m = store_all ks v (m(k \<mapsto> v))"

lemma delete_all_apply [simp]: "delete_all ks m k = (if k \<in> set ks then None else m k)"
  by (induction ks arbitrary: m) auto

lemma store_all_apply [simp]: "store_all ks v m k = (if k \<in> set ks then Some v else m k)"
  by (induction ks arbitrary: m) auto

lemma map_eqI: "(\<And>k. m k = m' k) \<Longrightarrow> m = m'"
  by (rule ext)

lemma set_insert_removeAll: "x \<in> set xs \<Longrightarrow> insert x (set (removeAll x xs)) = set xs"
  by auto

section \<open>Labelled transition systems\<close>

text \<open>
  A component with concurrent goroutines is a step relation: each label is one critical section
  or one channel operation of one goroutine, and the scheduler picks the next label.
\<close>

inductive reachable :: "('s \<Rightarrow> bool) \<Rightarrow> ('s \<Rightarrow> 'l \<Rightarrow> 's \<Rightarrow> bool) \<Rightarrow> 's \<Rightarrow> bool"
  for init :: "'s \<Rightarrow> bool" and step :: "'s \<Rightarrow> 'l \<Rightarrow> 's \<Rightarrow> bool" where
  reach_init: "init s \<Longrightarrow> reachable init step s"
| reach_step: "reachable init step s \<Longrightarrow> step s l t \<Longrightarrow> reachable init step t"

inductive run :: "('s \<Rightarrow> 'l \<Rightarrow> 's \<Rightarrow> bool) \<Rightarrow> 's \<Rightarrow> 'l list \<Rightarrow> 's \<Rightarrow> bool"
  for step :: "'s \<Rightarrow> 'l \<Rightarrow> 's \<Rightarrow> bool" where
  run_nil: "run step s [] s"
| run_cons: "step s l t \<Longrightarrow> run step t ls u \<Longrightarrow> run step s (l # ls) u"

inductive_cases run_nilE: "run step s [] t"
inductive_cases run_consE: "run step s (l # ls) t"

lemma run_reachable: "run step s ls t \<Longrightarrow> reachable init step s \<Longrightarrow> reachable init step t"
  by (induction rule: run.induct) (auto intro: reach_step)

lemma run_append: "run step s ls t \<Longrightarrow> run step t ms u \<Longrightarrow> run step s (ls @ ms) u"
  by (induction rule: run.induct) (auto intro: run_cons)

lemma reachable_weaken:
  assumes "reachable init step s" "\<And>s l t. step s l t \<Longrightarrow> step' s l t"
  shows "reachable init step' s"
  using assms(1) by (induction rule: reachable.induct) (auto intro: reach_init reach_step assms(2))

text \<open>What a component promises about every state it can reach.\<close>

locale invariant_system =
  fixes init :: "'s \<Rightarrow> bool"
    and step :: "'s \<Rightarrow> 'l \<Rightarrow> 's \<Rightarrow> bool"
    and inv :: "'s \<Rightarrow> bool"
  assumes inv_init: "init s \<Longrightarrow> inv s"
    and inv_step: "inv s \<Longrightarrow> step s l t \<Longrightarrow> inv t"
begin

lemma reachable_inv: "reachable init step s \<Longrightarrow> inv s"
  by (induction rule: reachable.induct) (auto intro: inv_init inv_step)

lemma run_inv: "run step s ls t \<Longrightarrow> inv s \<Longrightarrow> inv t"
  by (induction rule: run.induct) (auto intro: inv_step)

end

text \<open>A second invariant proved on top of a first one.\<close>

locale strengthened_system = invariant_system +
  fixes extra :: "'s \<Rightarrow> bool"
  assumes extra_init: "init s \<Longrightarrow> extra s"
    and extra_step: "inv s \<Longrightarrow> extra s \<Longrightarrow> step s l t \<Longrightarrow> extra t"

sublocale strengthened_system \<subseteq> both: invariant_system init step "\<lambda>s. inv s \<and> extra s"
  by unfold_locales (auto intro: inv_init inv_step extra_init extra_step)

text \<open>
  A refinement: every step of the detailed system is a step of the abstract one, or leaves the
  abstract state as it is.
\<close>

locale refinement_system = invariant_system +
  fixes ainit :: "'a \<Rightarrow> bool"
    and astep :: "'a \<Rightarrow> 'a \<Rightarrow> bool"
    and abs :: "'s \<Rightarrow> 'a"
  assumes abs_init: "init s \<Longrightarrow> ainit (abs s)"
    and abs_step: "inv s \<Longrightarrow> step s l t \<Longrightarrow> astep (abs s) (abs t) \<or> abs t = abs s"
begin

lemma abs_reachable:
  "reachable init step s \<Longrightarrow> reachable ainit (\<lambda>a _. astep a) (abs s)"
proof (induction rule: reachable.induct)
  case (reach_init s)
  then show ?case by (blast intro: reachable.reach_init abs_init)
next
  case (reach_step s l t)
  from reach_step.hyps have "inv s" by (blast intro: reachable_inv)
  from this reach_step.hyps(2) have "astep (abs s) (abs t) \<or> abs t = abs s" by (rule abs_step)
  with reach_step.IH show ?case by (auto intro: reachable.reach_step)
qed

end

section \<open>Buffered channels\<close>

text \<open>
  Go's \<^verbatim>\<open>make(chan T, cap)\<close> used with \<^verbatim>\<open>select ... default\<close>: a send that is refused when
  the buffer is full and a receive that is refused when it is empty. The interface is what the
  clients of a channel rely on; \<^verbatim>\<open>items\<close> is the buffer, oldest element first.
\<close>

locale buffered_channel =
  fixes send :: "'a \<Rightarrow> 'q \<Rightarrow> 'q option"
    and recv :: "'q \<Rightarrow> ('a \<times> 'q) option"
    and items :: "'q \<Rightarrow> 'a list"
    and cap :: nat
  assumes send_room: "length (items q) < cap \<Longrightarrow> \<exists>q'. send x q = Some q' \<and> items q' = items q @ [x]"
    and send_full: "\<not> length (items q) < cap \<Longrightarrow> send x q = None"
    and recv_some: "items q = x # xs \<Longrightarrow> \<exists>q'. recv q = Some (x, q') \<and> items q' = xs"
    and recv_none: "items q = [] \<Longrightarrow> recv q = None"
begin

lemma send_items: "send x q = Some q' \<Longrightarrow> items q' = items q @ [x] \<and> length (items q') \<le> cap"
  using send_room [of q x] send_full [of q x] by (cases "length (items q) < cap") auto

lemma recv_items: "recv q = Some (x, q') \<Longrightarrow> items q = x # items q'"
  using recv_some [of q] recv_none [of q] by (cases "items q") fastforce+

end

text \<open>A history of a channel: what was accepted, what was handed out, what is still inside.\<close>

datatype 'a chan_op = Send 'a | Recv

fun chan_run :: "('a \<Rightarrow> 'q \<Rightarrow> 'q option) \<Rightarrow> ('q \<Rightarrow> ('a \<times> 'q) option) \<Rightarrow>
    'a chan_op list \<Rightarrow> 'a list \<times> 'a list \<times> 'q \<Rightarrow> 'a list \<times> 'a list \<times> 'q" where
  "chan_run send recv [] (ins, outs, q) = (ins, outs, q)"
| "chan_run send recv (Send x # ops) (ins, outs, q) =
     (case send x q of None \<Rightarrow> chan_run send recv ops (ins, outs, q)
      | Some q' \<Rightarrow> chan_run send recv ops (ins @ [x], outs, q'))"
| "chan_run send recv (Recv # ops) (ins, outs, q) =
     (case recv q of None \<Rightarrow> chan_run send recv ops (ins, outs, q)
      | Some (x, q') \<Rightarrow> chan_run send recv ops (ins, outs @ [x], q'))"

context buffered_channel
begin

text \<open>First in, first out, nothing lost or invented, and never more than \<^verbatim>\<open>cap\<close> waiting.\<close>

lemma chan_fifo:
  assumes "chan_run send recv ops (ins, outs, q) = (ins', outs', q')"
    and "ins = outs @ items q" and "length (items q) \<le> cap"
  shows "ins' = outs' @ items q' \<and> length (items q') \<le> cap"
  using assms
proof (induction ops arbitrary: ins outs q)
  case (Cons p ops)
  show ?case
  proof (cases p)
    case (Send x)
    show ?thesis
    proof (cases "send x q")
      case None
      with Cons Send show ?thesis by simp
    next
      case (Some q1)
      with Cons.prems Send show ?thesis
        by (intro Cons.IH [of "ins @ [x]" outs q1]) (auto dest: send_items)
    qed
  next
    case Recv
    show ?thesis
    proof (cases "recv q")
      case None
      with Cons Recv show ?thesis by simp
    next
      case (Some r)
      obtain x q1 where r: "r = (x, q1)" by (cases r)
      with Some have "items q = x # items q1" by (simp add: recv_items)
      with Cons.prems Recv Some r show ?thesis
        by (intro Cons.IH [of ins "outs @ [x]" q1]) auto
    qed
  qed
qed simp

end

end
