(* ===== verification/GoLib.thy ===== *)
theory GoLib
  imports Prelude
begin

text \<open>
  The functions of Go's standard library that the program calls on strings and numbers
  (\<^verbatim>\<open>strings\<close>, \<^verbatim>\<open>strconv\<close>, \<^verbatim>\<open>net\<close>, \<^verbatim>\<open>encoding/hex\<close>), on Go strings as byte
  sequences. White space is Unicode white space in its UTF-8 encoding, as
  \<^verbatim>\<open>unicode.IsSpace\<close> has it. \<^verbatim>\<open>ToLower\<close> is exact on ASCII strings; for a string with a
  byte outside ASCII the Unicode case tables are the argument \<^verbatim>\<open>ucase\<close> of the definitions.
\<close>

section \<open>White space\<close>

definition space_runes :: "gostring list" where
  "space_runes =
     map (map char_of)
      [[9::nat], [10], [11], [12], [13], [32], [0xC2, 0x85], [0xC2, 0xA0], [0xE1, 0x9A, 0x80],
       [0xE2, 0x80, 0x80], [0xE2, 0x80, 0x81], [0xE2, 0x80, 0x82], [0xE2, 0x80, 0x83],
       [0xE2, 0x80, 0x84], [0xE2, 0x80, 0x85], [0xE2, 0x80, 0x86], [0xE2, 0x80, 0x87],
       [0xE2, 0x80, 0x88], [0xE2, 0x80, 0x89], [0xE2, 0x80, 0x8A], [0xE2, 0x80, 0xA8],
       [0xE2, 0x80, 0xA9], [0xE2, 0x80, 0xAF], [0xE2, 0x81, 0x9F], [0xE3, 0x80, 0x80]]"

definition HasPrefix :: "gostring \<Rightarrow> gostring \<Rightarrow> bool" where
  "HasPrefix s p \<longleftrightarrow> take (length p) s = p"

definition HasSuffix :: "gostring \<Rightarrow> gostring \<Rightarrow> bool" where
  "HasSuffix s p \<longleftrightarrow> length p \<le> length s \<and> drop (length s - length p) s = p"

text \<open>The length in bytes of the white-space rune at the front (at the end), 0 if there is none.\<close>

definition space_front :: "gostring \<Rightarrow> nat" where
  "space_front s = (case find (HasPrefix s) space_runes of None \<Rightarrow> 0 | Some r \<Rightarrow> length r)"

definition space_back :: "gostring \<Rightarrow> nat" where
  "space_back s = (case find (HasSuffix s) space_runes of None \<Rightarrow> 0 | Some r \<Rightarrow> length r)"

lemma space_runes_nonempty: "r \<in> set space_runes \<Longrightarrow> r \<noteq> []"
  by (auto simp: space_runes_def)

lemma find_SomeD: "find P xs = Some x \<Longrightarrow> x \<in> set xs \<and> P x"
  by (induction xs) (auto split: if_splits)

lemma space_front_le: "space_front s \<le> length s"
  by (auto simp: space_front_def HasPrefix_def dest!: find_SomeD split: option.splits)
    (metis length_take min.absorb_iff2 min.commute nle_le)

lemma space_front_Nil [simp]: "space_front [] = 0"
  using space_front_le [of "[]"] by simp

function trimLeft :: "gostring \<Rightarrow> gostring" where
  "trimLeft s = (if space_front s = 0 then s else trimLeft (drop (space_front s) s))"
  by pat_completeness auto
termination
  using space_front_Nil by (relation "measure length") (auto intro!: diff_less)

function trimRight :: "gostring \<Rightarrow> gostring" where
  "trimRight s = (if s = [] \<or> space_back s = 0 then s
     else trimRight (take (length s - space_back s) s))"
  by pat_completeness auto
termination
  by (relation "measure length") auto

declare trimLeft.simps [simp del] trimRight.simps [simp del]

definition TrimSpace :: "gostring \<Rightarrow> gostring" where
  "TrimSpace s = trimRight (trimLeft s)"

text \<open>Visible ASCII characters are never part of a white-space rune.\<close>

definition visible :: "char \<Rightarrow> bool" where
  "visible c \<longleftrightarrow> 33 \<le> (of_char c :: nat) \<and> (of_char c :: nat) < 127"

lemma space_rune_ends:
  "r \<in> set space_runes \<Longrightarrow> \<not> visible (hd r) \<and> \<not> visible (last r)"
  by (auto simp: space_runes_def visible_def)

lemma space_front_visible: "visible (hd s) \<Longrightarrow> space_front s = 0"
proof (cases "find (HasPrefix s) space_runes")
  case (Some r)
  assume "visible (hd s)"
  from Some have r: "r \<in> set space_runes" "take (length r) s = r"
    by (auto dest: find_SomeD simp: HasPrefix_def)
  then have "hd r = hd s"
    using space_runes_nonempty [of r] by (metis hd_take length_greater_0_conv)
  with r \<open>visible (hd s)\<close> space_rune_ends [of r] show ?thesis by simp
qed (simp add: space_front_def)

lemma space_back_visible: "visible (last s) \<Longrightarrow> space_back s = 0"
proof (cases "find (HasSuffix s) space_runes")
  case (Some r)
  assume "visible (last s)"
  from Some have r: "r \<in> set space_runes" "drop (length s - length r) s = r"
    by (auto dest: find_SomeD simp: HasSuffix_def)
  then have "last r = last s"
    using space_runes_nonempty [of r] by (metis drop_eq_Nil last_drop not_le)
  with r \<open>visible (last s)\<close> space_rune_ends [of r] show ?thesis by simp
qed (simp add: space_back_def)

lemma TrimSpace_visible [go_simps]:
  "visible (hd s) \<Longrightarrow> visible (last s) \<Longrightarrow> TrimSpace s = s"
  by (simp add: TrimSpace_def trimLeft.simps [of s] trimRight.simps [of s]
      space_front_visible space_back_visible)

lemma trimLeft_Nil [simp]: "trimLeft [] = []"
  by (simp add: trimLeft.simps)

lemma trimRight_Nil [simp]: "trimRight [] = []"
  by (simp add: trimRight.simps)

lemma TrimSpace_Nil [simp]: "TrimSpace [] = []"
  by (simp add: TrimSpace_def)

text \<open>ASCII white space is a rune of its own.\<close>

definition ascii_space :: "char \<Rightarrow> bool" where
  "ascii_space c \<longleftrightarrow> (of_char c :: nat) \<in> {9, 10, 11, 12, 13, 32}"

lemma ascii_space_rune:
  assumes "ascii_space c"
  shows "[c] \<in> set space_runes" "r \<in> set space_runes \<Longrightarrow> hd r = c \<or> last r = c \<Longrightarrow> r = [c]"
proof -
  from assms have "c \<in> {char_of (9::nat), char_of (10::nat), char_of (11::nat), char_of (12::nat),
      char_of (13::nat), char_of (32::nat)}"
    unfolding ascii_space_def by (metis char_of_char insert_iff empty_iff)
  then show "[c] \<in> set space_runes" "r \<in> set space_runes \<Longrightarrow> hd r = c \<or> last r = c \<Longrightarrow> r = [c]"
    by (auto simp: space_runes_def)
qed

lemma space_front_ascii:
  assumes "ascii_space c"
  shows "space_front (c # s) = 1"
proof -
  note a = ascii_space_rune [OF assms]
  have "HasPrefix (c # s) [c]" by (simp add: HasPrefix_def)
  with a(1) obtain r where r: "find (HasPrefix (c # s)) space_runes = Some r"
    by (cases "find (HasPrefix (c # s)) space_runes") (auto simp: find_None_iff)
  then have m: "r \<in> set space_runes" "take (length r) (c # s) = r"
    by (auto dest: find_SomeD simp: HasPrefix_def)
  from m(1) have "r \<noteq> []" by (rule space_runes_nonempty)
  with arg_cong [OF m(2), of hd] have "hd r = c" by simp
  with a(2) [OF m(1)] r show ?thesis by (simp add: space_front_def)
qed

lemma space_back_ascii:
  assumes "ascii_space c"
  shows "space_back (s @ [c]) = 1"
proof -
  note a = ascii_space_rune [OF assms]
  have "HasSuffix (s @ [c]) [c]" by (simp add: HasSuffix_def)
  with a(1) obtain r where r: "find (HasSuffix (s @ [c])) space_runes = Some r"
    by (cases "find (HasSuffix (s @ [c])) space_runes") (auto simp: find_None_iff)
  then have m: "r \<in> set space_runes" "drop (length (s @ [c]) - length r) (s @ [c]) = r"
    by (auto dest: find_SomeD simp: HasSuffix_def)
  then have "last r = c"
    using space_runes_nonempty [of r] by (metis drop_eq_Nil last_drop last_snoc not_le)
  with a(2) [OF m(1)] r show ?thesis by (simp add: space_back_def)
qed

lemma trim_ascii [go_simps]:
  "ascii_space c \<Longrightarrow> trimLeft (c # s) = trimLeft s"
  "ascii_space c \<Longrightarrow> trimRight (s @ [c]) = trimRight s"
  by (simp_all add: trimLeft.simps [of "c # s"] trimRight.simps [of "s @ [c]"] space_front_ascii space_back_ascii)

lemma trim_visible [go_simps]:
  "visible (hd s) \<Longrightarrow> trimLeft s = s" "visible (last s) \<Longrightarrow> trimRight s = s"
  by (simp_all add: trimLeft.simps [of s] trimRight.simps [of s] space_front_visible space_back_visible)

section \<open>Searching, splitting and trimming\<close>

definition ContainsByte :: "gostring \<Rightarrow> char \<Rightarrow> bool" where
  "ContainsByte s c \<longleftrightarrow> c \<in> set s"

fun IndexByte :: "gostring \<Rightarrow> char \<Rightarrow> nat option" where
  "IndexByte [] c = None"
| "IndexByte (x # xs) c = (if x = c then Some 0 else map_option Suc (IndexByte xs c))"

fun LastIndexByte :: "gostring \<Rightarrow> char \<Rightarrow> nat option" where
  "LastIndexByte [] c = None"
| "LastIndexByte (x # xs) c =
     (case LastIndexByte xs c of Some i \<Rightarrow> Some (Suc i) | None \<Rightarrow> if x = c then Some 0 else None)"

text \<open>\<^verbatim>\<open>strings.Split\<close> on a one-byte separator, and \<^verbatim>\<open>strings.SplitN(s, sep, 2)\<close>.\<close>

fun SplitByte :: "gostring \<Rightarrow> char \<Rightarrow> gostring list" where
  "SplitByte [] c = [[]]"
| "SplitByte (x # xs) c =
     (if x = c then [] # SplitByte xs c
      else case SplitByte xs c of [] \<Rightarrow> [[x]] | y # ys \<Rightarrow> (x # y) # ys)"

definition SplitByte2 :: "gostring \<Rightarrow> char \<Rightarrow> gostring list" where
  "SplitByte2 s c = (case IndexByte s c of None \<Rightarrow> [s] | Some i \<Rightarrow> [take i s, drop (Suc i) s])"

definition TrimPrefix :: "gostring \<Rightarrow> gostring \<Rightarrow> gostring" where
  "TrimPrefix s p = (if HasPrefix s p then drop (length p) s else s)"

definition TrimSuffix :: "gostring \<Rightarrow> gostring \<Rightarrow> gostring" where
  "TrimSuffix s p = (if HasSuffix s p then take (length s - length p) s else s)"

text \<open>\<^verbatim>\<open>strings.ReplaceAll(s, c, "")\<close> for a one-byte \<^verbatim>\<open>c\<close>.\<close>

definition RemoveByte :: "gostring \<Rightarrow> char \<Rightarrow> gostring" where
  "RemoveByte s c = filter (\<lambda>x. x \<noteq> c) s"

text \<open>\<^verbatim>\<open>strings.Fields\<close>: the maximal runs of bytes between white-space runes.\<close>

function fieldsFrom :: "gostring \<Rightarrow> gostring \<Rightarrow> gostring list" where
  "fieldsFrom cur [] = (if cur = [] then [] else [cur])"
| "fieldsFrom cur (x # xs) =
     (if space_front (x # xs) = 0 then fieldsFrom (cur @ [x]) xs
      else (if cur = [] then [] else [cur]) @ fieldsFrom [] (drop (space_front (x # xs)) (x # xs)))"
  by pat_completeness auto
termination
  by (relation "measure (\<lambda>(cur, s). length s)") (auto intro!: diff_less)

definition Fields :: "gostring \<Rightarrow> gostring list" where
  "Fields s = fieldsFrom [] s"

lemma SplitByte_nonempty [simp]: "SplitByte s c \<noteq> []"
  by (induction s) (auto split: list.splits)

lemma SplitByte_none: "c \<notin> set s \<Longrightarrow> SplitByte s c = [s]"
  by (induction s) auto

lemma SplitByte_append: "c \<notin> set p \<Longrightarrow> SplitByte (p @ c # s) c = p # SplitByte s c"
  by (induction p) auto

lemma IndexByte_None: "IndexByte s c = None \<longleftrightarrow> c \<notin> set s"
  by (induction s) auto

lemma IndexByte_append: "c \<notin> set p \<Longrightarrow> IndexByte (p @ c # s) c = Some (length p)"
  by (induction p) auto

lemma LastIndexByte_None: "LastIndexByte s c = None \<longleftrightarrow> c \<notin> set s"
  by (induction s) (auto split: option.splits)

lemma LastIndexByte_append: "c \<notin> set s \<Longrightarrow> LastIndexByte (p @ c # s) c = Some (length p)"
proof (induction p)
  case Nil
  then have "LastIndexByte s c = None" by (simp add: LastIndexByte_None)
  then show ?case by simp
qed simp

lemma SplitByte2_append: "c \<notin> set p \<Longrightarrow> SplitByte2 (p @ c # s) c = [p, s]"
  by (simp add: SplitByte2_def IndexByte_append)

section \<open>Letter case\<close>

definition is_ascii :: "gostring \<Rightarrow> bool" where
  "is_ascii s \<longleftrightarrow> list_all (\<lambda>c. (of_char c :: nat) < 128) s"

definition lower_ascii :: "char \<Rightarrow> char" where
  "lower_ascii c = (let n = (of_char c :: nat) in if 65 \<le> n \<and> n \<le> 90 then char_of (n + 32) else c)"

definition ToLower :: "(gostring \<Rightarrow> gostring) \<Rightarrow> gostring \<Rightarrow> gostring" where
  "ToLower ucase s = (if is_ascii s then map lower_ascii s else ucase s)"

lemma lower_ascii_idem [simp]: "lower_ascii (lower_ascii c) = lower_ascii c"
  by (simp add: lower_ascii_def Let_def)

lemma lower_ascii_ascii: "(of_char c :: nat) < 128 \<Longrightarrow> (of_char (lower_ascii c) :: nat) < 128"
  by (simp add: lower_ascii_def Let_def)

lemma is_ascii_lower [simp]: "is_ascii s \<Longrightarrow> is_ascii (map lower_ascii s)"
  by (auto simp: is_ascii_def list_all_iff lower_ascii_ascii)

lemma ToLower_idem: "is_ascii s \<Longrightarrow> ToLower u (ToLower u s) = ToLower u s"
  by (simp add: ToLower_def)

section \<open>Decimal numbers\<close>

definition is_digit :: "char \<Rightarrow> bool" where
  "is_digit c \<longleftrightarrow> 48 \<le> (of_char c :: nat) \<and> (of_char c :: nat) \<le> 57"

definition digit_value :: "char \<Rightarrow> nat" where
  "digit_value c = (of_char c :: nat) - 48"

definition digit_char :: "nat \<Rightarrow> char" where
  "digit_char n = char_of (48 + n)"

fun parseDigits :: "nat \<Rightarrow> gostring \<Rightarrow> nat option" where
  "parseDigits acc [] = Some acc"
| "parseDigits acc (c # cs) =
     (if is_digit c then parseDigits (10 * acc + digit_value c) cs else None)"

text \<open>
  \<^verbatim>\<open>strconv.Atoi\<close>: an optional sign, at least one decimal digit and nothing else, and a value
  that fits in 64 bits; \<open>None\<close> is an error.
\<close>

definition Atoi :: "gostring \<Rightarrow> int option" where
  "Atoi s =
     (let (neg, ds) = (case s of [] \<Rightarrow> (False, [])
                       | c # cs \<Rightarrow> if c = CHR ''-'' then (True, cs)
                                   else if c = CHR ''+'' then (False, cs) else (False, c # cs))
      in if ds = [] then None
         else case parseDigits 0 ds of None \<Rightarrow> None
              | Some n \<Rightarrow> let v = (if neg then - int n else int n)
                          in if in_int64 v then Some v else None)"

text \<open>\<^verbatim>\<open>strconv.Itoa\<close> and \<^verbatim>\<open>fmt\<close>'s \<^verbatim>\<open>%d\<close>.\<close>

fun showNat :: "nat \<Rightarrow> gostring" where
  "showNat n = (if n < 10 then [digit_char n] else showNat (n div 10) @ [digit_char (n mod 10)])"

declare showNat.simps [simp del]

definition Itoa :: "int \<Rightarrow> gostring" where
  "Itoa i = (if i < 0 then CHR ''-'' # showNat (nat (- i)) else showNat (nat i))"

lemma digit_char_of [simp]:
  "n < 10 \<Longrightarrow> of_char (digit_char n) = (48 + n :: nat)"
  by (simp add: digit_char_def)

lemma digit_char_digit [simp]: "n < 10 \<Longrightarrow> is_digit (digit_char n)"
  by (simp add: is_digit_def)

lemma digit_char_value [simp]: "n < 10 \<Longrightarrow> digit_value (digit_char n) = n"
  by (simp add: digit_value_def)

lemma digit_visible: "is_digit c \<Longrightarrow> visible c"
  by (simp add: is_digit_def visible_def)

lemma parseDigits_append:
  "parseDigits acc (xs @ ys) =
     (case parseDigits acc xs of None \<Rightarrow> None | Some n \<Rightarrow> parseDigits n ys)"
  by (induction xs arbitrary: acc) auto

lemma showNat_nonempty [simp]: "showNat n \<noteq> []"
  by (subst showNat.simps) simp

lemma showNat_digits: "c \<in> set (showNat n) \<Longrightarrow> is_digit c"
proof (induction n rule: showNat.induct)
  case (1 n)
  then show ?case
    by (subst (asm) showNat.simps) (auto split: if_splits)
qed

lemma parse_showNat: "parseDigits 0 (showNat n) = Some n"
proof (induction n rule: showNat.induct)
  case (1 n)
  show ?case
  proof (cases "n < 10")
    case True
    then show ?thesis by (simp add: showNat.simps [of n])
  next
    case False
    with "1.IH" have "parseDigits 0 (showNat (n div 10)) = Some (n div 10)" by simp
    with False show ?thesis by (simp add: showNat.simps [of n] parseDigits_append)
  qed
qed

lemma showNat_inj [simp]: "showNat m = showNat n \<longleftrightarrow> m = n"
  by (metis option.inject parse_showNat)

lemma showNat_hd_digit: "is_digit (hd (showNat n))"
  by (rule showNat_digits [of _ n]) simp

lemma showNat_no: "\<not> is_digit c \<Longrightarrow> c \<notin> set (showNat n)"
  using showNat_digits [of c n] by blast

lemma digit_signs [simp]:
  "\<not> is_digit (CHR ''-'')" "\<not> is_digit (CHR ''+'')" "\<not> is_digit (CHR '','')"
  "\<not> is_digit (CHR ''|'')" "\<not> is_digit (CHR '':'')" "\<not> is_digit (CHR ''['')" "\<not> is_digit (CHR '']'')"
  by (simp_all add: is_digit_def)

lemma Atoi_Itoa [go_simps]: "in_int64 i \<Longrightarrow> Atoi (Itoa i) = Some i"
proof (cases "i < 0")
  case True
  assume "in_int64 i"
  with True show ?thesis by (simp add: Atoi_def Itoa_def parse_showNat)
next
  case False
  assume i: "in_int64 i"
  obtain c cs where s: "showNat (nat i) = c # cs"
    using showNat_nonempty [of "nat i"] by (cases "showNat (nat i)") auto
  with showNat_hd_digit [of "nat i"] have "c \<noteq> CHR ''-''" "c \<noteq> CHR ''+''" by auto
  with False i s parse_showNat [of "nat i"] show ?thesis
    by (simp add: Atoi_def Itoa_def)
qed

lemma Itoa_inj: "Itoa i = Itoa j \<longleftrightarrow> i = j"
proof
  assume e: "Itoa i = Itoa j"
  have hd_neg: "hd (Itoa k) = CHR ''-'' \<longleftrightarrow> k < 0" for k
    using showNat_hd_digit [of "nat k"] by (auto simp: Itoa_def)
  from e have "i < 0 \<longleftrightarrow> j < 0" by (metis hd_neg)
  with e show "i = j" by (auto simp: Itoa_def split: if_splits)
qed simp

lemma Itoa_pos: "0 \<le> i \<Longrightarrow> Itoa i = showNat (nat i)"
  by (simp add: Itoa_def)

lemma Itoa_nonempty [simp]: "Itoa i \<noteq> []"
  by (simp add: Itoa_def)

lemma Itoa_no:
  assumes "\<not> is_digit c" "c \<noteq> CHR ''-''"
  shows "c \<notin> set (Itoa i)"
  using assms showNat_no by (auto simp: Itoa_def)

lemma visible_showNat: "visible (hd (showNat n)) \<and> visible (last (showNat n))"
  by (metis digit_visible hd_in_set last_in_set showNat_digits showNat_nonempty)

section \<open>Hexadecimal\<close>

definition hex_digit :: "nat \<Rightarrow> char" where
  "hex_digit n = (if n < 10 then char_of (48 + n) else char_of (87 + n))"

definition hex_byte :: "byte \<Rightarrow> gostring" where
  "hex_byte b = [hex_digit (unat b div 16), hex_digit (unat b mod 16)]"

text \<open>\<^verbatim>\<open>hex.EncodeToString\<close>\<close>

definition hexEncode :: "bytes \<Rightarrow> gostring" where
  "hexEncode bs = concat (map hex_byte bs)"

lemma hexEncode_length [simp]: "length (hexEncode bs) = 2 * length bs"
  by (induction bs) (auto simp: hexEncode_def hex_byte_def)

lemma hex_digit_of: "n < 16 \<Longrightarrow> of_char (hex_digit n) = (if n < 10 then 48 + n else 87 + n :: nat)"
  by (simp add: hex_digit_def)

lemma hex_digit_inj:
  assumes "m < 16" "n < 16" "hex_digit m = hex_digit n"
  shows "m = n"
proof -
  from assms(3) have "(of_char (hex_digit m) :: nat) = of_char (hex_digit n)" by simp
  then have "(if m < 10 then 48 + m else 87 + m) = (if n < 10 then 48 + n else 87 + n)"
    by (simp only: hex_digit_of assms(1,2))
  then show ?thesis using assms(1,2) by (auto split: if_splits)
qed

lemma hex_byte_inj: "hex_byte a = hex_byte b \<Longrightarrow> a = b"
proof -
  assume "hex_byte a = hex_byte b"
  moreover have "unat w div 16 < 16" "unat w mod 16 < 16" for w :: byte
  proof -
    have "unat w < 2 ^ LENGTH(8)" by (rule unsigned_less)
    then show "unat w div 16 < 16" by (simp add: less_mult_imp_div_less)
  qed simp
  ultimately have "unat a div 16 = unat b div 16 \<and> unat a mod 16 = unat b mod 16"
    by (auto simp: hex_byte_def intro!: hex_digit_inj)
  then show "a = b"
    by (metis div_mult_mod_eq unsigned_word_eqI)
qed

lemma hexEncode_inj: "hexEncode xs = hexEncode ys \<Longrightarrow> xs = ys"
proof (induction xs arbitrary: ys)
  case Nil
  then show ?case by (cases ys) (auto simp: hexEncode_def hex_byte_def)
next
  case (Cons x xs)
  then obtain y ys' where ys: "ys = y # ys'"
    by (cases ys) (auto simp: hexEncode_def hex_byte_def)
  have "length (hex_byte x) = length (hex_byte y)" by (simp add: hex_byte_def)
  with Cons.prems ys have "hex_byte x = hex_byte y \<and> hexEncode xs = hexEncode ys'"
    by (simp add: hexEncode_def)
  with Cons.IH ys show ?case by (auto dest: hex_byte_inj)
qed

section \<open>Network addresses\<close>

text \<open>
  \<^verbatim>\<open>net.SplitHostPort\<close>: the port starts after the last colon, an IPv6 host is in brackets;
  \<open>None\<close> is any of its address errors. \<^verbatim>\<open>net.JoinHostPort\<close> adds the brackets.
\<close>

definition SplitHostPort :: "gostring \<Rightarrow> (gostring \<times> gostring) option" where
  "SplitHostPort hp =
     (case LastIndexByte hp (CHR '':'') of
        None \<Rightarrow> None
      | Some i \<Rightarrow>
          if take 1 hp = ''['' then
            (case IndexByte hp (CHR '']'') of
               None \<Rightarrow> None
             | Some e \<Rightarrow>
                 if e + 1 = length hp \<or> e + 1 \<noteq> i then None
                 else if CHR ''['' \<in> set (drop 1 hp) then None
                 else if CHR '']'' \<in> set (drop (e + 1) hp) then None
                 else Some (drop 1 (take e hp), drop (i + 1) hp))
          else if CHR '':'' \<in> set (take i hp) then None
          else if CHR ''['' \<in> set hp \<or> CHR '']'' \<in> set hp then None
          else Some (take i hp, drop (i + 1) hp))"

definition JoinHostPort :: "gostring \<Rightarrow> gostring \<Rightarrow> gostring" where
  "JoinHostPort host port =
     (if CHR '':'' \<in> set host then ''['' @ host @ '']:'' @ port else host @ '':'' @ port)"

lemma Split_JoinHostPort:
  assumes h: "CHR ''['' \<notin> set host" "CHR '']'' \<notin> set host"
    and p: "CHR ''['' \<notin> set port" "CHR '']'' \<notin> set port" "CHR '':'' \<notin> set port"
  shows "SplitHostPort (JoinHostPort host port) = Some (host, port)"
proof (cases "CHR '':'' \<in> set host")
  case True
  let ?s = "CHR ''['' # host @ [CHR '']''] @ CHR '':'' # port"
  have "LastIndexByte ?s (CHR '':'') = Some (length host + 2)"
    using LastIndexByte_append [OF p(3), of "CHR ''['' # host @ [CHR '']'']"] by simp
  moreover have "IndexByte ?s (CHR '']'') = Some (length host + 1)"
    using IndexByte_append [of "CHR '']''" "CHR ''['' # host" "CHR '':'' # port"] h by simp
  ultimately show ?thesis
    using True h p by (simp add: SplitHostPort_def JoinHostPort_def)
next
  case False
  have "LastIndexByte (host @ CHR '':'' # port) (CHR '':'') = Some (length host)"
    by (rule LastIndexByte_append [OF p(3)])
  moreover have "take 1 (host @ CHR '':'' # port) \<noteq> ''[''"
    using h(1) by (cases host) auto
  ultimately show ?thesis
    using False h p by (simp add: SplitHostPort_def JoinHostPort_def)
qed

end
