(* ===== verification/Utf8.thy ===== *)
theory Utf8
  imports GoLib
begin

text \<open>
  What \<^verbatim>\<open>unicode/utf8\<close> makes of a Go string: the length of the encoded rune at its front, the
  encoding of a rune, and the string with every byte that belongs to no rune replaced, which is what
  \<^verbatim>\<open>encoding/json\<close> transports.
\<close>

section \<open>Runes\<close>

definition byte_in :: "nat \<Rightarrow> nat \<Rightarrow> char \<Rightarrow> bool" where
  "byte_in lo hi c \<longleftrightarrow> lo \<le> (of_char c :: nat) \<and> (of_char c :: nat) \<le> hi"

abbreviation cont_byte :: "char \<Rightarrow> bool" where "cont_byte \<equiv> byte_in 0x80 0xBF"

text \<open>The second byte that may follow a first byte \<open>b\<close> of a rune of three or four bytes.\<close>

definition second_byte :: "nat \<Rightarrow> char \<Rightarrow> bool" where
  "second_byte b =
     byte_in (if b = 0xE0 then 0xA0 else if b = 0xF0 then 0x90 else 0x80)
             (if b = 0xED then 0x9F else if b = 0xF4 then 0x8F else 0xBF)"

text \<open>
  The size of the rune \<^verbatim>\<open>utf8.DecodeRune\<close> finds: its first byte announces it, the others
  must follow; 0 for an invalid encoding.
\<close>

definition rune_size :: "nat \<Rightarrow> nat" where
  "rune_size b =
     (if b < 0x80 then 1
      else if 0xC2 \<le> b \<and> b \<le> 0xDF then 2
      else if 0xE0 \<le> b \<and> b \<le> 0xEF then 3
      else if 0xF0 \<le> b \<and> b \<le> 0xF4 then 4
      else 0)"

definition rune_tail :: "nat \<Rightarrow> gostring \<Rightarrow> bool" where
  "rune_tail b t =
     (length t = rune_size b - 1 \<and>
      (case t of [] \<Rightarrow> True | c1 # r \<Rightarrow> second_byte b c1 \<and> list_all cont_byte r))"

definition rune_len :: "gostring \<Rightarrow> nat" where
  "rune_len s =
     (case s of
        [] \<Rightarrow> 0
      | c # cs \<Rightarrow>
          (let b = (of_char c :: nat); n = rune_size b in
           if rune_tail b (take (n - 1) cs) then n else 0))"

text \<open>\<^verbatim>\<open>utf8.RuneError\<close>, U+FFFD, in its encoding, and \<^verbatim>\<open>utf8.EncodeRune\<close>.\<close>

definition replacement :: gostring where
  "replacement = [CHR 0xEF, CHR 0xBF, CHR 0xBD]"

definition encodeRune :: "nat \<Rightarrow> gostring" where
  "encodeRune r =
     map char_of
       (if r < 0x80 then [r]
        else if r < 0x800 then [0xC0 + r div 64, 0x80 + r mod 64]
        else if r < 0x10000 then [0xE0 + r div 4096, 0x80 + r div 64 mod 64, 0x80 + r mod 64]
        else [0xF0 + r div 262144, 0x80 + r div 4096 mod 64, 0x80 + r div 64 mod 64, 0x80 + r mod 64])"

lemma rune_len_Nil [simp]: "rune_len [] = 0"
  by (simp add: rune_len_def)

lemma rune_len_Cons:
  "rune_len (c # cs) = (if rune_tail (of_char c) (take (rune_size (of_char c) - 1) cs)
     then rune_size (of_char c) else 0)"
  by (simp add: rune_len_def Let_def)

lemma rune_len_le: "rune_len s \<le> length s"
proof (cases s)
  case (Cons c cs)
  then show ?thesis by (auto simp: rune_len_Cons rune_tail_def)
qed simp

lemma rune_len_ascii: "(of_char c :: nat) < 0x80 \<Longrightarrow> rune_len (c # cs) = 1"
  by (simp add: rune_len_Cons rune_size_def rune_tail_def)

lemma rune_len_one: "rune_len (c # cs) = 1 \<longleftrightarrow> (of_char c :: nat) < 0x80"
  by (auto simp: rune_len_ascii) (simp add: rune_len_Cons rune_size_def split: if_splits)

lemma rune_len_extend:
  assumes "0 < rune_len s"
  shows "rune_len (take (rune_len s) s @ t) = rune_len s"
proof -
  obtain c cs where s: "s = c # cs" using assms by (cases s) auto
  let ?n = "rune_size (of_char c)"
  from assms s have t: "rune_tail (of_char c) (take (?n - 1) cs)" and n: "rune_len s = ?n"
    by (auto simp: rune_len_Cons split: if_splits)
  with assms have "take ?n s = c # take (?n - 1) cs" by (cases ?n) (simp_all add: s)
  moreover from t have "length (take (?n - 1) cs) = ?n - 1" by (simp only: rune_tail_def)
  ultimately show ?thesis using t by (simp add: n rune_len_Cons)
qed

lemma rune_len_take: "0 < rune_len s \<Longrightarrow> rune_len (take (rune_len s) s) = rune_len s"
  using rune_len_extend [of s "[]"] by simp

section \<open>Valid strings\<close>

text \<open>\<^verbatim>\<open>strings.ToValidUTF8\<close>, byte by byte, and \<^verbatim>\<open>utf8.ValidString\<close>\<close>

function toValid :: "gostring \<Rightarrow> gostring" where
  "toValid [] = []"
| "toValid (c # cs) =
     (let n = rune_len (c # cs) in
      if n = 0 then replacement @ toValid cs
      else take n (c # cs) @ toValid (drop n (c # cs)))"
  by pat_completeness auto
termination by (relation "measure length") auto

function valid_utf8 :: "gostring \<Rightarrow> bool" where
  "valid_utf8 [] = True"
| "valid_utf8 (c # cs) =
     (let n = rune_len (c # cs) in if n = 0 then False else valid_utf8 (drop n (c # cs)))"
  by pat_completeness auto
termination by (relation "measure length") auto

declare toValid.simps(2) [simp del] valid_utf8.simps(2) [simp del]

lemma toValid_step:
  "toValid (c # cs) =
     (if rune_len (c # cs) = 0 then replacement @ toValid cs
      else take (rune_len (c # cs)) (c # cs) @ toValid (drop (rune_len (c # cs)) (c # cs)))"
  by (simp add: toValid.simps Let_def)

lemma valid_step:
  "valid_utf8 (c # cs) \<longleftrightarrow> 0 < rune_len (c # cs) \<and> valid_utf8 (drop (rune_len (c # cs)) (c # cs))"
  by (simp add: valid_utf8.simps Let_def)

lemma toValid_valid [simp]: "valid_utf8 s \<Longrightarrow> toValid s = s"
proof (induction s rule: valid_utf8.induct)
  case (2 c cs)
  then show ?case by (simp add: valid_step toValid_step)
qed simp

lemma valid_append_rune:
  assumes "0 < rune_len s" "s = take (rune_len s) s" "valid_utf8 t"
  shows "valid_utf8 (s @ t)"
proof -
  obtain c cs where s: "s = c # cs" using assms(1) by (cases s) auto
  have "rune_len (s @ t) = rune_len s" using rune_len_extend [OF assms(1), of t] assms(2) by simp
  moreover have "rune_len s = length s" using rune_len_le [of s] assms(2) by (metis length_take min.absorb2)
  ultimately show ?thesis using assms(1,3) by (simp add: s valid_step)
qed

lemma valid_toValid [simp]: "valid_utf8 (toValid s)"
proof (induction s rule: toValid.induct)
  case (2 c cs)
  let ?n = "rune_len (c # cs)"
  show ?case
  proof (cases "?n = 0")
    case True
    have "rune_len replacement = 3"
      by (simp add: replacement_def rune_len_def rune_tail_def rune_size_def second_byte_def byte_in_def)
    with 2 True show ?thesis
      by (simp add: toValid_step) (rule valid_append_rune, simp_all add: replacement_def)
  next
    case False
    with 2 have v: "valid_utf8 (toValid (drop ?n (c # cs)))" by simp
    from False rune_len_take [of "c # cs"] have l: "rune_len (take ?n (c # cs)) = ?n" by simp
    have "valid_utf8 (take ?n (c # cs) @ toValid (drop ?n (c # cs)))"
      using False v by (intro valid_append_rune) (simp_all add: l)
    with False show ?thesis by (simp add: toValid_step)
  qed
qed simp

lemma toValid_idem [simp]: "toValid (toValid s) = toValid s"
  by simp

lemma valid_iff: "valid_utf8 s \<longleftrightarrow> toValid s = s"
  using valid_toValid [of s] toValid_valid [of s] by metis

lemma valid_ascii: "is_ascii s \<Longrightarrow> valid_utf8 s"
proof (induction s)
  case (Cons c cs)
  then have "(of_char c :: nat) < 0x80" "is_ascii cs" by (auto simp: is_ascii_def)
  with Cons.IH rune_len_ascii [of c cs] show ?case by (simp add: valid_step)
qed simp

lemma toValid_Nil_iff [simp]: "toValid s = [] \<longleftrightarrow> s = []"
  by (cases s) (auto simp: toValid_step replacement_def)

end
