(* ===== verification/Json.thy ===== *)
theory Json
  imports Utf8
begin

text \<open>
  What the program uses of \<^verbatim>\<open>encoding/json\<close>: values as trees, the text \<^verbatim>\<open>Marshal\<close> prints for
  a tree, and the tree \<^verbatim>\<open>Unmarshal\<close> reads from a text. Texts are Go strings, bytes in UTF-8. The
  theory ends with the round trip: a printed tree is read back with every string made valid UTF-8.
\<close>

datatype json =
    JNull
  | JBool bool
  | JNum gostring
  | JStr gostring
  | JArr "json list"
  | JObj "(gostring \<times> json) list"

section \<open>Strings\<close>

abbreviation backslash :: char where "backslash \<equiv> CHR 0x5C"
abbreviation dquote :: char where "dquote \<equiv> CHR 0x22"

text \<open>
  \<^verbatim>\<open>appendString\<close> with \<^verbatim>\<open>escapeHTML\<close>, the default: the escapes of ASCII characters, those of
  U+2028 and U+2029, and the replacement of invalid bytes.
\<close>

definition escapeChar :: "char \<Rightarrow> gostring" where
  "escapeChar c =
     (let b = (of_char c :: nat) in
      if c = dquote \<or> c = backslash then [backslash, c]
      else if b = 8 then [backslash, CHR ''b'']
      else if b = 12 then [backslash, CHR ''f'']
      else if b = 10 then [backslash, CHR ''n'']
      else if b = 13 then [backslash, CHR ''r'']
      else if b = 9 then [backslash, CHR ''t'']
      else if b < 32 \<or> c = CHR ''<'' \<or> c = CHR ''>'' \<or> c = CHR ''&''
        then [backslash, CHR ''u'', CHR ''0'', CHR ''0'', hex_digit (b div 16), hex_digit (b mod 16)]
      else [c])"

definition line_sep :: gostring where "line_sep = [CHR 0xE2, CHR 0x80, CHR 0xA8]"
definition para_sep :: gostring where "para_sep = [CHR 0xE2, CHR 0x80, CHR 0xA9]"

function escapeBody :: "gostring \<Rightarrow> gostring" where
  "escapeBody [] = []"
| "escapeBody (c # cs) =
     (let n = rune_len (c # cs) in
      if n = 0 then backslash # ''ufffd'' @ escapeBody cs
      else if n = 1 then escapeChar c @ escapeBody cs
      else
        (let r = take n (c # cs) in
         (if r = line_sep then backslash # ''u2028''
          else if r = para_sep then backslash # ''u2029'' else r) @ escapeBody (drop n (c # cs))))"
  by pat_completeness auto
termination by (relation "measure length") auto

definition printString :: "gostring \<Rightarrow> gostring" where
  "printString s = dquote # escapeBody s @ [dquote]"

text \<open>\<^verbatim>\<open>getu4\<close>: four hexadecimal digits.\<close>

definition hex_value :: "char \<Rightarrow> nat option" where
  "hex_value c =
     (let b = (of_char c :: nat) in
      if 48 \<le> b \<and> b \<le> 57 then Some (b - 48)
      else if 97 \<le> b \<and> b \<le> 102 then Some (b - 87)
      else if 65 \<le> b \<and> b \<le> 70 then Some (b - 55)
      else None)"

fun hex4 :: "gostring \<Rightarrow> nat option" where
  "hex4 (a # b # c # d # _) =
     (case (hex_value a, hex_value b, hex_value c, hex_value d) of
        (Some w, Some x, Some y, Some z) \<Rightarrow> Some (4096 * w + 256 * x + 16 * y + z)
      | _ \<Rightarrow> None)"
| "hex4 _ = None"

text \<open>
  The rune of a \<^verbatim>\<open>\u\<close> escape with the value \<open>v\<close>, given what follows it, and how many characters
  of that belong to it: a surrogate needs its partner, without it the rune is replaced.
\<close>

definition surrogate :: "nat \<Rightarrow> bool" where
  "surrogate v \<longleftrightarrow> 0xD800 \<le> v \<and> v < 0xE000"

fun low_surrogate :: "gostring \<Rightarrow> nat option" where
  "low_surrogate (e # u # r) =
     (if e = backslash \<and> u = CHR ''u''
      then (case hex4 r of Some w \<Rightarrow> if 0xDC00 \<le> w \<and> w < 0xE000 then Some w else None | None \<Rightarrow> None)
      else None)"
| "low_surrogate _ = None"

definition escapedRune :: "nat \<Rightarrow> gostring \<Rightarrow> gostring \<times> nat" where
  "escapedRune v r =
     (if \<not> surrogate v then (encodeRune v, 0)
      else if v < 0xDC00 then
        (case low_surrogate r of
           Some w \<Rightarrow> (encodeRune (0x10000 + (v - 0xD800) * 1024 + (w - 0xDC00)), 6)
         | None \<Rightarrow> (replacement, 0))
      else (replacement, 0))"

definition unescape :: "char \<Rightarrow> char option" where
  "unescape e =
     (if e = dquote \<or> e = backslash \<or> e = CHR ''/'' then Some e
      else if e = CHR ''b'' then Some (CHR 8)
      else if e = CHR ''f'' then Some (CHR 12)
      else if e = CHR ''n'' then Some (CHR 10)
      else if e = CHR ''r'' then Some (CHR 13)
      else if e = CHR ''t'' then Some (CHR 9)
      else None)"

definition prepend :: "gostring \<Rightarrow> (gostring \<times> gostring) option \<Rightarrow> (gostring \<times> gostring) option" where
  "prepend p x = (case x of None \<Rightarrow> None | Some (s, r) \<Rightarrow> Some (p @ s, r))"

text \<open>
  The scanner and \<^verbatim>\<open>unquote\<close> together: from behind the opening quote, the string and what follows
  the closing quote. \<open>None\<close> is a syntax error.
\<close>

function parseString :: "gostring \<Rightarrow> (gostring \<times> gostring) option" where
  "parseString [] = None"
| "parseString (c # cs) =
     (if c = dquote then Some ([], cs)
      else if (of_char c :: nat) < 32 then None
      else if c = backslash then
        (case cs of
           [] \<Rightarrow> None
         | e # r \<Rightarrow>
             if e = CHR ''u'' then
               (case hex4 r of
                  None \<Rightarrow> None
                | Some v \<Rightarrow>
                    (case escapedRune v (drop 4 r) of
                       (t, k) \<Rightarrow> prepend t (parseString (drop (4 + k) r))))
             else (case unescape e of None \<Rightarrow> None | Some x \<Rightarrow> prepend [x] (parseString r)))
      else
        (let n = rune_len (c # cs) in
         if n = 0 then prepend replacement (parseString cs)
         else prepend (take n (c # cs)) (parseString (drop n (c # cs)))))"
  by pat_completeness auto
termination by (relation "measure length") auto

declare escapeBody.simps(2) [simp del] parseString.simps(2) [simp del]

lemma escapeBody_step:
  "escapeBody (c # cs) =
     (if rune_len (c # cs) = 0 then backslash # ''ufffd'' @ escapeBody cs
      else if rune_len (c # cs) = 1 then escapeChar c @ escapeBody cs
      else
        (let r = take (rune_len (c # cs)) (c # cs) in
         (if r = line_sep then backslash # ''u2028''
          else if r = para_sep then backslash # ''u2029'' else r) @ escapeBody (drop (rune_len (c # cs)) (c # cs))))"
  by (simp add: escapeBody.simps Let_def)

lemma prepend_simps [simp]:
  "prepend p (Some (s, r)) = Some (p @ s, r)" "prepend p None = None"
  by (simp_all add: prepend_def)

lemma prepend_Some [simp]: "prepend p z = Some (x, r) \<longleftrightarrow> (\<exists>y. z = Some (y, r) \<and> x = p @ y)"
  by (auto simp: prepend_def split: option.splits)

lemma hex_value_digit: "n < 16 \<Longrightarrow> hex_value (hex_digit n) = Some n"
  by (auto simp: hex_value_def hex_digit_def)

lemma hex_value_lit [simp]:
  "hex_value (CHR ''0'') = Some 0" "hex_value (CHR ''2'') = Some 2" "hex_value (CHR ''8'') = Some 8"
  "hex_value (CHR ''9'') = Some 9" "hex_value (CHR ''f'') = Some 15" "hex_value (CHR ''d'') = Some 13"
  by (simp_all add: hex_value_def)

lemma parse_escape:
  assumes "hex4 r = Some v" "\<not> surrogate v"
  shows "parseString (backslash # CHR ''u'' # r) = prepend (encodeRune v) (parseString (drop 4 r))"
  using assms by (simp add: parseString.simps escapedRune_def)

lemma char_of_lits [simp]:
  "char_of (8 :: nat) = CHR 0x08" "char_of (9 :: nat) = CHR 0x09" "char_of (10 :: nat) = CHR 0x0A"
  "char_of (12 :: nat) = CHR 0x0C" "char_of (13 :: nat) = CHR 0x0D"
  "char_of (128 :: nat) = CHR 0x80" "char_of (168 :: nat) = CHR 0xA8" "char_of (169 :: nat) = CHR 0xA9"
  "char_of (226 :: nat) = CHR 0xE2" "char_of (239 :: nat) = CHR 0xEF" "char_of (191 :: nat) = CHR 0xBF"
  "char_of (189 :: nat) = CHR 0xBD"
  by code_simp+

lemma parse_fixed_escapes:
  "parseString (backslash # CHR ''u'' # CHR ''f'' # CHR ''f'' # CHR ''f'' # CHR ''d'' # t) =
     prepend replacement (parseString t)"
  "parseString (backslash # CHR ''u'' # CHR ''2'' # CHR ''0'' # CHR ''2'' # CHR ''8'' # t) =
     prepend line_sep (parseString t)"
  "parseString (backslash # CHR ''u'' # CHR ''2'' # CHR ''0'' # CHR ''2'' # CHR ''9'' # t) =
     prepend para_sep (parseString t)"
  by (subst parse_escape, simp, simp add: surrogate_def,
      simp add: encodeRune_def replacement_def line_sep_def para_sep_def)+

lemma parse_plain:
  assumes "\<not> (of_char c :: nat) < 32" "c \<noteq> dquote" "c \<noteq> backslash" "0 < rune_len (c # cs)"
  shows "parseString (c # cs) =
    prepend (take (rune_len (c # cs)) (c # cs)) (parseString (drop (rune_len (c # cs)) (c # cs)))"
  using assms by (simp add: parseString.simps Let_def)

text \<open>An ASCII character comes back from whatever it is printed as.\<close>

lemma parse_escapeChar:
  assumes "(of_char c :: nat) < 0x80"
  shows "parseString (escapeChar c @ t) = prepend [c] (parseString t)"
proof -
  let ?b = "of_char c :: nat"
  have chars: "c = char_of n" if "?b = n" for n by (simp flip: that)
  consider "c = dquote \<or> c = backslash" | "?b \<in> {8, 9, 10, 12, 13}"
    | "c \<noteq> dquote" "c \<noteq> backslash" "?b \<notin> {8, 9, 10, 12, 13}"
      "?b < 32 \<or> c = CHR ''<'' \<or> c = CHR ''>'' \<or> c = CHR ''&''"
    | "c \<noteq> dquote" "c \<noteq> backslash" "\<not> ?b < 32" "c \<noteq> CHR ''<''" "c \<noteq> CHR ''>''" "c \<noteq> CHR ''&''"
    by auto
  then show ?thesis
  proof cases
    case 1
    then show ?thesis by (auto simp: escapeChar_def parseString.simps unescape_def)
  next
    case 2
    then have "c \<in> char_of ` {8, 9, 10, 12, 13 :: nat}" using chars by blast
    then show ?thesis by (auto simp: escapeChar_def parseString.simps unescape_def)
  next
    case 3
    then have "escapeChar c = [backslash, CHR ''u'', CHR ''0'', CHR ''0'', hex_digit (?b div 16), hex_digit (?b mod 16)]"
      by (simp add: escapeChar_def Let_def)
    moreover have "hex4 (CHR ''0'' # CHR ''0'' # hex_digit (?b div 16) # hex_digit (?b mod 16) # t) = Some ?b"
      using assms by (simp add: hex_value_digit)
    ultimately show ?thesis using assms
      by (simp add: parse_escape surrogate_def encodeRune_def)
  next
    case 4
    then have "escapeChar c = [c]" by (simp add: escapeChar_def Let_def)
    with assms 4 show ?thesis by (simp add: parseString.simps rune_len_ascii)
  qed
qed

lemma parse_rune:
  assumes "1 < rune_len s"
  shows "parseString (take (rune_len s) s @ t) = prepend (take (rune_len s) s) (parseString t)"
proof -
  obtain c cs where s: "s = c # cs" using assms by (cases s) auto
  let ?n = "rune_len s"
  have n: "?n \<le> length s" "rune_len (take ?n s @ t) = ?n"
    using rune_len_le rune_len_extend [of s t] assms by simp_all
  obtain r where r: "take ?n s = c # r" using assms by (cases ?n) (auto simp: s)
  have "\<not> (of_char c :: nat) < 0x80" using assms rune_len_ascii [of c cs] by (auto simp: s)
  then have c: "\<not> (of_char c :: nat) < 32" "c \<noteq> dquote" "c \<noteq> backslash" by auto
  have "c # r @ t = take ?n s @ t" by (simp add: r)
  then have l: "rune_len (c # r @ t) = ?n" by (simp only: n(2))
  have "length (take ?n s) = ?n" using n(1) by simp
  then have l2: "?n = length (c # r)" by (simp only: r)
  have "take ?n (c # r @ t) = c # r" "drop ?n (c # r @ t) = t" by (simp_all add: l2)
  with parse_plain [OF c, of "r @ t"] l assms have
    "parseString (c # r @ t) = prepend (c # r) (parseString t)" by (simp only:)
  then show ?thesis by (simp add: r)
qed

lemma parse_escapeBody: "parseString (escapeBody s @ dquote # t) = Some (toValid s, t)"
proof (induction s rule: escapeBody.induct)
  case 1
  then show ?case by (simp add: parseString.simps)
next
  case (2 c cs)
  let ?n = "rune_len (c # cs)"
  consider "?n = 0" | "?n = 1" | "1 < ?n" by linarith
  then show ?case
  proof cases
    case 1
    with 2 show ?thesis by (simp add: escapeBody_step toValid_step parse_fixed_escapes)
  next
    case 2
    then have c: "(of_char c :: nat) < 0x80" using rune_len_one by blast
    with 2 "2.IH" show ?thesis
      by (simp add: escapeBody_step toValid_step parse_escapeChar)
  next
    case 3
    let ?r = "take ?n (c # cs)"
    from 3 "2.IH" have "parseString (escapeBody (drop ?n (c # cs)) @ dquote # t) =
        Some (toValid (drop ?n (c # cs)), t)" by simp
    with 3 parse_rune [of "c # cs"] show ?thesis
      by (auto simp: escapeBody_step toValid_step Let_def parse_fixed_escapes)
  qed
qed

lemma parseString_shorter: "parseString s = Some (x, r) \<Longrightarrow> length r < length s"
proof (induction s arbitrary: x rule: measure_induct_rule [where f = length])
  case (less s)
  from less.prems obtain c cs where s: "s = c # cs" by (cases s) simp_all
  have rec: "length r < length s" if "parseString t = Some (y, r)" "length t < length s" for t y
    using less.IH [OF that(2,1)] that(2) by simp
  from less.prems show ?case
    unfolding s parseString.simps(2) Let_def
    by (auto simp: s split: if_splits list.splits option.splits prod.splits dest!: rec)
qed

section \<open>Numbers\<close>

text \<open>The grammar of the scanner: integer part, fraction, exponent; each gives what is left.\<close>

definition intPart :: "gostring \<Rightarrow> gostring option" where
  "intPart s =
     (case s of
        [] \<Rightarrow> None
      | c # cs \<Rightarrow>
          if c = CHR ''0'' then Some cs
          else if is_digit c then Some (dropWhile is_digit cs)
          else None)"

definition digitsPart :: "gostring \<Rightarrow> gostring option" where
  "digitsPart s =
     (case s of [] \<Rightarrow> None | c # cs \<Rightarrow> if is_digit c then Some (dropWhile is_digit cs) else None)"

definition fracPart :: "gostring \<Rightarrow> gostring option" where
  "fracPart s = (case s of c # cs \<Rightarrow> if c = CHR ''.'' then digitsPart cs else Some s | [] \<Rightarrow> Some [])"

definition expPart :: "gostring \<Rightarrow> gostring option" where
  "expPart s =
     (case s of
        [] \<Rightarrow> Some []
      | c # cs \<Rightarrow>
          if c = CHR ''e'' \<or> c = CHR ''E'' then
            digitsPart (case cs of x # r \<Rightarrow> if x = CHR ''+'' \<or> x = CHR ''-'' then r else cs | [] \<Rightarrow> [])
          else Some s)"

definition parseNumber :: "gostring \<Rightarrow> (gostring \<times> gostring) option" where
  "parseNumber s =
     (case intPart (case s of c # cs \<Rightarrow> if c = CHR ''-'' then cs else s | [] \<Rightarrow> []) of
        None \<Rightarrow> None
      | Some r1 \<Rightarrow>
          (case fracPart r1 of
             None \<Rightarrow> None
           | Some r2 \<Rightarrow>
               (case expPart r2 of
                  None \<Rightarrow> None
                | Some r3 \<Rightarrow> Some (take (length s - length r3) s, r3))))"

text \<open>What may follow a number.\<close>

definition number_ends :: "gostring \<Rightarrow> bool" where
  "number_ends t \<longleftrightarrow>
     (case t of [] \<Rightarrow> True
      | c # _ \<Rightarrow> \<not> is_digit c \<and> c \<noteq> CHR ''.'' \<and> c \<noteq> CHR ''e'' \<and> c \<noteq> CHR ''E'')"

lemma showNat_zero: "showNat 0 = ''0''"
  by (simp add: showNat.simps [of 0] digit_char_def) code_simp

lemma showNat_no_zero: "0 < n \<Longrightarrow> hd (showNat n) \<noteq> CHR ''0''"
proof (induction n rule: showNat.induct)
  case (1 n)
  show ?case
  proof (cases "n < 10")
    case True
    then have "of_char (digit_char n) \<noteq> (of_char (CHR ''0'') :: nat)" using 1(2) by simp
    then have "digit_char n \<noteq> CHR ''0''" by metis
    with True show ?thesis by (simp add: showNat.simps [of n])
  next
    case False
    with 1(1) show ?thesis by (simp add: showNat.simps [of n])
  qed
qed

lemma intPart_showNat: "number_ends t \<Longrightarrow> intPart (showNat n @ t) = Some t"
proof -
  assume t: "number_ends t"
  obtain c cs where s: "showNat n = c # cs" using showNat_nonempty [of n] by (cases "showNat n") auto
  have digits: "is_digit c" "list_all is_digit cs" using showNat_digits [of _ n] s by (auto simp: list_all_iff)
  have "dropWhile is_digit (cs @ t) = dropWhile is_digit t" using digits(2) by (induction cs) simp_all
  also have "\<dots> = t" using t by (cases t) (auto simp: number_ends_def)
  finally have d: "dropWhile is_digit (cs @ t) = t" .
  show ?thesis
  proof (cases "n = 0")
    case True
    with showNat_zero s show ?thesis by (simp add: intPart_def)
  next
    case False
    with showNat_no_zero [of n] s digits(1) d show ?thesis by (simp add: intPart_def)
  qed
qed

lemma parseNumber_Itoa:
  assumes t: "number_ends t"
  shows "parseNumber (Itoa i @ t) = Some (Itoa i, t)"
proof -
  have f: "fracPart t = Some t" "expPart t = Some t"
    using t by (auto simp: fracPart_def expPart_def number_ends_def split: list.splits)
  show ?thesis
  proof (cases "i < 0")
    case True
    then show ?thesis using intPart_showNat [OF t] f
      by (simp add: parseNumber_def Itoa_def)
  next
    case False
    obtain c cs where s: "showNat (nat i) = c # cs"
      using showNat_nonempty [of "nat i"] by (cases "showNat (nat i)") auto
    with showNat_hd_digit [of "nat i"] have "c \<noteq> CHR ''-''" by auto
    with s False intPart_showNat [OF t, of "nat i"] f show ?thesis
      by (simp add: parseNumber_def Itoa_def)
  qed
qed

section \<open>Values\<close>

definition json_space :: "char \<Rightarrow> bool" where
  "json_space c \<longleftrightarrow> c = CHR '' '' \<or> c = CHR 0x09 \<or> c = CHR 0x0D \<or> c = CHR 0x0A"

abbreviation skipSpace :: "gostring \<Rightarrow> gostring" where
  "skipSpace \<equiv> dropWhile json_space"

lemma skipSpace_le: "skipSpace s = c # r \<Longrightarrow> length r < length s"
  by (metis Suc_le_lessD length_Cons length_dropWhile_le)

text \<open>
  The value at the front of a text and what follows it. \<open>d\<close> is the number of containers that may
  still be opened; \<^verbatim>\<open>maxNestingDepth\<close> is 10000. The comparisons of lengths are always true
  (\<open>parse_shorter\<close>).
\<close>

function (sequential)
  parseValue :: "nat \<Rightarrow> gostring \<Rightarrow> (json \<times> gostring) option"
  and parseElems :: "nat \<Rightarrow> gostring \<Rightarrow> (json list \<times> gostring) option"
  and parseMembers :: "nat \<Rightarrow> gostring \<Rightarrow> ((gostring \<times> json) list \<times> gostring) option" where
  "parseValue d s =
     (case skipSpace s of
        [] \<Rightarrow> None
      | c # r \<Rightarrow>
          if c = CHR ''{'' then
            (if d = 0 then None
             else (case skipSpace r of
                [] \<Rightarrow> None
              | e # r1 \<Rightarrow>
                  if e = CHR ''}'' then Some (JObj [], r1)
                  else (case parseMembers (d - 1) r of
                          None \<Rightarrow> None | Some (fs, r2) \<Rightarrow> Some (JObj fs, r2))))
          else if c = CHR ''['' then
            (if d = 0 then None
             else (case skipSpace r of
                [] \<Rightarrow> None
              | e # r1 \<Rightarrow>
                  if e = CHR '']'' then Some (JArr [], r1)
                  else (case parseElems (d - 1) r of
                          None \<Rightarrow> None | Some (vs, r2) \<Rightarrow> Some (JArr vs, r2))))
          else if c = dquote then
            (case parseString r of None \<Rightarrow> None | Some (x, r1) \<Rightarrow> Some (JStr x, r1))
          else if HasPrefix (c # r) ''true'' then Some (JBool True, drop 3 r)
          else if HasPrefix (c # r) ''false'' then Some (JBool False, drop 4 r)
          else if HasPrefix (c # r) ''null'' then Some (JNull, drop 3 r)
          else (case parseNumber (c # r) of None \<Rightarrow> None | Some (x, r1) \<Rightarrow> Some (JNum x, r1)))"
| "parseElems d s =
     (case parseValue d s of
        None \<Rightarrow> None
      | Some (v, r) \<Rightarrow>
          (case skipSpace r of
             [] \<Rightarrow> None
           | c # r1 \<Rightarrow>
               if c = CHR '']'' then Some ([v], r1)
               else if c = CHR '','' \<and> length r1 < length s then
                 (case parseElems d r1 of None \<Rightarrow> None | Some (vs, r2) \<Rightarrow> Some (v # vs, r2))
               else None))"
| "parseMembers d s =
     (case skipSpace s of
        [] \<Rightarrow> None
      | q # r0 \<Rightarrow>
          if q \<noteq> dquote then None
          else (case parseString r0 of
             None \<Rightarrow> None
           | Some (k, r) \<Rightarrow>
               (case skipSpace r of
                  [] \<Rightarrow> None
                | c # r1 \<Rightarrow>
                    if c = CHR '':'' \<and> length r1 < length s then
                      (case parseValue d r1 of
                         None \<Rightarrow> None
                       | Some (v, r2) \<Rightarrow>
                           (case skipSpace r2 of
                              [] \<Rightarrow> None
                            | e # r3 \<Rightarrow>
                                if e = CHR ''}'' then Some ([(k, v)], r3)
                                else if e = CHR '','' \<and> length r3 < length s then
                                  (case parseMembers d r3 of
                                     None \<Rightarrow> None | Some (fs, r4) \<Rightarrow> Some ((k, v) # fs, r4))
                                else None))
                    else None)))"
  by pat_completeness auto

termination
  by (relation "measure (case_sum (\<lambda>(d, s). 2 * length s) (case_sum (\<lambda>(d, s). 2 * length s + 1) (\<lambda>(d, s). 2 * length s + 1)))")
    (auto dest!: skipSpace_le)

declare parseValue.simps [simp del] parseElems.simps [simp del] parseMembers.simps [simp del]

text \<open>\<^verbatim>\<open>Unmarshal\<close> up to the tree: one value with white space around it and nothing else.\<close>

definition maxNestingDepth :: nat where "maxNestingDepth = 10000"

definition parseJSON :: "gostring \<Rightarrow> json option" where
  "parseJSON s =
     (case parseValue maxNestingDepth s of
        None \<Rightarrow> None | Some (v, r) \<Rightarrow> if skipSpace r = [] then Some v else None)"

fun commaSep :: "gostring list \<Rightarrow> gostring" where
  "commaSep [] = []"
| "commaSep [x] = x"
| "commaSep (x # xs) = x @ '','' @ commaSep xs"

fun printJSON :: "json \<Rightarrow> gostring" where
  "printJSON JNull = ''null''"
| "printJSON (JBool b) = (if b then ''true'' else ''false'')"
| "printJSON (JNum x) = x"
| "printJSON (JStr x) = printString x"
| "printJSON (JArr vs) = ''['' @ commaSep (map printJSON vs) @ '']''"
| "printJSON (JObj fs) =
     ''{'' @ commaSep (map (\<lambda>(k, v). printString k @ '':'' @ printJSON v) fs) @ ''}''"

section \<open>Printed values are read back\<close>

fun validated :: "json \<Rightarrow> json" where
  "validated (JStr x) = JStr (toValid x)"
| "validated (JArr vs) = JArr (map validated vs)"
| "validated (JObj fs) = JObj (map (\<lambda>(k, v). (toValid k, validated v)) fs)"
| "validated v = v"

fun json_depth :: "json \<Rightarrow> nat" where
  "json_depth (JArr vs) = Suc (foldr max (map json_depth vs) 0)"
| "json_depth (JObj fs) = Suc (foldr max (map (\<lambda>(k, v). json_depth v) fs) 0)"
| "json_depth v = 0"

text \<open>The numbers of a tree are integers of 64 bits.\<close>

fun int_numbers :: "json \<Rightarrow> bool" where
  "int_numbers (JNum x) = (case Atoi x of None \<Rightarrow> False | Some i \<Rightarrow> x = Itoa i)"
| "int_numbers (JArr vs) = list_all int_numbers vs"
| "int_numbers (JObj fs) = list_all (\<lambda>(k, v). int_numbers v) fs"
| "int_numbers v = True"

lemma foldr_max_le: "foldr max xs 0 \<le> (d :: nat) \<longleftrightarrow> list_all (\<lambda>x. x \<le> d) xs"
  by (induction xs) auto

lemma int_numbers_Itoa [simp]: "in_int64 i \<Longrightarrow> int_numbers (JNum (Itoa i))"
  by (simp add: Atoi_Itoa)

text \<open>The first character of a printed value tells what it is.\<close>

lemma Itoa_front: "\<exists>c cs. Itoa i = c # cs \<and> (is_digit c \<or> c = CHR ''-'')"
proof (cases "i < 0")
  case False
  obtain c cs where "showNat (nat i) = c # cs"
    using showNat_nonempty [of "nat i"] by (cases "showNat (nat i)") auto
  with showNat_hd_digit [of "nat i"] False show ?thesis by (simp add: Itoa_def)
qed (simp add: Itoa_def)

lemma digit_not [simp]:
  "\<not> is_digit (CHR ''{'')" "\<not> is_digit dquote" "\<not> is_digit (CHR ''t'')" "\<not> is_digit (CHR ''f'')"
  "\<not> is_digit (CHR ''n'')" "\<not> is_digit (CHR ''}'')" "\<not> is_digit (CHR '' '')" "\<not> is_digit (CHR 0x09)"
  "\<not> is_digit (CHR 0x0A)" "\<not> is_digit (CHR 0x0D)" "\<not> is_digit (CHR ''.'')" "\<not> is_digit (CHR ''e'')"
  "\<not> is_digit (CHR ''E'')"
  by (simp_all add: is_digit_def)

lemma value_front:
  assumes "int_numbers v"
  shows "\<exists>c cs. printJSON v = c # cs \<and> \<not> json_space c \<and> c \<noteq> CHR '']'' \<and> c \<noteq> CHR ''}''"
proof (cases v)
  case (JNum x)
  with assms obtain i where "x = Itoa i" by (auto split: option.splits)
  with JNum Itoa_front [of i] show ?thesis by (auto simp: json_space_def)
qed (auto simp: json_space_def printString_def)

lemma skip_front: "\<not> json_space c \<Longrightarrow> skipSpace (c # cs) = c # cs"
  by simp

lemma parseValue_number:
  assumes "number_ends t"
  shows "parseValue d (Itoa i @ t) = Some (JNum (Itoa i), t)"
proof -
  obtain c cs where c: "Itoa i = c # cs" "is_digit c \<or> c = CHR ''-''" using Itoa_front by blast
  then have n: "c \<noteq> CHR ''{''" "c \<noteq> CHR ''[''" "c \<noteq> dquote" "\<not> json_space c"
    "c \<noteq> CHR ''t''" "c \<noteq> CHR ''f''" "c \<noteq> CHR ''n''"
    by (auto simp: json_space_def)
  have "parseNumber (c # cs @ t) = Some (Itoa i, t)" using parseNumber_Itoa [OF assms, of i] c(1) by simp
  with n show ?thesis by (simp add: parseValue.simps c(1) HasPrefix_def)
qed

lemma parseElems_last: "parseValue d s = Some (v, CHR '']'' # t) \<Longrightarrow> parseElems d s = Some ([v], t)"
  by (simp add: parseElems.simps [of d s] json_space_def)

lemma parseElems_more:
  "parseValue d s = Some (v, CHR '','' # r) \<Longrightarrow> length r < length s \<Longrightarrow>
     parseElems d r = Some (vs, t) \<Longrightarrow> parseElems d s = Some (v # vs, t)"
  by (simp add: parseElems.simps [of d s] json_space_def)

lemma parseMembers_last:
  "parseValue d w = Some (v, CHR ''}'' # t) \<Longrightarrow>
     parseMembers d (printString k @ CHR '':'' # w) = Some ([(toValid k, v)], t)"
  using parse_escapeBody [of k "CHR '':'' # w"]
  by (simp add: parseMembers.simps [of d "dquote # x" for x] printString_def json_space_def)

lemma parseMembers_more:
  "parseValue d w = Some (v, CHR '','' # r) \<Longrightarrow> length r < length w \<Longrightarrow>
     parseMembers d r = Some (fs, t) \<Longrightarrow>
     parseMembers d (printString k @ CHR '':'' # w) = Some ((toValid k, v) # fs, t)"
  using parse_escapeBody [of k "CHR '':'' # w"]
  by (simp add: parseMembers.simps [of d "dquote # x" for x] printString_def json_space_def)

lemma commaSep_Cons: "xs \<noteq> [] \<Longrightarrow> commaSep (x # xs) = x @ CHR '','' # commaSep xs"
  by (cases xs) simp_all

lemma ends_delim [simp]:
  "number_ends (CHR '']'' # t)" "number_ends (CHR ''}'' # t)" "number_ends (CHR '','' # t)" "number_ends []"
  by (simp_all add: number_ends_def)

lemma parseElems_printed:
  assumes "vs \<noteq> []" "\<And>v t. v \<in> set vs \<Longrightarrow> number_ends t \<Longrightarrow> parseValue d (printJSON v @ t) = Some (validated v, t)"
  shows "parseElems d (commaSep (map printJSON vs) @ CHR '']'' # t) = Some (map validated vs, t)"
  using assms
proof (induction vs)
  case (Cons v vs)
  show ?case
  proof (cases "vs = []")
    case True
    with Cons.prems(2) [of v] show ?thesis by (simp add: parseElems_last)
  next
    case False
    let ?r = "commaSep (map printJSON vs) @ CHR '']'' # t"
    have "parseElems d ?r = Some (map validated vs, t)" using Cons.IH Cons.prems(2) False by simp
    with parseElems_more [of d "printJSON v @ CHR '','' # ?r" "validated v" ?r] Cons.prems(2) [of v] False
    show ?thesis by (simp add: commaSep_Cons)
  qed
qed simp

lemma parseMembers_printed:
  assumes "fs \<noteq> []"
    "\<And>k v t. (k, v) \<in> set fs \<Longrightarrow> number_ends t \<Longrightarrow> parseValue d (printJSON v @ t) = Some (validated v, t)"
  shows "parseMembers d (commaSep (map (\<lambda>(k, v). printString k @ '':'' @ printJSON v) fs) @ CHR ''}'' # t) =
    Some (map (\<lambda>(k, v). (toValid k, validated v)) fs, t)"
  using assms
proof (induction fs)
  case (Cons f fs)
  obtain k v where f: "f = (k, v)" by (cases f)
  show ?case
  proof (cases "fs = []")
    case True
    with Cons.prems(2) [of k v] show ?thesis by (simp add: f parseMembers_last)
  next
    case False
    let ?r = "commaSep (map (\<lambda>(k, v). printString k @ '':'' @ printJSON v) fs) @ CHR ''}'' # t"
    have r: "parseMembers d ?r = Some (map (\<lambda>(k, v). (toValid k, validated v)) fs, t)"
      using False by (rule Cons.IH) (rule Cons.prems(2), rule list.set_intros(2), assumption+)
    have "parseValue d (printJSON v @ CHR '','' # ?r) = Some (validated v, CHR '','' # ?r)"
      using Cons.prems(2) [of k v] f by simp
    from parseMembers_more [OF this _ r, of k] False show ?thesis by (simp add: f commaSep_Cons)
  qed
qed simp

lemma parse_printJSON:
  assumes "int_numbers v" "json_depth v \<le> d" "number_ends t"
  shows "parseValue d (printJSON v @ t) = Some (validated v, t)"
  using assms
proof (induction v arbitrary: d t rule: printJSON.induct)
  case (3 x)
  then obtain i where "x = Itoa i" by (auto split: option.splits)
  with 3 parseValue_number show ?case by simp
next
  case (4 x)
  then show ?case
    by (simp add: parseValue.simps printString_def json_space_def parse_escapeBody)
next
  case (5 vs)
  have d: "0 < d" "list_all (\<lambda>v. json_depth v \<le> d - 1) vs"
    using "5.prems"(2) foldr_max_le [of "map json_depth vs" "d - 1"] by (auto simp: list_all_iff)
  show ?case
  proof (cases "vs = []")
    case True
    with d show ?thesis by (simp add: parseValue.simps json_space_def)
  next
    case False
    then obtain w ws where vs: "vs = w # ws" by (cases vs) auto
    let ?b = "commaSep (map printJSON vs)"
    have "parseElems (d - 1) (?b @ CHR '']'' # t) = Some (map validated vs, t)"
      using False by (rule parseElems_printed) (use "5.IH" "5.prems"(1) d(2) in \<open>auto simp: list_all_iff\<close>)
    moreover obtain c cs where "printJSON w = c # cs" "\<not> json_space c" "c \<noteq> CHR '']''"
      using value_front [of w] "5.prems"(1) vs by auto
    then have "\<exists>cs'. ?b = c # cs'" using vs by (cases ws) simp_all
    ultimately show ?thesis using d \<open>\<not> json_space c\<close> \<open>c \<noteq> CHR '']''\<close>
      by (auto simp: parseValue.simps [of d "CHR ''['' # x" for x] json_space_def)
  qed
next
  case (6 fs)
  have d: "0 < d" "list_all (\<lambda>(k, v). json_depth v \<le> d - 1) fs"
    using "6.prems"(2) foldr_max_le [of "map (\<lambda>(k, v). json_depth v) fs" "d - 1"]
    by (auto simp: list_all_iff)
  show ?case
  proof (cases "fs = []")
    case True
    with d show ?thesis by (simp add: parseValue.simps json_space_def)
  next
    case False
    let ?b = "commaSep (map (\<lambda>(k, v). printString k @ '':'' @ printJSON v) fs)"
    have "parseMembers (d - 1) (?b @ CHR ''}'' # t) = Some (map (\<lambda>(k, v). (toValid k, validated v)) fs, t)"
      using False by (rule parseMembers_printed) (use "6.IH" "6.prems"(1) d(2) in \<open>fastforce simp: list_all_iff\<close>)
    moreover from False obtain k v gs where "fs = (k, v) # gs" by (cases fs) auto
    then have "\<exists>cs'. ?b = dquote # cs'" by (cases gs) (simp_all add: printString_def)
    ultimately show ?thesis using d
      by (auto simp: parseValue.simps [of d "CHR ''{'' # x" for x] json_space_def)
  qed
qed (auto simp: parseValue.simps json_space_def HasPrefix_def)

lemma parseJSON_print:
  "int_numbers v \<Longrightarrow> json_depth v \<le> maxNestingDepth \<Longrightarrow> parseJSON (printJSON v) = Some (validated v)"
  using parse_printJSON [of v maxNestingDepth "[]"] by (simp add: parseJSON_def)

section \<open>The parser consumes its input\<close>

lemma dropWhile_le: "length (dropWhile P s) \<le> length s"
  by (rule length_dropWhile_le)

lemma parseNumber_shorter: "parseNumber s = Some (x, r) \<Longrightarrow> length r < length s"
proof -
  have i: "intPart s = Some r \<Longrightarrow> length r < length s" for s r
    using dropWhile_le by (auto simp: intPart_def less_Suc_eq_le split: list.splits if_splits)
  have g: "digitsPart s = Some r \<Longrightarrow> length r < length s" for s r
    using dropWhile_le by (auto simp: digitsPart_def less_Suc_eq_le split: list.splits if_splits)
  have f: "fracPart s = Some r \<Longrightarrow> length r \<le> length s" for s r
    using g by (fastforce simp: fracPart_def split: list.splits if_splits)
  have e: "expPart s = Some r \<Longrightarrow> length r \<le> length s" for s r
    using g by (fastforce simp: expPart_def split: list.splits if_splits)
  assume "parseNumber s = Some (x, r)"
  then obtain s0 r1 r2 where p: "intPart s0 = Some r1" "fracPart r1 = Some r2" "expPart r2 = Some r"
    "length s0 \<le> length s"
    by (auto simp: parseNumber_def split: list.splits if_splits option.splits)
  from i [OF p(1)] f [OF p(2)] e [OF p(3)] p(4) show ?thesis by linarith
qed

text \<open>So the comparisons of lengths in the parser never fail.\<close>

lemma parse_shorter:
  "parseValue d s = Some (v, r) \<Longrightarrow> length r < length s"
  "parseElems d s = Some (vs, r) \<Longrightarrow> length r < length s"
  "parseMembers d s = Some (fs, r) \<Longrightarrow> length r < length s"
proof (induction d s and d s and d s arbitrary: v r and vs r and fs r
    rule: parseValue_parseElems_parseMembers.induct)
  case (1 d s)
  obtain c t where t: "skipSpace s = c # t" using "1.prems" by (cases "skipSpace s") (simp_all add: parseValue.simps)
  have l: "length t < length s" by (rule skipSpace_le [OF t])
  have "length r \<le> length t"
    using "1.prems" "1.IH" [OF t]
    by (auto simp: parseValue.simps [of d s] t split: if_splits list.splits option.splits
        dest!: skipSpace_le parseString_shorter parseNumber_shorter intro: less_imp_le)
  with l show ?case by simp
next
  case (2 d s)
  obtain w t where t: "parseValue d s = Some (w, t)" using "2.prems"
    by (cases "parseValue d s") (auto simp: parseElems.simps [of d s])
  obtain c t1 where t1: "skipSpace t = c # t1" using "2.prems"
    by (cases "skipSpace t") (auto simp: parseElems.simps [of d s] t)
  have l: "length t < length s" "length t1 < length t"
    using "2.IH"(1) [OF t] skipSpace_le [OF t1] by simp_all
  have "length r \<le> length t1"
    using "2.prems" "2.IH"(2) [OF t refl t1]
    by (auto simp: parseElems.simps [of d s] t t1 split: if_splits option.splits intro: less_imp_le)
  with l show ?case by simp
next
  case (3 d s)
  note unf = parseMembers.simps [of d s]
  obtain q r0 where q: "skipSpace s = q # r0" "q = dquote" using "3.prems"
    by (cases "skipSpace s") (auto simp: unf split: if_splits)
  obtain k t where k: "parseString r0 = Some (k, t)" using "3.prems"
    by (cases "parseString r0") (auto simp: unf q)
  obtain c t1 where c: "skipSpace t = c # t1" "c = CHR '':''" "length t1 < length s" using "3.prems"
    by (cases "skipSpace t") (auto simp: unf q k split: if_splits)
  obtain v t2 where v: "parseValue d t1 = Some (v, t2)" using "3.prems"
    by (cases "parseValue d t1") (auto simp: unf q k c)
  obtain e t3 where e: "skipSpace t2 = e # t3" using "3.prems"
    by (cases "skipSpace t2") (auto simp: unf q k c v)
  have q': "\<not> q \<noteq> dquote" and c': "c = CHR '':'' \<and> length t1 < length s" using q c by simp_all
  have l: "length t2 < length t1" "length t3 < length t2"
    using "3.IH"(1) [OF q(1) q' k refl c(1) c' v] skipSpace_le [OF e] by simp_all
  have "length r \<le> length t3"
    using "3.prems" "3.IH"(2) [OF q(1) q' k refl c(1) c' v refl e]
    by (auto simp: unf q k c v e split: if_splits option.splits intro: less_imp_le)
  with l c(3) show ?case by simp
qed

section \<open>How long the encoding is\<close>

lemma escapeBody_length: "length (escapeBody s) \<le> 6 * length s"
proof (induction "length s" arbitrary: s rule: less_induct)
  case less
  show ?case
  proof (cases s)
    case (Cons c cs)
    let ?n = "rune_len (c # cs)"
    have n: "?n \<le> Suc (length cs)" using rune_len_le [of "c # cs"] by simp
    have "length (escapeChar c) \<le> 6" by (simp add: escapeChar_def Let_def)
    moreover have "length (escapeBody cs) \<le> 6 * length cs" by (rule less) (simp add: Cons)
    moreover have "length (escapeBody (drop ?n (c # cs))) \<le> 6 * (Suc (length cs) - ?n)" if "0 < ?n"
      using less [of "drop ?n (c # cs)"] that n by (simp add: Cons)
    ultimately show ?thesis
      unfolding Cons using n by (subst escapeBody_step) (auto simp: Let_def)
  qed simp
qed

fun json_size :: "json \<Rightarrow> nat" where
  "json_size JNull = 4"
| "json_size (JBool _) = 5"
| "json_size (JNum x) = length x"
| "json_size (JStr s) = 6 * length s + 2"
| "json_size (JArr vs) = sum_list (map (\<lambda>v. Suc (json_size v)) vs) + 2"
| "json_size (JObj fs) = sum_list (map (\<lambda>(k, v). 6 * length k + 4 + json_size v) fs) + 2"

lemma commaSep_length: "length (commaSep xs) \<le> sum_list (map (\<lambda>x. Suc (length x)) xs)"
  by (induction xs rule: commaSep.induct) auto

lemma printJSON_length: "length (printJSON v) \<le> json_size v"
proof (induction v)
  case (JStr s)
  then show ?case using escapeBody_length [of s] by (simp add: printString_def)
next
  case (JArr vs)
  have "sum_list (map (\<lambda>v. Suc (length (printJSON v))) vs) \<le> sum_list (map (\<lambda>v. Suc (json_size v)) vs)"
    by (rule sum_list_mono) (simp add: JArr)
  with commaSep_length [of "map printJSON vs"] show ?case by (simp add: comp_def)
next
  case (JObj fs)
  have "sum_list (map (\<lambda>(k, v). Suc (length (printString k @ CHR '':'' # printJSON v))) fs) \<le>
      sum_list (map (\<lambda>(k, v). 6 * length k + 4 + json_size v) fs)"
  proof (rule sum_list_mono, clarify)
    fix k v assume "(k, v) \<in> set fs"
    then have "length (printJSON v) \<le> json_size v" by (intro JObj) auto
    with escapeBody_length [of k]
    show "Suc (length (printString k @ CHR '':'' # printJSON v)) \<le> 6 * length k + 4 + json_size v"
      by (simp add: printString_def)
  qed
  with commaSep_length [of "map (\<lambda>(k, v). printString k @ CHR '':'' # printJSON v) fs"] show ?case
    by (simp add: comp_def case_prod_unfold)
qed simp_all

lemma showNat_length: "n < 10 ^ k \<Longrightarrow> 0 < k \<Longrightarrow> length (showNat n) \<le> k"
proof (induction k arbitrary: n)
  case (Suc k)
  show ?case
  proof (cases "n < 10")
    case True
    then show ?thesis by (subst showNat.simps) simp
  next
    case False
    with Suc.prems have "0 < k" by (cases k) auto
    moreover have "n div 10 < 10 ^ k" using Suc.prems(1) by (simp add: less_mult_imp_div_less)
    ultimately have "length (showNat (n div 10)) \<le> k" by (intro Suc.IH)
    with False show ?thesis by (subst showNat.simps) simp
  qed
qed simp

lemma Itoa_length: "in_int64 i \<Longrightarrow> length (Itoa i) \<le> 20"
  using showNat_length [of "nat i" 19] showNat_length [of "nat (- i)" 19]
  by (auto simp: Itoa_def in_int64_def nat_less_iff)

end
