(* ===== verification/Proto.thy ===== *)
theory Proto
  imports GoLib
begin

text \<open>
  \<^verbatim>\<open>internal/proto/proto.go\<close>: the control messages and the frame format
  \<^verbatim>\<open>[1B type][4B big-endian length][payload]\<close>. Readers and writers are the interfaces
  \<open>byte_reader\<close> and \<open>byte_writer\<close>; the frame codec is proved correct against the interfaces
  and interpreted on a connection that delivers its bytes in arbitrary chunks.
\<close>

section \<open>Constants and messages\<close>

definition FrameHeaderSize :: nat where "FrameHeaderSize = 5"

definition MaxFrameSize :: "32 word" where "MaxFrameSize = push_bit 20 1"

definition Version :: gostring where "Version = ''1.0''"

definition TypeLogin :: byte where "TypeLogin = 1"
definition TypeLoginResp :: byte where "TypeLoginResp = 2"
definition TypeNewProxy :: byte where "TypeNewProxy = 3"
definition TypeNewProxyResp :: byte where "TypeNewProxyResp = 4"
definition TypeCloseProxy :: byte where "TypeCloseProxy = 5"
definition TypeStartWorkConn :: byte where "TypeStartWorkConn = 6"
definition TypePing :: byte where "TypePing = 7"
definition TypePong :: byte where "TypePong = 8"
definition TypeError :: byte where "TypeError = 9"
definition TypeStreamMeta :: byte where "TypeStreamMeta = 10"

lemmas frame_types =
  TypeLogin_def TypeLoginResp_def TypeNewProxy_def TypeNewProxyResp_def TypeCloseProxy_def
  TypeStartWorkConn_def TypePing_def TypePong_def TypeError_def TypeStreamMeta_def

text \<open>
  The texts the server puts in an \<^verbatim>\<open>Error\<close> field, one constructor per text with the values
  that are formatted into it. An empty \<^verbatim>\<open>Error\<close> string is \<open>None\<close>. \<open>ErrText\<close> is a text that
  has been received.
\<close>

datatype errmsg =
    InvalidLocalAddress
  | INVALID_PORT int gostring
  | NAME_EXISTS
  | PORT_POOL_FULL
  | PORT_IN_USE int
  | BIND_FAILED gostring
  | UnsupportedType gostring
  | VHOST_DISABLED
  | VHOST_REQUIRED
  | VHOST_NEED_DOMAIN
  | VHOST_CONFLICT gostring
  | EmptyClientID
  | Unauthorized
  | ErrText gostring

record Login =
  lg_Version :: gostring
  lg_ClientID :: gostring
  lg_Ts :: int
  lg_Hmac :: gostring

record LoginResp =
  lr_OK :: bool
  lr_ServerTime :: int
  lr_Error :: "errmsg option"

record NewProxy =
  np_Name :: gostring
  np_Type :: gostring
  np_Local :: gostring
  np_RemotePort :: int
  np_Subdomain :: gostring
  np_CustomDomains :: "gostring list"
  np_ReqID :: int

record NewProxyResp =
  nr_ReqID :: int
  nr_Name :: gostring
  nr_OK :: bool
  nr_RemotePort :: int
  nr_Error :: "errmsg option"

record CloseProxy = cp_Name :: gostring

record StartWorkConn = sw_ProxyName :: gostring

record Ping = ping_Ts :: int

record Pong = pong_Ts :: int

record StreamMeta = sm_ProxyName :: gostring

record ErrorMsg = em_Error :: gostring

section \<open>Readers and writers\<close>

datatype ioerr = EOF | UnexpectedEOF | ShortWrite | IOFailure gostring | FrameTooLarge "32 word"

text \<open>
  One call of \<^verbatim>\<open>Read(buf)\<close> with \<^verbatim>\<open>len(buf) = n\<close> yields the bytes read, the error
  and the new state of the reader; one call of \<^verbatim>\<open>Write\<close> yields the number of bytes written,
  the error and the new state of the writer.
\<close>

type_synonym 'r read_fn = "'r \<Rightarrow> nat \<Rightarrow> bytes \<times> ioerr option \<times> 'r"
type_synonym 'w write_fn = "'w \<Rightarrow> bytes \<Rightarrow> nat \<times> ioerr option \<times> 'w"

text \<open>\<^verbatim>\<open>io.ReadFull\<close>: the loop may not return when the reader keeps returning \<^verbatim>\<open>(0, nil)\<close>.\<close>

partial_function (option) readLoop ::
  "'r read_fn \<Rightarrow> nat \<Rightarrow> bytes \<Rightarrow> 'r \<Rightarrow> (bytes \<times> ioerr option \<times> 'r) option" where
  "readLoop rd n acc r =
     (if length acc < n
      then (case rd r (n - length acc) of (bs, e, r') \<Rightarrow>
              (case e of None \<Rightarrow> readLoop rd n (acc @ bs) r'
               | Some x \<Rightarrow> Some (acc @ bs, Some x, r')))
      else Some (acc, None, r))"

definition ReadFull :: "'r read_fn \<Rightarrow> nat \<Rightarrow> 'r \<Rightarrow> ((ioerr + bytes) \<times> 'r) option" where
  "ReadFull rd n r =
     (case readLoop rd n [] r of
        None \<Rightarrow> None
      | Some (bs, e, r') \<Rightarrow>
          Some (if n \<le> length bs then Inr bs
                else (case e of None \<Rightarrow> Inr bs
                      | Some x \<Rightarrow> Inl (if bs \<noteq> [] \<and> x = EOF then UnexpectedEOF else x)), r'))"

locale byte_reader =
  fixes rd :: "'r read_fn"
    and rest :: "'r \<Rightarrow> bytes"
    and fin :: "'r \<Rightarrow> ioerr"
    and ok :: "'r \<Rightarrow> bool"
  assumes read_step: "ok r \<Longrightarrow> 0 < n \<Longrightarrow> rd r n = (bs, e, r') \<Longrightarrow>
      ok r' \<and> rest r = bs @ rest r' \<and> length bs \<le> n \<and> fin r' = fin r"
    and read_progress: "ok r \<Longrightarrow> 0 < n \<Longrightarrow> rd r n = (bs, None, r') \<Longrightarrow> bs \<noteq> []"
    and read_end: "ok r \<Longrightarrow> 0 < n \<Longrightarrow> rd r n = (bs, Some x, r') \<Longrightarrow> rest r' = [] \<and> x = fin r"
begin

lemma readLoop_returns:
  assumes "ok r" "length acc \<le> n"
  shows "\<exists>bs e r'. readLoop rd n acc r = Some (bs, e, r') \<and> ok r' \<and> fin r' = fin r \<and>
           bs = acc @ take (n - length acc) (rest r) \<and> rest r = take (n - length acc) (rest r) @ rest r' \<and>
           (length bs < n \<longrightarrow> e = Some (fin r))"
  using assms
proof (induction "n - length acc" arbitrary: acc r rule: less_induct)
  case less
  show ?case
  proof (cases "length acc < n")
    case False
    with less.prems show ?thesis by (subst readLoop.simps) simp
  next
    case True
    obtain bs e r1 where rd: "rd r (n - length acc) = (bs, e, r1)" by (cases "rd r (n - length acc)")
    with True less.prems read_step [of r "n - length acc" bs e r1]
    have st: "ok r1" "rest r = bs @ rest r1" "length bs \<le> n - length acc" "fin r1 = fin r" by auto
    show ?thesis
    proof (cases e)
      case None
      with rd True less.prems have "bs \<noteq> []" by (intro read_progress) auto
      with True st(3) have lt: "n - length (acc @ bs) < n - length acc" by (cases bs) auto
      from st True have "length (acc @ bs) \<le> n" by auto
      from less.hyps [OF lt st(1) this] obtain cs e2 r2 where
        "readLoop rd n (acc @ bs) r1 = Some (cs, e2, r2)" "ok r2" "fin r2 = fin r1"
        "cs = (acc @ bs) @ take (n - length (acc @ bs)) (rest r1)"
        "rest r1 = take (n - length (acc @ bs)) (rest r1) @ rest r2"
        "length cs < n \<longrightarrow> e2 = Some (fin r1)" by blast
      with True rd None st show ?thesis
        by (subst readLoop.simps) (auto simp: diff_diff_left)
    next
      case (Some x)
      with rd True less.prems read_end [of r "n - length acc" bs x r1]
      have "rest r1 = []" "x = fin r" by auto
      with True rd Some st show ?thesis by (subst readLoop.simps) auto
    qed
  qed
qed

text \<open>
  \<^verbatim>\<open>io.ReadFull\<close> returns for every reader that makes progress, and its result depends only
  on the bytes that are still to come, not on how they are cut into reads.
\<close>

lemma ReadFull_enough:
  assumes "ok r" "n \<le> length (rest r)"
  shows "\<exists>r'. ReadFull rd n r = Some (Inr (take n (rest r)), r') \<and> ok r' \<and>
           rest r' = drop n (rest r) \<and> fin r' = fin r"
proof -
  from readLoop_returns [OF assms(1), of "[]" n] obtain bs e r' where
    r: "readLoop rd n [] r = Some (bs, e, r')" "ok r'" "fin r' = fin r"
    "bs = take n (rest r)" "rest r = take n (rest r) @ rest r'" by auto
  then have "rest r' = drop n (rest r)" by (metis append_take_drop_id same_append_eq)
  with r assms(2) show ?thesis by (simp add: ReadFull_def)
qed

lemma ReadFull_short:
  assumes "ok r" "length (rest r) < n"
  shows "\<exists>r'. ReadFull rd n r =
    Some (Inl (if rest r \<noteq> [] \<and> fin r = EOF then UnexpectedEOF else fin r), r')"
proof -
  from readLoop_returns [OF assms(1), of "[]" n] obtain bs e r' where
    r: "readLoop rd n [] r = Some (bs, e, r')" "bs = take n (rest r)"
    "length bs < n \<longrightarrow> e = Some (fin r)" by auto
  with assms(2) show ?thesis by (auto simp: ReadFull_def)
qed

end

locale byte_writer =
  fixes wr :: "'w write_fn"
    and written :: "'w \<Rightarrow> bytes"
  assumes write_step: "wr w bs = (n, e, w') \<Longrightarrow> n \<le> length bs \<and> written w' = written w @ take n bs"
    and write_full: "wr w bs = (n, None, w') \<Longrightarrow> n = length bs"

section \<open>Frames\<close>

text \<open>\<^verbatim>\<open>binary.BigEndian.PutUint32\<close> and \<^verbatim>\<open>binary.BigEndian.Uint32\<close>\<close>

definition PutUint32 :: "32 word \<Rightarrow> bytes" where
  "PutUint32 v = [ucast (drop_bit 24 v), ucast (drop_bit 16 v), ucast (drop_bit 8 v), ucast v]"

fun Uint32 :: "bytes \<Rightarrow> 32 word" where
  "Uint32 (b0 # b1 # b2 # b3 # _) =
     or (ucast b3) (or (push_bit 8 (ucast b2)) (or (push_bit 16 (ucast b1)) (push_bit 24 (ucast b0))))"
| "Uint32 _ = 0" \<comment> \<open>not reached: the header always has five bytes\<close>

definition WriteFrame :: "'w write_fn \<Rightarrow> 'w \<Rightarrow> byte \<Rightarrow> bytes \<Rightarrow> ioerr option \<times> 'w" where
  "WriteFrame wr w typ payload =
     (let hdr = typ # PutUint32 (word_of_nat (length payload)) in
      case wr w hdr of
        (_, Some e, w1) \<Rightarrow> (Some e, w1)
      | (_, None, w1) \<Rightarrow>
          if 0 < length payload
          then (case wr w1 payload of (_, Some e, w2) \<Rightarrow> (Some e, w2) | (_, None, w2) \<Rightarrow> (None, w2))
          else (None, w1))"

definition ReadFrame :: "'r read_fn \<Rightarrow> 'r \<Rightarrow> ((ioerr + byte \<times> bytes) \<times> 'r) option" where
  "ReadFrame rd r =
     (case ReadFull rd FrameHeaderSize r of
        None \<Rightarrow> None
      | Some (Inl e, r1) \<Rightarrow> Some (Inl e, r1)
      | Some (Inr hdr, r1) \<Rightarrow>
          (let typ = hd hdr; n = Uint32 (drop 1 hdr) in
           if MaxFrameSize < n then Some (Inl (FrameTooLarge n), r1)
           else (case ReadFull rd (unat n) r1 of
                   None \<Rightarrow> None
                 | Some (Inl e, r2) \<Rightarrow> Some (Inl e, r2)
                 | Some (Inr payload, r2) \<Rightarrow> Some (Inr (typ, payload), r2))))"

definition WriteMessage ::
    "('m \<Rightarrow> ioerr + bytes) \<Rightarrow> 'w write_fn \<Rightarrow> 'w \<Rightarrow> byte \<Rightarrow> 'm \<Rightarrow> ioerr option \<times> 'w" where
  "WriteMessage marshal wr w typ msg =
     (case marshal msg of Inl e \<Rightarrow> (Some e, w) | Inr payload \<Rightarrow> WriteFrame wr w typ payload)"

text \<open>What \<^verbatim>\<open>WriteFrame\<close> puts on the wire when no write fails.\<close>

definition frame_bytes :: "byte \<Rightarrow> bytes \<Rightarrow> bytes" where
  "frame_bytes typ payload = typ # PutUint32 (word_of_nat (length payload)) @ payload"

lemma length_PutUint32 [simp]: "length (PutUint32 v) = 4"
  by (simp add: PutUint32_def)

lemma Uint32_PutUint32 [simp]: "Uint32 (PutUint32 v @ xs) = v"
proof -
  let ?w = "or (ucast (ucast v :: byte)) (or (push_bit 8 (ucast (ucast (drop_bit 8 v) :: byte)))
      (or (push_bit 16 (ucast (ucast (drop_bit 16 v) :: byte)))
        (push_bit 24 (ucast (ucast (drop_bit 24 v) :: byte))))) :: 32 word"
  have "?w = v"
  proof (rule bit_word_eqI)
    fix n assume "n < LENGTH(32)"
    then consider "n < 8" | "8 \<le> n" "n < 16" | "16 \<le> n" "n < 24" | "24 \<le> n" "n < 32" by fastforce
    then show "bit ?w n \<longleftrightarrow> bit v n" by cases (auto simp: bit_simps)
  qed
  then show ?thesis by (simp add: PutUint32_def)
qed

lemma frame_length_word: "length payload \<le> 2 ^ 20 \<Longrightarrow>
    unat (word_of_nat (length payload) :: 32 word) = length payload"
  by (simp add: unat_of_nat)

lemma MaxFrameSize_unat [simp]: "unat MaxFrameSize = 2 ^ 20"
  by (simp add: MaxFrameSize_def)

text \<open>
  The reference decoder: what one \<^verbatim>\<open>ReadFrame\<close> makes of a byte sequence that ends with the
  error \<open>x\<close>, and what it leaves.
\<close>

definition short_err :: "ioerr \<Rightarrow> bytes \<Rightarrow> ioerr" where
  "short_err x s = (if s \<noteq> [] \<and> x = EOF then UnexpectedEOF else x)"

definition decode_frame :: "ioerr \<Rightarrow> bytes \<Rightarrow> ioerr + byte \<times> bytes" where
  "decode_frame x s =
     (if length s < 5 then Inl (short_err x s)
      else let n = Uint32 (take 4 (drop 1 s)); body = drop 5 s in
        if MaxFrameSize < n then Inl (FrameTooLarge n)
        else if length body < unat n then Inl (short_err x body)
        else Inr (hd s, take (unat n) body))"

definition after_frame :: "bytes \<Rightarrow> bytes" where
  "after_frame s = drop (5 + unat (Uint32 (take 4 (drop 1 s)))) s"

lemma length_frame_bytes [simp]: "length (frame_bytes typ payload) = 5 + length payload"
  by (simp add: frame_bytes_def)

lemma decode_frame_bytes:
  assumes "length payload \<le> 2 ^ 20"
  shows "decode_frame x (frame_bytes typ payload @ rem) = Inr (typ, payload)"
    and "after_frame (frame_bytes typ payload @ rem) = rem"
proof -
  let ?n = "word_of_nat (length payload) :: 32 word"
  have n: "unat ?n = length payload" using assms by (rule frame_length_word)
  have u: "Uint32 (take 4 (drop 1 (frame_bytes typ payload @ rem))) = ?n"
    using Uint32_PutUint32 [of ?n "[]"] by (simp add: frame_bytes_def)
  have le: "\<not> MaxFrameSize < ?n"
    using assms n by (simp add: word_less_nat_alt)
  show "decode_frame x (frame_bytes typ payload @ rem) = Inr (typ, payload)"
    using u le n by (simp add: decode_frame_def Let_def) (simp add: frame_bytes_def)
  show "after_frame (frame_bytes typ payload @ rem) = rem"
    unfolding after_frame_def u n by simp
qed

context byte_reader
begin

lemma ReadFrame_decodes:
  assumes "ok r"
  shows "\<exists>r'. ReadFrame rd r = Some (decode_frame (fin r) (rest r), r') \<and>
    (\<forall>f. decode_frame (fin r) (rest r) = Inr f \<longrightarrow>
       ok r' \<and> rest r' = after_frame (rest r) \<and> fin r' = fin r)"
proof (cases "length (rest r) < 5")
  case True
  with ReadFull_short [OF assms True] show ?thesis
    by (auto simp: ReadFrame_def FrameHeaderSize_def decode_frame_def short_err_def)
next
  case False
  then have "5 \<le> length (rest r)" by simp
  from ReadFull_enough [OF assms this] obtain r1 where
    h: "ReadFull rd 5 r = Some (Inr (take 5 (rest r)), r1)"
    and r1: "ok r1" "rest r1 = drop 5 (rest r)" "fin r1 = fin r" by blast
  have hd: "hd (take 5 (rest r)) = hd (rest r)" "drop 1 (take 5 (rest r)) = take 4 (drop 1 (rest r))"
    by (simp_all add: drop_take)
  let ?n = "Uint32 (take 4 (drop 1 (rest r)))"
  show ?thesis
  proof (cases "MaxFrameSize < ?n \<or> length (rest r1) < unat ?n")
    case True
    with h hd r1 False ReadFull_short [OF r1(1), of "unat ?n"] show ?thesis
      by (auto simp: ReadFrame_def FrameHeaderSize_def decode_frame_def short_err_def Let_def)
  next
    case F: False
    then have "unat ?n \<le> length (rest r1)" by simp
    from ReadFull_enough [OF r1(1) this] h hd r1 False F show ?thesis
      by (auto simp: ReadFrame_def FrameHeaderSize_def decode_frame_def after_frame_def Let_def
          add.commute)
  qed
qed

lemma ReadFrame_frame:
  assumes "ok r" "rest r = frame_bytes typ payload @ rem" "length payload \<le> 2 ^ 20"
  shows "\<exists>r'. ReadFrame rd r = Some (Inr (typ, payload), r') \<and> ok r' \<and> rest r' = rem \<and> fin r' = fin r"
  using ReadFrame_decodes [OF assms(1)] assms(2)
  by (simp add: decode_frame_bytes [OF assms(3)])

end

context byte_writer
begin

lemma WriteFrame_written:
  assumes "WriteFrame wr w typ payload = (e, w')"
  shows "\<exists>k. written w' = written w @ take k (frame_bytes typ payload)"
    and "e = None \<Longrightarrow> written w' = written w @ frame_bytes typ payload"
proof -
  let ?hdr = "typ # PutUint32 (word_of_nat (length payload))"
  obtain n1 e1 w1 where h: "wr w ?hdr = (n1, e1, w1)" by (cases "wr w ?hdr")
  note s1 = write_step [OF h]
  obtain n2 e2 w2 where p: "wr w1 payload = (n2, e2, w2)" by (cases "wr w1 payload")
  note s2 = write_step [OF p]
  have f: "frame_bytes typ payload = ?hdr @ payload" by (simp add: frame_bytes_def)
  have t1: "take n1 (frame_bytes typ payload) = take n1 ?hdr"
    using s1 by (simp only: f take_append) simp
  have full: "e1 = None \<Longrightarrow> written w1 = written w @ ?hdr"
    using s1 write_full h by fastforce
  have full2: "e2 = None \<Longrightarrow> written w2 = written w1 @ payload"
    using s2 write_full p by fastforce
  show "e = None \<Longrightarrow> written w' = written w @ frame_bytes typ payload"
    using assms h p full full2
    by (auto simp: WriteFrame_def Let_def f split: option.splits if_splits)
  show "\<exists>k. written w' = written w @ take k (frame_bytes typ payload)"
  proof (cases e1)
    case (Some x)
    with assms h s1 have "written w' = written w @ take n1 (frame_bytes typ payload)"
      by (auto simp: WriteFrame_def Let_def t1)
    then show ?thesis by blast
  next
    case None
    show ?thesis
    proof (cases "payload = []")
      case True
      with assms h None full f have "written w' = written w @ take 5 (frame_bytes typ payload)"
        by (auto simp: WriteFrame_def Let_def)
      then show ?thesis by blast
    next
      case False
      have t2: "take (5 + n2) (frame_bytes typ payload) = ?hdr @ take n2 payload"
        by (simp only: f take_append) simp
      from False assms h None p full s2
      have "written w' = written w @ take (5 + n2) (frame_bytes typ payload)"
        unfolding t2 by (auto simp: WriteFrame_def Let_def split: option.splits)
      then show ?thesis by blast
    qed
  qed
qed

end

section \<open>Connections\<close>

text \<open>
  A stream connection as the frame codec sees it: the chunks the peer's bytes arrive in and the
  error behind them, the bytes written so far and how many more the connection accepts before a
  write fails (\<open>None\<close>: no failure).
\<close>

record conn =
  c_in :: "bytes list"
  c_fin :: ioerr
  c_out :: bytes
  c_room :: "nat option"

definition connRead :: "conn read_fn" where
  "connRead c n =
     (case c_in c of
        [] \<Rightarrow> ([], Some (c_fin c), c)
      | ch # chs \<Rightarrow> if length ch \<le> n then (ch, None, c\<lparr>c_in := chs\<rparr>)
                    else (take n ch, None, c\<lparr>c_in := drop n ch # chs\<rparr>))"

definition connWrite :: "conn write_fn" where
  "connWrite c bs =
     (case c_room c of
        None \<Rightarrow> (length bs, None, c\<lparr>c_out := c_out c @ bs\<rparr>)
      | Some k \<Rightarrow>
          if length bs \<le> k
          then (length bs, None, c\<lparr>c_out := c_out c @ bs, c_room := Some (k - length bs)\<rparr>)
          else (k, Some ShortWrite, c\<lparr>c_out := c_out c @ take k bs, c_room := Some 0\<rparr>))"

definition conn_pending :: "conn \<Rightarrow> bytes" where
  "conn_pending c = concat (c_in c)"

definition conn_ok :: "conn \<Rightarrow> bool" where
  "conn_ok c \<longleftrightarrow> [] \<notin> set (c_in c)"

interpretation conn_in: byte_reader connRead conn_pending c_fin conn_ok
proof unfold_locales
  fix r r' :: conn and n :: nat and bs :: bytes and e
  assume "conn_ok r" "0 < n" "connRead r n = (bs, e, r')"
  then show "conn_ok r' \<and> conn_pending r = bs @ conn_pending r' \<and> length bs \<le> n \<and> c_fin r' = c_fin r"
    by (auto simp: conn_ok_def connRead_def conn_pending_def split: list.splits if_splits)
next
  fix r r' :: conn and n :: nat and bs :: bytes
  assume "conn_ok r" "0 < n" "connRead r n = (bs, None, r')"
  then show "bs \<noteq> []"
    by (auto simp: conn_ok_def connRead_def split: list.splits if_splits)
next
  fix r r' :: conn and n :: nat and bs :: bytes and x
  assume "conn_ok r" "0 < n" "connRead r n = (bs, Some x, r')"
  then show "conn_pending r' = [] \<and> x = c_fin r"
    by (auto simp: connRead_def conn_pending_def split: list.splits if_splits)
qed

interpretation conn_out: byte_writer connWrite c_out
  by unfold_locales (auto simp: connWrite_def split: option.splits if_splits)

end
