(* ===== verification/Messages.thy ===== *)
theory Messages
  imports Json Proto
begin

text \<open>
  The messages of \<^verbatim>\<open>internal/proto/proto.go\<close> as JSON: what \<^verbatim>\<open>json.Marshal\<close> makes of
  each struct, following its field tags, and what \<^verbatim>\<open>json.Unmarshal\<close> stores into a zero value of
  it. A decoder yields \<open>None\<close> when \<^verbatim>\<open>Unmarshal\<close> returns an error.
\<close>

section \<open>Structs\<close>

text \<open>
  Field names match exactly, or up to the case folding of \<^verbatim>\<open>encoding/json\<close>, which for names in
  ASCII identifies upper and lower case, and two letters outside ASCII with K and S.
\<close>

definition upper_byte :: "char \<Rightarrow> char" where
  "upper_byte c = (if 97 \<le> (of_char c :: nat) \<and> (of_char c :: nat) \<le> 122 then char_of (of_char c - 32 :: nat) else c)"

fun foldName :: "gostring \<Rightarrow> gostring" where
  "foldName [] = []"
| "foldName [c] = [upper_byte c]"
| "foldName (c # d # cs) =
     (if c = CHR 0xC5 \<and> d = CHR 0xBF then CHR ''S'' # foldName cs
      else if c = CHR 0xE2 \<and> d = CHR 0x84 \<and> take 1 cs = [CHR 0xAA] then CHR ''K'' # foldName (tl cs)
      else upper_byte c # foldName (d # cs))"

type_synonym 'm field = "gostring \<times> (json \<Rightarrow> 'm \<Rightarrow> 'm option)"

definition lookupField :: "'m field list \<Rightarrow> gostring \<Rightarrow> (json \<Rightarrow> 'm \<Rightarrow> 'm option) option" where
  "lookupField F k =
     (case map_of F k of
        Some f \<Rightarrow> Some f
      | None \<Rightarrow> map_option snd (find (\<lambda>(n, f). foldName n = foldName k) F))"

text \<open>
  The members in order; unknown ones are skipped. A value of the wrong type makes \<^verbatim>\<open>Unmarshal\<close>
  fail in the end, whatever comes after it.
\<close>

fun setFields :: "'m field list \<Rightarrow> (gostring \<times> json) list \<Rightarrow> 'm \<Rightarrow> 'm option" where
  "setFields F [] m = Some m"
| "setFields F ((k, v) # fs) m =
     (case lookupField F k of
        None \<Rightarrow> setFields F fs m
      | Some f \<Rightarrow> (case f v m of None \<Rightarrow> None | Some m1 \<Rightarrow> setFields F fs m1))"

text \<open>\<^verbatim>\<open>Unmarshal\<close> into a struct: \<^verbatim>\<open>null\<close> leaves it as it is.\<close>

definition unmarshal :: "'m field list \<Rightarrow> 'm \<Rightarrow> bytes \<Rightarrow> 'm option" where
  "unmarshal F zero payload =
     (case parseJSON (string_of_bytes payload) of
        Some (JObj fs) \<Rightarrow> setFields F fs zero
      | Some JNull \<Rightarrow> Some zero
      | _ \<Rightarrow> None)"

definition marshal :: "(gostring \<times> json) list \<Rightarrow> bytes" where
  "marshal fs = bytes_of_string (printJSON (JObj fs))"

text \<open>What the types of the fields accept; \<^verbatim>\<open>null\<close> is no change.\<close>

definition strField :: "((gostring \<Rightarrow> gostring) \<Rightarrow> 'm \<Rightarrow> 'm) \<Rightarrow> json \<Rightarrow> 'm \<Rightarrow> 'm option" where
  "strField upd v m = (case v of JStr x \<Rightarrow> Some (upd (\<lambda>_. x) m) | JNull \<Rightarrow> Some m | _ \<Rightarrow> None)"

definition intField :: "((int \<Rightarrow> int) \<Rightarrow> 'm \<Rightarrow> 'm) \<Rightarrow> json \<Rightarrow> 'm \<Rightarrow> 'm option" where
  "intField upd v m =
     (case v of
        JNum x \<Rightarrow> (case Atoi x of None \<Rightarrow> None | Some i \<Rightarrow> Some (upd (\<lambda>_. i) m))
      | JNull \<Rightarrow> Some m
      | _ \<Rightarrow> None)"

definition boolField :: "((bool \<Rightarrow> bool) \<Rightarrow> 'm \<Rightarrow> 'm) \<Rightarrow> json \<Rightarrow> 'm \<Rightarrow> 'm option" where
  "boolField upd v m = (case v of JBool b \<Rightarrow> Some (upd (\<lambda>_. b) m) | JNull \<Rightarrow> Some m | _ \<Rightarrow> None)"

definition errField :: "((errmsg option \<Rightarrow> errmsg option) \<Rightarrow> 'm \<Rightarrow> 'm) \<Rightarrow> json \<Rightarrow> 'm \<Rightarrow> 'm option" where
  "errField upd = strField (\<lambda>f. upd (\<lambda>_. if f [] = [] then None else Some (ErrText (f []))))"

text \<open>
  A list of strings is decoded into the array the field has already, if the name occurs more than
  once: \<^verbatim>\<open>null\<close> keeps what is there. The state is the field and that array.
\<close>

fun overlay :: "json list \<Rightarrow> gostring list \<Rightarrow> gostring list option" where
  "overlay [] old = Some []"
| "overlay (v # vs) old =
     (case overlay vs (tl old) of
        None \<Rightarrow> None
      | Some xs \<Rightarrow>
          (case v of
             JStr x \<Rightarrow> Some (x # xs)
           | JNull \<Rightarrow> Some ((case old of [] \<Rightarrow> [] | x # _ \<Rightarrow> x) # xs)
           | _ \<Rightarrow> None))"

definition domainsField :: "json \<Rightarrow> NewProxy \<times> gostring list \<Rightarrow> (NewProxy \<times> gostring list) option" where
  "domainsField v ma =
     (case ma of (m, arr) \<Rightarrow>
        (case v of
           JArr vs \<Rightarrow>
             (case overlay vs arr of
                None \<Rightarrow> None
              | Some xs \<Rightarrow>
                  Some (m\<lparr>np_CustomDomains := xs\<rparr>, if vs = [] then [] else xs @ drop (length xs) arr))
         | JNull \<Rightarrow> Some (m\<lparr>np_CustomDomains := []\<rparr>, [])
         | _ \<Rightarrow> None))"

section \<open>The texts of errors\<close>

text \<open>\<open>quoted\<close> is \<^verbatim>\<open>strconv.Quote\<close>.\<close>

fun errText :: "(gostring \<Rightarrow> gostring) \<Rightarrow> errmsg \<Rightarrow> gostring" where
  "errText quoted InvalidLocalAddress = ''invalid local address''"
| "errText quoted (INVALID_PORT p ports) = ''INVALID_PORT: '' @ Itoa p @ '' '' @ [CHR 0xE4,
     CHR 0xB8, CHR 0x8D, CHR 0xE5, CHR 0x9C, CHR 0xA8, CHR 0xE7, CHR 0x99, CHR 0xBD, CHR 0xE5,
     CHR 0x90, CHR 0x8D, CHR 0xE5, CHR 0x8D, CHR 0x95] @ '' '' @ ports @ '' '' @ [CHR 0xE5,
     CHR 0x86, CHR 0x85]"
| "errText quoted NAME_EXISTS = ''NAME_EXISTS: '' @ [CHR 0xE5, CHR 0x90, CHR 0x8C, CHR 0xE5,
     CHR 0x90, CHR 0x8D, CHR 0xE4, CHR 0xBB, CHR 0xA3, CHR 0xE7, CHR 0x90, CHR 0x86, CHR 0xE9,
     CHR 0x85, CHR 0x8D, CHR 0xE7, CHR 0xBD, CHR 0xAE, CHR 0xE4, CHR 0xB8, CHR 0x8D, CHR 0xE4,
     CHR 0xB8, CHR 0x80, CHR 0xE8, CHR 0x87, CHR 0xB4] @ '','' @ [CHR 0xE8, CHR 0xAF, CHR 0xB7,
     CHR 0xE5, CHR 0x85, CHR 0x88] @ '' CloseProxy''"
| "errText quoted PORT_POOL_FULL = ''PORT_POOL_FULL: '' @ [CHR 0xE7, CHR 0xAB, CHR 0xAF, CHR 0xE5,
     CHR 0x8F, CHR 0xA3, CHR 0xE6, CHR 0xB1, CHR 0xA0, CHR 0xE5, CHR 0xB7, CHR 0xB2, CHR 0xE6,
     CHR 0xBB, CHR 0xA1]"
| "errText quoted (PORT_IN_USE p) = ''PORT_IN_USE: '' @ Itoa p @ '' '' @ [CHR 0xE5, CHR 0xB7,
     CHR 0xB2, CHR 0xE8, CHR 0xA2, CHR 0xAB, CHR 0xE5, CHR 0x8D, CHR 0xA0, CHR 0xE7, CHR 0x94,
     CHR 0xA8]"
| "errText quoted (BIND_FAILED e) = ''BIND_FAILED: '' @ e"
| "errText quoted (UnsupportedType t) = [CHR 0xE4, CHR 0xB8, CHR 0x8D, CHR 0xE6, CHR 0x94,
     CHR 0xAF, CHR 0xE6, CHR 0x8C, CHR 0x81, CHR 0xE7, CHR 0x9A, CHR 0x84, CHR 0xE4, CHR 0xBB,
     CHR 0xA3, CHR 0xE7, CHR 0x90, CHR 0x86, CHR 0xE7, CHR 0xB1, CHR 0xBB, CHR 0xE5, CHR 0x9E,
     CHR 0x8B] @ '' '' @ quoted t"
| "errText quoted VHOST_DISABLED = ''VHOST_DISABLED: '' @ [CHR 0xE6, CHR 0x9C, CHR 0x8D, CHR 0xE5,
     CHR 0x8A, CHR 0xA1, CHR 0xE7, CHR 0xAB, CHR 0xAF, CHR 0xE6, CHR 0x9C, CHR 0xAA, CHR 0xE5,
     CHR 0xBC, CHR 0x80, CHR 0xE5, CHR 0x90, CHR 0xAF] @ '' vhost''"
| "errText quoted VHOST_REQUIRED = ''VHOST_REQUIRED: http '' @ [CHR 0xE4, CHR 0xBB, CHR 0xA3,
     CHR 0xE7, CHR 0x90, CHR 0x86, CHR 0xE9, CHR 0x9C, CHR 0x80, CHR 0xE9, CHR 0x85, CHR 0x8D,
     CHR 0xE7, CHR 0xBD, CHR 0xAE] @ '' subdomain '' @ [CHR 0xE6, CHR 0x88, CHR 0x96] @
     '' custom_domains''"
| "errText quoted VHOST_NEED_DOMAIN = ''VHOST_NEED_DOMAIN: '' @ [CHR 0xE6, CHR 0x9C, CHR 0x8D,
     CHR 0xE5, CHR 0x8A, CHR 0xA1, CHR 0xE7, CHR 0xAB, CHR 0xAF, CHR 0xE6, CHR 0x9C, CHR 0xAA,
     CHR 0xE9, CHR 0x85, CHR 0x8D, CHR 0xE7, CHR 0xBD, CHR 0xAE] @ '' vhost_domain''"
| "errText quoted (VHOST_CONFLICT h) = ''VHOST_CONFLICT: '' @ [CHR 0xE5, CHR 0x9F, CHR 0x9F,
     CHR 0xE5, CHR 0x90, CHR 0x8D] @ '' '' @ h @ '' '' @ [CHR 0xE5, CHR 0xB7, CHR 0xB2, CHR 0xE8,
     CHR 0xA2, CHR 0xAB, CHR 0xE5, CHR 0x8D, CHR 0xA0, CHR 0xE7, CHR 0x94, CHR 0xA8]"
| "errText quoted EmptyClientID = ''empty client_id''"
| "errText quoted Unauthorized = ''unauthorized''"
| "errText quoted (ErrText t) = t"

definition errString :: "(gostring \<Rightarrow> gostring) \<Rightarrow> errmsg option \<Rightarrow> gostring" where
  "errString quoted e = (case e of None \<Rightarrow> [] | Some x \<Rightarrow> errText quoted x)"

section \<open>The messages\<close>

text \<open>A field with \<^verbatim>\<open>omitempty\<close>.\<close>

definition omitEmpty :: "bool \<Rightarrow> gostring \<Rightarrow> json \<Rightarrow> (gostring \<times> json) list" where
  "omitEmpty z k v = (if z then [] else [(k, v)])"

abbreviation JInt :: "int \<Rightarrow> json" where "JInt i \<equiv> JNum (Itoa i)"

definition encLogin :: "Login \<Rightarrow> bytes" where
  "encLogin m = marshal
     [(''version'', JStr (lg_Version m)), (''client_id'', JStr (lg_ClientID m)),
      (''ts'', JInt (lg_Ts m)), (''hmac'', JStr (lg_Hmac m))]"

definition goLogin :: "bytes \<Rightarrow> Login option" where
  "goLogin = unmarshal
     [(''version'', strField lg_Version_update), (''client_id'', strField lg_ClientID_update),
      (''ts'', intField lg_Ts_update), (''hmac'', strField lg_Hmac_update)]
     \<lparr>lg_Version = [], lg_ClientID = [], lg_Ts = 0, lg_Hmac = []\<rparr>"

definition encLoginResp :: "(gostring \<Rightarrow> gostring) \<Rightarrow> LoginResp \<Rightarrow> bytes" where
  "encLoginResp quoted m = marshal
     ([(''ok'', JBool (lr_OK m)), (''server_time'', JInt (lr_ServerTime m))] @
      omitEmpty (errString quoted (lr_Error m) = []) ''error'' (JStr (errString quoted (lr_Error m))))"

definition goLoginResp :: "bytes \<Rightarrow> LoginResp option" where
  "goLoginResp = unmarshal
     [(''ok'', boolField lr_OK_update), (''server_time'', intField lr_ServerTime_update),
      (''error'', errField lr_Error_update)]
     \<lparr>lr_OK = False, lr_ServerTime = 0, lr_Error = None\<rparr>"

definition encNewProxy :: "NewProxy \<Rightarrow> bytes" where
  "encNewProxy m = marshal
     ([(''name'', JStr (np_Name m)), (''type'', JStr (np_Type m)), (''local'', JStr (np_Local m)),
       (''remote_port'', JInt (np_RemotePort m))] @
      omitEmpty (np_Subdomain m = []) ''subdomain'' (JStr (np_Subdomain m)) @
      omitEmpty (np_CustomDomains m = []) ''custom_domains'' (JArr (map JStr (np_CustomDomains m))) @
      omitEmpty (np_ReqID m = 0) ''req_id'' (JInt (np_ReqID m)))"

definition goNewProxy :: "bytes \<Rightarrow> NewProxy option" where
  "goNewProxy payload = map_option fst (unmarshal
     [(''name'', strField (\<lambda>f. apfst (np_Name_update f))), (''type'', strField (\<lambda>f. apfst (np_Type_update f))),
      (''local'', strField (\<lambda>f. apfst (np_Local_update f))),
      (''remote_port'', intField (\<lambda>f. apfst (np_RemotePort_update f))),
      (''subdomain'', strField (\<lambda>f. apfst (np_Subdomain_update f))), (''custom_domains'', domainsField),
      (''req_id'', intField (\<lambda>f. apfst (np_ReqID_update f)))]
     (\<lparr>np_Name = [], np_Type = [], np_Local = [], np_RemotePort = 0, np_Subdomain = [],
       np_CustomDomains = [], np_ReqID = 0\<rparr>, []) payload)"

definition encNewProxyResp :: "(gostring \<Rightarrow> gostring) \<Rightarrow> NewProxyResp \<Rightarrow> bytes" where
  "encNewProxyResp quoted m = marshal
     (omitEmpty (nr_ReqID m = 0) ''req_id'' (JInt (nr_ReqID m)) @
      [(''name'', JStr (nr_Name m)), (''ok'', JBool (nr_OK m)), (''remote_port'', JInt (nr_RemotePort m))] @
      omitEmpty (errString quoted (nr_Error m) = []) ''error'' (JStr (errString quoted (nr_Error m))))"

definition goNewProxyResp :: "bytes \<Rightarrow> NewProxyResp option" where
  "goNewProxyResp = unmarshal
     [(''req_id'', intField nr_ReqID_update), (''name'', strField nr_Name_update),
      (''ok'', boolField nr_OK_update), (''remote_port'', intField nr_RemotePort_update),
      (''error'', errField nr_Error_update)]
     \<lparr>nr_ReqID = 0, nr_Name = [], nr_OK = False, nr_RemotePort = 0, nr_Error = None\<rparr>"

definition encCloseProxy :: "CloseProxy \<Rightarrow> bytes" where
  "encCloseProxy m = marshal [(''name'', JStr (cp_Name m))]"

definition goCloseProxy :: "bytes \<Rightarrow> CloseProxy option" where
  "goCloseProxy = unmarshal [(''name'', strField cp_Name_update)] \<lparr>cp_Name = []\<rparr>"

definition encStartWorkConn :: "StartWorkConn \<Rightarrow> bytes" where
  "encStartWorkConn m = marshal [(''proxy_name'', JStr (sw_ProxyName m))]"

definition goStartWorkConn :: "bytes \<Rightarrow> StartWorkConn option" where
  "goStartWorkConn = unmarshal [(''proxy_name'', strField sw_ProxyName_update)] \<lparr>sw_ProxyName = []\<rparr>"

definition encPing :: "Ping \<Rightarrow> bytes" where
  "encPing m = marshal [(''ts'', JInt (ping_Ts m))]"

definition goPing :: "bytes \<Rightarrow> Ping option" where
  "goPing = unmarshal [(''ts'', intField ping_Ts_update)] \<lparr>ping_Ts = 0\<rparr>"

definition encPong :: "Pong \<Rightarrow> bytes" where
  "encPong m = marshal [(''ts'', JInt (pong_Ts m))]"

definition encStreamMeta :: "StreamMeta \<Rightarrow> bytes" where
  "encStreamMeta m = marshal [(''proxy_name'', JStr (sm_ProxyName m))]"

definition goStreamMeta :: "bytes \<Rightarrow> StreamMeta option" where
  "goStreamMeta = unmarshal [(''proxy_name'', strField sm_ProxyName_update)] \<lparr>sm_ProxyName = []\<rparr>"

section \<open>Round trips\<close>

lemma unmarshal_marshal:
  assumes "int_numbers (JObj fs)" "json_depth (JObj fs) \<le> maxNestingDepth" "list_all (\<lambda>(k, v). is_ascii k) fs"
  shows "unmarshal F zero (marshal fs) = setFields F (map (\<lambda>(k, v). (k, validated v)) fs) zero"
proof -
  have keys: "map (\<lambda>(k, v). (toValid k, validated v)) fs = map (\<lambda>(k, v). (k, validated v)) fs"
    using assms(3) by (auto simp: list_all_iff valid_ascii)
  show ?thesis
    unfolding unmarshal_def marshal_def string_bytes parseJSON_print [OF assms(1, 2)]
      validated.simps option.case json.case keys ..
qed

lemma over_omitEmpty [simp]:
  "list_all P (omitEmpty z k v) \<longleftrightarrow> z \<or> P (k, v)"
  "map f (omitEmpty z k v) = (if z then [] else [f (k, v)])"
  by (simp_all add: omitEmpty_def)

lemma unmarshal_fields:
  assumes "list_all (\<lambda>(k, v). is_ascii k \<and> int_numbers v \<and> json_depth v \<le> 1) fs"
  shows "unmarshal F zero (marshal fs) = setFields F (map (\<lambda>(k, v). (k, validated v)) fs) zero"
proof (rule unmarshal_marshal)
  show "int_numbers (JObj fs)" "list_all (\<lambda>(k, v). is_ascii k) fs"
    using assms by (auto simp: list_all_iff)
  have "foldr max (map (\<lambda>(k, v). json_depth v) fs) 0 \<le> 1"
    unfolding foldr_max_le using assms by (auto simp: list_all_iff)
  then show "json_depth (JObj fs) \<le> maxNestingDepth" by (simp add: maxNestingDepth_def)
qed

lemma is_ascii_char [simp]: "is_ascii (c # cs) \<longleftrightarrow> (of_char c :: nat) < 0x80 \<and> is_ascii cs" "is_ascii []"
  by (simp_all add: is_ascii_def)

lemmas json_fields =
  lookupField_def strField_def intField_def boolField_def errField_def omitEmpty_def maxNestingDepth_def

lemma domains_json [simp]:
  "foldr max (map (json_depth \<circ> JStr) xs) 0 = 0" "list_all int_numbers (map JStr xs)"
  by (induction xs) simp_all

lemma overlay_strings [simp]: "overlay (map (validated \<circ> JStr) xs) [] = Some (map toValid xs)"
  by (induction xs) simp_all

text \<open>
  A message that was sent, as the receiver has it: bytes that are not UTF-8 have been replaced,
  and the error is its text.
\<close>

definition sentError :: "(gostring \<Rightarrow> gostring) \<Rightarrow> errmsg option \<Rightarrow> errmsg option" where
  "sentError quoted e =
     (if errString quoted e = [] then None else Some (ErrText (toValid (errString quoted e))))"

definition sentLogin :: "Login \<Rightarrow> Login" where
  "sentLogin m = m\<lparr>lg_Version := toValid (lg_Version m), lg_ClientID := toValid (lg_ClientID m),
     lg_Hmac := toValid (lg_Hmac m)\<rparr>"

definition sentLoginResp :: "(gostring \<Rightarrow> gostring) \<Rightarrow> LoginResp \<Rightarrow> LoginResp" where
  "sentLoginResp quoted m = m\<lparr>lr_Error := sentError quoted (lr_Error m)\<rparr>"

definition sentNewProxy :: "NewProxy \<Rightarrow> NewProxy" where
  "sentNewProxy m = m\<lparr>np_Name := toValid (np_Name m), np_Type := toValid (np_Type m),
     np_Local := toValid (np_Local m), np_Subdomain := toValid (np_Subdomain m),
     np_CustomDomains := map toValid (np_CustomDomains m)\<rparr>"

definition sentNewProxyResp :: "(gostring \<Rightarrow> gostring) \<Rightarrow> NewProxyResp \<Rightarrow> NewProxyResp" where
  "sentNewProxyResp quoted m =
     m\<lparr>nr_Name := toValid (nr_Name m), nr_Error := sentError quoted (nr_Error m)\<rparr>"

definition sentCloseProxy :: "CloseProxy \<Rightarrow> CloseProxy" where
  "sentCloseProxy m = m\<lparr>cp_Name := toValid (cp_Name m)\<rparr>"

definition sentStartWorkConn :: "StartWorkConn \<Rightarrow> StartWorkConn" where
  "sentStartWorkConn m = m\<lparr>sw_ProxyName := toValid (sw_ProxyName m)\<rparr>"

definition sentStreamMeta :: "StreamMeta \<Rightarrow> StreamMeta" where
  "sentStreamMeta m = m\<lparr>sm_ProxyName := toValid (sm_ProxyName m)\<rparr>"

text \<open>
  What every message type promises: what is encoded is decoded to the message the receiver is
  meant to have. \<open>fits\<close> says which values the Go types hold.
\<close>

locale codec =
  fixes enc :: "'m \<Rightarrow> bytes" and dec :: "bytes \<Rightarrow> 'm option" and fits :: "'m \<Rightarrow> bool" and sent :: "'m \<Rightarrow> 'm"
  assumes decoded: "fits m \<Longrightarrow> dec (enc m) = Some (sent m)"
    and sent_fits: "fits m \<Longrightarrow> fits (sent m)"
    and sent_sent: "sent (sent m) = sent m"
begin

lemma decoded_again: "fits m \<Longrightarrow> dec (enc m) = Some n \<Longrightarrow> dec (enc n) = Some n"
  using decoded [of m] decoded [of n] sent_fits [of m] sent_sent [of m] by auto

text \<open>
  A message written by \<^verbatim>\<open>WriteMessage\<close> is read by \<^verbatim>\<open>ReadFrame\<close> and decoded by the peer,
  however the connection cuts the bytes, and what follows is still there.
\<close>

lemma WriteMessage_ReadFrame:
  assumes w: "WriteMessage (\<lambda>m. Inr (enc m)) connWrite c typ m = (None, c1)" "fits m" "length (enc m) \<le> 2 ^ 20"
    and r: "conn_ok p" "c_out c @ conn_pending p = c_out c1 @ rem"
  shows "\<exists>payload p1. ReadFrame connRead p = Some (Inr (typ, payload), p1) \<and> dec payload = Some (sent m) \<and>
    conn_ok p1 \<and> conn_pending p1 = rem"
proof -
  have "WriteFrame connWrite c typ (enc m) = (None, c1)" using w(1) by (simp add: WriteMessage_def)
  from conn_out.WriteFrame_written(2) [OF this] r(2)
  have p: "conn_pending p = frame_bytes typ (enc m) @ rem" by simp
  from conn_in.ReadFrame_frame [OF r(1) p w(3)] decoded [OF w(2)] show ?thesis by blast
qed

end

interpretation cLogin: codec encLogin goLogin "\<lambda>m. in_int64 (lg_Ts m)" sentLogin
proof (unfold_locales, goal_cases)
  case 1
  then show ?case unfolding goLogin_def encLogin_def
    by (subst unmarshal_fields) (simp_all add: json_fields sentLogin_def Atoi_Itoa)
qed (simp_all add: sentLogin_def)

interpretation cLoginResp: codec "encLoginResp quoted" goLoginResp "\<lambda>m. in_int64 (lr_ServerTime m)"
  "sentLoginResp quoted"
proof (unfold_locales, goal_cases)
  case 1
  then show ?case unfolding goLoginResp_def encLoginResp_def
    by (subst unmarshal_fields) (simp_all add: json_fields sentLoginResp_def sentError_def Atoi_Itoa)
qed (simp_all add: sentLoginResp_def sentError_def errString_def)

interpretation cCloseProxy: codec encCloseProxy goCloseProxy "\<lambda>m. True" sentCloseProxy
proof (unfold_locales, goal_cases)
  case 1
  then show ?case unfolding goCloseProxy_def encCloseProxy_def
    by (subst unmarshal_fields) (simp_all add: json_fields sentCloseProxy_def)
qed (simp_all add: sentCloseProxy_def)

interpretation cStartWorkConn: codec encStartWorkConn goStartWorkConn "\<lambda>m. True" sentStartWorkConn
proof (unfold_locales, goal_cases)
  case 1
  then show ?case unfolding goStartWorkConn_def encStartWorkConn_def
    by (subst unmarshal_fields) (simp_all add: json_fields sentStartWorkConn_def)
qed (simp_all add: sentStartWorkConn_def)

interpretation cStreamMeta: codec encStreamMeta goStreamMeta "\<lambda>m. True" sentStreamMeta
proof (unfold_locales, goal_cases)
  case 1
  then show ?case unfolding goStreamMeta_def encStreamMeta_def
    by (subst unmarshal_fields) (simp_all add: json_fields sentStreamMeta_def)
qed (simp_all add: sentStreamMeta_def)

interpretation cPing: codec encPing goPing "\<lambda>m. in_int64 (ping_Ts m)" "\<lambda>m. m"
proof (unfold_locales, goal_cases)
  case 1
  then show ?case unfolding goPing_def encPing_def
    by (subst unmarshal_fields) (simp_all add: json_fields Atoi_Itoa)
qed simp_all

text \<open>The fields that may be left out are those that are zero in a fresh struct already.\<close>

lemma goNewProxy_enc:
  assumes "in_int64 (np_RemotePort m)" "in_int64 (np_ReqID m)"
  shows "goNewProxy (encNewProxy m) = Some (sentNewProxy m)"
proof -
  obtain n t l p s d r where m: "m = \<lparr>np_Name = n, np_Type = t, np_Local = l, np_RemotePort = p,
    np_Subdomain = s, np_CustomDomains = d, np_ReqID = r\<rparr>" by (cases m)
  show ?thesis
    unfolding goNewProxy_def encNewProxy_def m NewProxy.simps using assms
    by (subst unmarshal_fields) (simp_all add: m json_fields domainsField_def Atoi_Itoa sentNewProxy_def)
qed

interpretation cNewProxy: codec encNewProxy goNewProxy "\<lambda>m. in_int64 (np_RemotePort m) \<and> in_int64 (np_ReqID m)"
  sentNewProxy
  by unfold_locales (simp_all add: goNewProxy_enc sentNewProxy_def comp_def)

lemma goNewProxyResp_enc:
  assumes "in_int64 (nr_RemotePort m)" "in_int64 (nr_ReqID m)"
  shows "goNewProxyResp (encNewProxyResp quoted m) = Some (sentNewProxyResp quoted m)"
proof -
  obtain i n k p e where m: "m = \<lparr>nr_ReqID = i, nr_Name = n, nr_OK = k, nr_RemotePort = p, nr_Error = e\<rparr>"
    by (cases m)
  show ?thesis
    unfolding goNewProxyResp_def encNewProxyResp_def m NewProxyResp.simps using assms
    by (subst unmarshal_fields) (simp_all add: m json_fields Atoi_Itoa sentNewProxyResp_def sentError_def)
qed

interpretation cNewProxyResp: codec "encNewProxyResp quoted" goNewProxyResp
  "\<lambda>m. in_int64 (nr_RemotePort m) \<and> in_int64 (nr_ReqID m)" "sentNewProxyResp quoted"
  by unfold_locales (simp_all add: goNewProxyResp_enc sentNewProxyResp_def sentError_def errString_def)

text \<open>How long a frame can get.\<close>

lemma marshal_length: "length (marshal fs) \<le> json_size (JObj fs)"
  using printJSON_length [of "JObj fs"] by (simp only: marshal_def length_map)

lemma newProxy_length:
  assumes "in_int64 (np_RemotePort m)" "in_int64 (np_ReqID m)"
  shows "length (encNewProxy m) \<le>
    6 * (length (np_Name m) + length (np_Type m) + length (np_Local m) + length (np_Subdomain m)) +
    (\<Sum>d \<leftarrow> np_CustomDomains m. 6 * length d + 3) + 400"
proof -
  note [simp] = comp_def
  have sum: "(\<Sum>d \<leftarrow> ds. 6 * length d + 3) = (\<Sum>d \<leftarrow> ds. Suc (Suc (Suc (6 * length d))))" for ds :: "gostring list"
    by (induction ds) simp_all
  have "length (encNewProxy m) \<le> json_size (JObj
    ([(''name'', JStr (np_Name m)), (''type'', JStr (np_Type m)), (''local'', JStr (np_Local m)),
       (''remote_port'', JInt (np_RemotePort m))] @
      omitEmpty (np_Subdomain m = []) ''subdomain'' (JStr (np_Subdomain m)) @
      omitEmpty (np_CustomDomains m = []) ''custom_domains'' (JArr (map JStr (np_CustomDomains m))) @
      omitEmpty (np_ReqID m = 0) ''req_id'' (JInt (np_ReqID m))))"
    unfolding encNewProxy_def by (rule marshal_length)
  also have "\<dots> \<le> 6 * (length (np_Name m) + length (np_Type m) + length (np_Local m) + length (np_Subdomain m)) +
    (\<Sum>d \<leftarrow> np_CustomDomains m. 6 * length d + 3) + 400"
    using Itoa_length [OF assms(1)] Itoa_length [OF assms(2)] sum by simp
  finally show ?thesis .
qed

end
