(* ===== verification/Config.thy ===== *)
theory Config
  imports GoLib "HOL-Library.Multiset"
begin

text \<open>
  \<^verbatim>\<open>internal/config/config.go\<close>: the configuration records, the port white list
  (\<^verbatim>\<open>ParsePortRanges\<close>), the order-insensitive comparison \<^verbatim>\<open>SameStrings\<close>, and the
  validation done by \<^verbatim>\<open>LoadServer\<close> and \<^verbatim>\<open>LoadClient\<close>. The YAML decoder is
  third-party code: it is the argument \<open>yaml\<close> of the loaders, which turns the file's bytes and the
  defaults into a configuration or an error; reading the file is the argument \<open>readFile\<close>.
\<close>

section \<open>Comparing string lists\<close>

text \<open>The two loops over the counting map; a missing key of a Go map reads as 0.\<close>

fun countStrings :: "gostring list \<Rightarrow> (gostring \<Rightarrow> int) \<Rightarrow> (gostring \<Rightarrow> int)" where
  "countStrings [] ma = ma"
| "countStrings (s # ss) ma = countStrings ss (ma(s := ma s + 1))"

fun takeStrings :: "gostring list \<Rightarrow> (gostring \<Rightarrow> int) \<Rightarrow> bool" where
  "takeStrings [] ma = True"
| "takeStrings (s # ss) ma = (if ma s = 0 then False else takeStrings ss (ma(s := ma s - 1)))"

definition SameStrings :: "gostring list \<Rightarrow> gostring list \<Rightarrow> bool" where
  "SameStrings a b =
     (if length a \<noteq> length b then False else takeStrings b (countStrings a (\<lambda>_. 0)))"

lemma countStrings_count: "countStrings ss ma s = ma s + int (count (mset ss) s)"
  by (induction ss arbitrary: ma) auto

lemma takeStrings_subset:
  "takeStrings ss (\<lambda>s. int (count M s)) \<longleftrightarrow> mset ss \<subseteq># M"
proof (induction ss arbitrary: M)
  case (Cons s ss)
  show ?case
  proof (cases "s \<in># M")
    case True
    then have "(\<lambda>t. int (count M t))(s := int (count M s) - 1) = (\<lambda>t. int (count (M - {#s#}) t))"
      by (auto simp: fun_eq_iff of_nat_diff Suc_le_eq count_greater_zero_iff)
    with Cons.IH [of "M - {#s#}"] True show ?thesis
      by (simp add: insert_subset_eq_iff count_eq_zero_iff)
  next
    case False
    then show ?thesis
      by (auto simp: count_eq_zero_iff dest: mset_subset_eqD)
  qed
qed simp

section \<open>Port ranges\<close>

record PortRange =
  pr_Min :: int
  pr_Max :: int

definition Contains :: "PortRange \<Rightarrow> int \<Rightarrow> bool" where
  "Contains r p \<longleftrightarrow> pr_Min r \<le> p \<and> p \<le> pr_Max r"

datatype cfg_error =
    ReadFileError gostring
  | YamlError gostring gostring
  | BadPortRange gostring
  | BadPort gostring
  | EmptyPortList
  | BadBindPort
  | EmptyToken
  | AllowPorts cfg_error
  | BadHeartbeat
  | BadTLSPair
  | EmptyServerAddr
  | EmptyClientIDError
  | BadReconnect
  | EmptyProxyName
  | UnsupportedProxyType gostring gostring
  | BadLocalAddress gostring gostring
  | DuplicateProxyName gostring

text \<open>The body of the loop over the comma-separated parts; \<open>Inr None\<close> is \<^verbatim>\<open>continue\<close>.\<close>

definition parsePart :: "gostring \<Rightarrow> cfg_error + PortRange option" where
  "parsePart part0 =
     (let part = TrimSpace part0 in
      if part = [] then Inr None
      else if ContainsByte part (CHR ''-'') then
        (let segs = SplitByte2 part (CHR ''-'') in
         case (Atoi (TrimSpace (segs ! 0)), Atoi (TrimSpace (segs ! 1))) of
           (Some mn, Some mx) \<Rightarrow>
             if mn \<le> 0 \<or> mx < mn \<or> 65535 < mx then Inl (BadPortRange part)
             else Inr (Some \<lparr>pr_Min = mn, pr_Max = mx\<rparr>)
         | _ \<Rightarrow> Inl (BadPortRange part))
      else
        (case Atoi part of
           None \<Rightarrow> Inl (BadPort part)
         | Some p \<Rightarrow> if p \<le> 0 \<or> 65535 < p then Inl (BadPort part)
                     else Inr (Some \<lparr>pr_Min = p, pr_Max = p\<rparr>)))"

fun parseParts :: "gostring list \<Rightarrow> PortRange list \<Rightarrow> cfg_error + PortRange list" where
  "parseParts [] out = (if length out = 0 then Inl EmptyPortList else Inr out)"
| "parseParts (part # parts) out =
     (case parsePart part of
        Inl e \<Rightarrow> Inl e
      | Inr None \<Rightarrow> parseParts parts out
      | Inr (Some r) \<Rightarrow> parseParts parts (out @ [r]))"

definition ParsePortRanges :: "gostring \<Rightarrow> cfg_error + PortRange list" where
  "ParsePortRanges s = parseParts (SplitByte s (CHR '','')) []"

definition valid_range :: "PortRange \<Rightarrow> bool" where
  "valid_range r \<longleftrightarrow> 0 < pr_Min r \<and> pr_Min r \<le> pr_Max r \<and> pr_Max r \<le> 65535"

lemma parsePart_valid: "parsePart p = Inr (Some r) \<Longrightarrow> valid_range r"
  unfolding parsePart_def Let_def
  by (simp split: if_split_asm option.split_asm) (simp_all add: valid_range_def, auto)

lemma parseParts_valid:
  "parseParts ps out = Inr rs \<Longrightarrow> \<forall>r \<in> set out. valid_range r \<Longrightarrow>
     rs \<noteq> [] \<and> (\<forall>r \<in> set rs. valid_range r)"
proof (induction ps arbitrary: out)
  case Nil
  then show ?case by (auto split: if_splits)
next
  case (Cons p ps)
  from Cons.prems(1) obtain x where x: "parsePart p = Inr x" by (cases "parsePart p") auto
  show ?case
  proof (cases x)
    case None
    with Cons x show ?thesis by simp
  next
    case (Some r)
    with Cons.prems x have "parseParts ps (out @ [r]) = Inr rs" by simp
    moreover from Cons.prems(2) x Some have "\<forall>q \<in> set (out @ [r]). valid_range q"
      by (auto dest: parsePart_valid)
    ultimately show ?thesis by (rule Cons.IH)
  qed
qed

text \<open>The way an operator writes a range down.\<close>

definition showRange :: "PortRange \<Rightarrow> gostring" where
  "showRange r = (if pr_Min r = pr_Max r then Itoa (pr_Min r)
                  else Itoa (pr_Min r) @ ''-'' @ Itoa (pr_Max r))"

fun showRanges :: "PortRange list \<Rightarrow> gostring" where
  "showRanges [] = []"
| "showRanges [r] = showRange r"
| "showRanges (r # rs) = showRange r @ '','' @ showRanges rs"

lemma valid_range_int64: "valid_range r \<Longrightarrow> in_int64 (pr_Min r) \<and> in_int64 (pr_Max r)"
  by (simp add: valid_range_def in_int64_def)

lemma Itoa_pos_visible:
  "0 < i \<Longrightarrow> visible (hd (Itoa i)) \<and> visible (last (Itoa i)) \<and> CHR ''-'' \<notin> set (Itoa i)"
  using visible_showNat showNat_no by (simp add: Itoa_pos)

lemma parsePart_showRange:
  assumes "valid_range r"
  shows "parsePart (showRange r) = Inr (Some r)"
proof (cases "pr_Min r = pr_Max r")
  case True
  from assms have p: "0 < pr_Min r" "pr_Min r \<le> 65535" by (auto simp: valid_range_def)
  with True assms valid_range_int64 [OF assms] Itoa_pos_visible [OF p(1)] show ?thesis
    by (simp add: parsePart_def showRange_def ContainsByte_def TrimSpace_visible Atoi_Itoa)
next
  case False
  let ?a = "Itoa (pr_Min r)" and ?b = "Itoa (pr_Max r)"
  from assms have p: "0 < pr_Min r" "0 < pr_Max r" by (auto simp: valid_range_def)
  note v = Itoa_pos_visible [OF p(1)] Itoa_pos_visible [OF p(2)]
  have "TrimSpace (?a @ ''-'' @ ?b) = ?a @ ''-'' @ ?b"
    using v by (intro TrimSpace_visible) auto
  moreover have "SplitByte2 (?a @ CHR ''-'' # ?b) (CHR ''-'') = [?a, ?b]"
    using v by (intro SplitByte2_append) simp
  ultimately show ?thesis
    using False assms v valid_range_int64 [OF assms]
    by (auto simp: parsePart_def showRange_def ContainsByte_def TrimSpace_visible Atoi_Itoa
        valid_range_def)
qed

lemma showRange_no_comma: "CHR '','' \<notin> set (showRange r)"
  by (auto simp: showRange_def dest: Itoa_no [THEN notE, rotated 2])

lemma parseParts_showRanges:
  "\<forall>r \<in> set rs. valid_range r \<Longrightarrow> rs \<noteq> [] \<Longrightarrow>
     parseParts (SplitByte (showRanges rs) (CHR '','')) out = Inr (out @ rs)"
proof (induction rs arbitrary: out rule: showRanges.induct)
  case (2 r)
  then show ?case by (simp add: SplitByte_none showRange_no_comma parsePart_showRange)
next
  case (3 r r' rs)
  have "SplitByte (showRanges (r # r' # rs)) (CHR '','') =
      showRange r # SplitByte (showRanges (r' # rs)) (CHR '','')"
    by (simp add: SplitByte_append showRange_no_comma)
  with 3 show ?case by (simp add: parsePart_showRange)
qed simp

lemma SameStrings_mset: "SameStrings a b \<longleftrightarrow> mset a = mset b"
proof -
  have c: "countStrings a (\<lambda>_. 0) = (\<lambda>s. int (count (mset a) s))"
    by (simp add: fun_eq_iff countStrings_count)
  have "length a = length b \<and> mset b \<subseteq># mset a \<longleftrightarrow> mset a = mset b"
    by (metis mset_eq_length mset_subset_size size_mset subset_mset.dual_order.refl
        subset_mset.le_imp_less_or_eq nat_neq_iff)
  then show ?thesis by (auto simp: SameStrings_def c takeStrings_subset dest: mset_eq_length)
qed

section \<open>Configuration files\<close>

text \<open>Durations are nanoseconds, as in \<^verbatim>\<open>time.Duration\<close>.\<close>

definition Second :: int where "Second = 1000000000"
definition Minute :: int where "Minute = 60 * Second"

record ServerTLS =
  tls_Cert :: gostring
  tls_Key :: gostring

record Dashboard =
  dash_Addr :: gostring
  dash_User :: gostring
  dash_Password :: gostring

record Heartbeat =
  hb_Interval :: int
  hb_Timeout :: int

record ServerCfg =
  sc_BindAddr :: gostring
  sc_BindPort :: int
  sc_TLS :: ServerTLS
  sc_Token :: gostring
  sc_AllowPorts :: gostring
  sc_VhostHTTPPort :: int
  sc_VhostDomain :: gostring
  sc_Dashboard :: Dashboard
  sc_Heartbeat :: Heartbeat

definition defaultServer :: ServerCfg where
  "defaultServer =
     \<lparr>sc_BindAddr = ''0.0.0.0'', sc_BindPort = 17200,
      sc_TLS = \<lparr>tls_Cert = [], tls_Key = []\<rparr>, sc_Token = [],
      sc_AllowPorts = ''20000-30000'', sc_VhostHTTPPort = 0, sc_VhostDomain = [],
      sc_Dashboard = \<lparr>dash_Addr = [], dash_User = [], dash_Password = []\<rparr>,
      sc_Heartbeat = \<lparr>hb_Interval = 15 * Second, hb_Timeout = 90 * Second\<rparr>\<rparr>"

definition loadYAML ::
    "(gostring \<Rightarrow> gostring + gostring) \<Rightarrow> (gostring \<Rightarrow> 'c \<Rightarrow> gostring + 'c) \<Rightarrow> gostring \<Rightarrow> 'c \<Rightarrow>
     cfg_error + 'c" where
  "loadYAML readFile yaml path out =
     (case readFile path of
        Inl e \<Rightarrow> Inl (ReadFileError e)
      | Inr data \<Rightarrow>
          (case yaml data out of Inl e \<Rightarrow> Inl (YamlError path e) | Inr c \<Rightarrow> Inr c))"

definition LoadServer ::
    "(gostring \<Rightarrow> gostring + gostring) \<Rightarrow> (gostring \<Rightarrow> ServerCfg \<Rightarrow> gostring + ServerCfg) \<Rightarrow>
     gostring \<Rightarrow> cfg_error + ServerCfg" where
  "LoadServer readFile yaml path =
     (case loadYAML readFile yaml path defaultServer of
        Inl e \<Rightarrow> Inl e
      | Inr s \<Rightarrow>
          if sc_BindPort s \<le> 0 \<or> 65535 < sc_BindPort s then Inl BadBindPort
          else if sc_Token s = [] then Inl EmptyToken
          else (case ParsePortRanges (sc_AllowPorts s) of
                  Inl e \<Rightarrow> Inl (AllowPorts e)
                | Inr _ \<Rightarrow>
                    if hb_Timeout (sc_Heartbeat s) \<le> 0 \<or> hb_Interval (sc_Heartbeat s) \<le> 0
                    then Inl BadHeartbeat
                    else if (tls_Cert (sc_TLS s) = []) \<noteq> (tls_Key (sc_TLS s) = [])
                    then Inl BadTLSPair
                    else Inr s))"

text \<open>What the rest of the server relies on.\<close>

definition server_cfg_ok :: "ServerCfg \<Rightarrow> bool" where
  "server_cfg_ok s \<longleftrightarrow>
     0 < sc_BindPort s \<and> sc_BindPort s \<le> 65535 \<and> sc_Token s \<noteq> [] \<and>
     (\<exists>rs. ParsePortRanges (sc_AllowPorts s) = Inr rs) \<and>
     0 < hb_Timeout (sc_Heartbeat s) \<and> 0 < hb_Interval (sc_Heartbeat s) \<and>
     (tls_Cert (sc_TLS s) = [] \<longleftrightarrow> tls_Key (sc_TLS s) = [])"

record ClientTLS =
  ct_Enabled :: bool
  ct_SkipVerify :: bool
  ct_ServerFingerprint :: gostring

record Reconnect =
  rc_Base :: int
  rc_Max :: int

record ProxyCfg =
  pc_Name :: gostring
  pc_Type :: gostring
  pc_Local :: gostring
  pc_RemotePort :: int
  pc_Subdomain :: gostring
  pc_CustomDomains :: "gostring list"

record ClientCfg =
  cc_ServerAddr :: gostring
  cc_ClientID :: gostring
  cc_Token :: gostring
  cc_TLS :: ClientTLS
  cc_Heartbeat :: Heartbeat
  cc_Reconnect :: Reconnect
  cc_Proxies :: "ProxyCfg list"

definition defaultClient :: ClientCfg where
  "defaultClient =
     \<lparr>cc_ServerAddr = [], cc_ClientID = [], cc_Token = [],
      cc_TLS = \<lparr>ct_Enabled = True, ct_SkipVerify = False, ct_ServerFingerprint = []\<rparr>,
      cc_Heartbeat = \<lparr>hb_Interval = 15 * Second, hb_Timeout = 90 * Second\<rparr>,
      cc_Reconnect = \<lparr>rc_Base = Second, rc_Max = 60 * Second\<rparr>,
      cc_Proxies = []\<rparr>"

text \<open>The loop over the proxies, with the set of names seen so far; \<open>None\<close> means it ran to its end.\<close>

fun checkProxies :: "ProxyCfg list \<Rightarrow> gostring set \<Rightarrow> cfg_error option" where
  "checkProxies [] seen = None"
| "checkProxies (p # ps) seen =
     (if pc_Name p = [] then Some EmptyProxyName
      else if pc_Type p \<noteq> ''tcp'' \<and> pc_Type p \<noteq> ''http''
      then Some (UnsupportedProxyType (pc_Name p) (pc_Type p))
      else if SplitHostPort (pc_Local p) = None
      then Some (BadLocalAddress (pc_Name p) (pc_Local p))
      else if pc_Name p \<in> seen then Some (DuplicateProxyName (pc_Name p))
      else checkProxies ps (insert (pc_Name p) seen))"

definition LoadClient ::
    "(gostring \<Rightarrow> gostring + gostring) \<Rightarrow> (gostring \<Rightarrow> ClientCfg \<Rightarrow> gostring + ClientCfg) \<Rightarrow>
     gostring \<Rightarrow> cfg_error + ClientCfg" where
  "LoadClient readFile yaml path =
     (case loadYAML readFile yaml path defaultClient of
        Inl e \<Rightarrow> Inl e
      | Inr c \<Rightarrow>
          if cc_ServerAddr c = [] then Inl EmptyServerAddr
          else if cc_ClientID c = [] then Inl EmptyClientIDError
          else if cc_Token c = [] then Inl EmptyToken
          else if hb_Timeout (cc_Heartbeat c) \<le> 0 \<or> hb_Interval (cc_Heartbeat c) \<le> 0
          then Inl BadHeartbeat
          else if rc_Base (cc_Reconnect c) \<le> 0 \<or> rc_Max (cc_Reconnect c) \<le> 0 \<or>
                  rc_Max (cc_Reconnect c) < rc_Base (cc_Reconnect c)
          then Inl BadReconnect
          else (case checkProxies (cc_Proxies c) {} of Some e \<Rightarrow> Inl e | None \<Rightarrow> Inr c))"

definition proxy_cfg_ok :: "ProxyCfg \<Rightarrow> bool" where
  "proxy_cfg_ok p \<longleftrightarrow>
     pc_Name p \<noteq> [] \<and> (pc_Type p = ''tcp'' \<or> pc_Type p = ''http'') \<and>
     SplitHostPort (pc_Local p) \<noteq> None"

definition client_cfg_ok :: "ClientCfg \<Rightarrow> bool" where
  "client_cfg_ok c \<longleftrightarrow>
     cc_ServerAddr c \<noteq> [] \<and> cc_ClientID c \<noteq> [] \<and> cc_Token c \<noteq> [] \<and>
     0 < hb_Timeout (cc_Heartbeat c) \<and> 0 < hb_Interval (cc_Heartbeat c) \<and>
     0 < rc_Base (cc_Reconnect c) \<and> rc_Base (cc_Reconnect c) \<le> rc_Max (cc_Reconnect c) \<and>
     (\<forall>p \<in> set (cc_Proxies c). proxy_cfg_ok p) \<and> distinct (map pc_Name (cc_Proxies c))"

lemma checkProxies_None:
  "checkProxies ps seen = None \<longleftrightarrow>
     (\<forall>p \<in> set ps. proxy_cfg_ok p) \<and> distinct (map pc_Name ps) \<and> pc_Name ` set ps \<inter> seen = {}"
  by (induction ps arbitrary: seen) (auto simp: proxy_cfg_ok_def)

lemma LoadServer_Inr_iff:
  "LoadServer readFile yaml path = Inr s \<longleftrightarrow>
     loadYAML readFile yaml path defaultServer = Inr s \<and> server_cfg_ok s"
  by (auto simp: LoadServer_def server_cfg_ok_def not_le split: sum.splits if_splits)

lemma LoadClient_Inr_iff:
  "LoadClient readFile yaml path = Inr c \<longleftrightarrow>
     loadYAML readFile yaml path defaultClient = Inr c \<and> client_cfg_ok c"
proof (cases "loadYAML readFile yaml path defaultClient")
  case (Inr d)
  show ?thesis
    by (cases "checkProxies (cc_Proxies d) {}")
      (use checkProxies_None [of "cc_Proxies d" "{}"] Inr in
        \<open>auto simp: LoadClient_def client_cfg_ok_def\<close>)
qed (simp add: LoadClient_def)

end
