(* ===== verification/Sha256.thy ===== *)
theory Sha256
  imports Proto
begin

text \<open>
  SHA-256 and HMAC-SHA-256 on byte lists, as Go's \<^verbatim>\<open>crypto/sha256\<close> and
  \<^verbatim>\<open>crypto/hmac\<close> compute them (FIPS 180-4, RFC 2104), on 32-bit words that wrap around.
  The development uses them for the login signature and the certificate fingerprint; the lemmas
  give the lengths of the digests; \<open>Sha256_Vector\<close> evaluates a published test vector.
\<close>

type_synonym w32 = "32 word"

definition sha_k :: "w32 list" where
  "sha_k =
     [1116352408, 1899447441, 3049323471, 3921009573, 961987163, 1508970993,
      2453635748, 2870763221, 3624381080, 310598401, 607225278, 1426881987,
      1925078388, 2162078206, 2614888103, 3248222580, 3835390401, 4022224774,
      264347078, 604807628, 770255983, 1249150122, 1555081692, 1996064986,
      2554220882, 2821834349, 2952996808, 3210313671, 3336571891, 3584528711,
      113926993, 338241895, 666307205, 773529912, 1294757372, 1396182291,
      1695183700, 1986661051, 2177026350, 2456956037, 2730485921, 2820302411,
      3259730800, 3345764771, 3516065817, 3600352804, 4094571909, 275423344,
      430227734, 506948616, 659060556, 883997877, 958139571, 1322822218,
      1537002063, 1747873779, 1955562222, 2024104815, 2227730452, 2361852424,
      2428436474, 2756734187, 3204031479, 3329325298]"

definition sha_h0 :: "w32 list" where
  "sha_h0 =
     [1779033703, 3144134277, 1013904242, 2773480762, 1359893119, 2600822924, 528734635, 1541459225]"

definition rotr :: "nat \<Rightarrow> w32 \<Rightarrow> w32" where
  "rotr n w = or (drop_bit n w) (push_bit (32 - n) w)"

definition small_sigma0 :: "w32 \<Rightarrow> w32" where
  "small_sigma0 w = xor (rotr 7 w) (xor (rotr 18 w) (drop_bit 3 w))"

definition small_sigma1 :: "w32 \<Rightarrow> w32" where
  "small_sigma1 w = xor (rotr 17 w) (xor (rotr 19 w) (drop_bit 10 w))"

definition big_sigma0 :: "w32 \<Rightarrow> w32" where
  "big_sigma0 w = xor (rotr 2 w) (xor (rotr 13 w) (rotr 22 w))"

definition big_sigma1 :: "w32 \<Rightarrow> w32" where
  "big_sigma1 w = xor (rotr 6 w) (xor (rotr 11 w) (rotr 25 w))"

definition sha_ch :: "w32 \<Rightarrow> w32 \<Rightarrow> w32 \<Rightarrow> w32" where
  "sha_ch x y z = xor (and x y) (and (not x) z)"

definition sha_maj :: "w32 \<Rightarrow> w32 \<Rightarrow> w32 \<Rightarrow> w32" where
  "sha_maj x y z = xor (and x y) (xor (and x z) (and y z))"

text \<open>The message schedule is kept newest word first while it is extended.\<close>

fun extend_schedule :: "nat \<Rightarrow> w32 list \<Rightarrow> w32 list" where
  "extend_schedule 0 ws = ws"
| "extend_schedule (Suc n) ws =
     extend_schedule n
       ((small_sigma1 (ws ! 1) + ws ! 6 + small_sigma0 (ws ! 14) + ws ! 15) # ws)"

fun block_words :: "bytes \<Rightarrow> w32 list" where
  "block_words (a # b # c # d # bs) = Uint32 [a, b, c, d] # block_words bs"
| "block_words _ = []"

definition schedule :: "bytes \<Rightarrow> w32 list" where
  "schedule blk = rev (extend_schedule 48 (rev (block_words blk)))"

fun sha_rounds :: "(w32 \<times> w32) list \<Rightarrow> w32 list \<Rightarrow> w32 list" where
  "sha_rounds ((k, w) # kws) [a, b, c, d, e, f, g, h] =
     (let t1 = h + big_sigma1 e + sha_ch e f g + k + w;
          t2 = big_sigma0 a + sha_maj a b c
      in sha_rounds kws [t1 + t2, a, b, c, d + t1, e, f, g])"
| "sha_rounds _ st = st"

definition sha_block :: "w32 list \<Rightarrow> bytes \<Rightarrow> w32 list" where
  "sha_block h blk = map2 (+) h (sha_rounds (zip sha_k (schedule blk)) h)"

function sha_blocks :: "w32 list \<Rightarrow> bytes \<Rightarrow> w32 list" where
  "sha_blocks h msg =
     (if length msg < 64 then h else sha_blocks (sha_block h (take 64 msg)) (drop 64 msg))"
  by pat_completeness auto
termination
  by (relation "measure (\<lambda>(h, msg). length msg)") auto

declare sha_blocks.simps [simp del]

definition sha_pad :: "bytes \<Rightarrow> bytes" where
  "sha_pad msg =
     (let len = length msg; bits = (word_of_nat (8 * len) :: 64 word) in
      msg @ [0x80] @ replicate ((119 - len mod 64) mod 64) 0 @
      PutUint32 (ucast (drop_bit 32 bits)) @ PutUint32 (ucast bits))"

definition sha256 :: "bytes \<Rightarrow> bytes" where
  "sha256 msg = concat (map PutUint32 (sha_blocks sha_h0 (sha_pad msg)))"

definition hmac_key :: "bytes \<Rightarrow> bytes" where
  "hmac_key key = (let k = (if 64 < length key then sha256 key else key)
                   in k @ replicate (64 - length k) 0)"

definition hmac_sha256 :: "bytes \<Rightarrow> bytes \<Rightarrow> bytes" where
  "hmac_sha256 key msg =
     sha256 (map (xor 0x5c) (hmac_key key) @ sha256 (map (xor 0x36) (hmac_key key) @ msg))"

lemma sha_rounds_length: "length (sha_rounds kws st) = length st"
  by (induction kws st rule: sha_rounds.induct) (auto simp: Let_def)

lemma sha_blocks_length: "length h = 8 \<Longrightarrow> length (sha_blocks h msg) = 8"
proof (induction h msg rule: sha_blocks.induct)
  case (1 h msg)
  then show ?case
    by (subst sha_blocks.simps) (auto simp: sha_block_def sha_rounds_length)
qed

lemma sha_blocks_one: "length msg = 64 \<Longrightarrow> sha_blocks h msg = sha_block h msg"
  by (simp add: sha_blocks.simps [of h msg] sha_blocks.simps [of _ "[]"])

lemma concat_length_const: "(\<And>x. length (f x) = n) \<Longrightarrow> length (concat (map f xs)) = n * length xs"
  by (induction xs) auto

lemma sha256_length [simp]: "length (sha256 msg) = 32"
  unfolding sha256_def
  by (subst concat_length_const [where n = 4]) (simp_all add: sha_blocks_length sha_h0_def)

lemma hmac_sha256_length [simp]: "length (hmac_sha256 key msg) = 32"
  by (simp add: hmac_sha256_def)

text \<open>The padded message is a whole number of blocks, so no byte of it is left out.\<close>

lemma sha_pad_blocks: "length (sha_pad msg) mod 64 = 0"
proof -
  define m q where "m = length msg mod 64" and "q = length msg div 64"
  have len: "length msg = 64 * q + m" by (simp add: m_def q_def)
  have "m < 64" by (simp add: m_def)
  then consider "m \<le> 55" | "55 < m" "m < 64" by linarith
  then have "\<exists>k. m + 9 + (119 - m) mod 64 = 64 * k"
  proof cases
    case 1
    then have "(119 - m) mod 64 = 55 - m" by (simp add: mod_if)
    with 1 show ?thesis by (intro exI [of _ 1]) simp
  next
    case 2
    then show ?thesis by (intro exI [of _ 2]) simp
  qed
  then obtain k where "m + 9 + (119 - m) mod 64 = 64 * k" by blast
  then have "length (sha_pad msg) = 64 * (q + k)"
    unfolding sha_pad_def Let_def m_def [symmetric] by (simp add: len)
  then show ?thesis by simp
qed

text \<open>A run of rounds can be cut anywhere.\<close>

lemma sha_rounds_append:
  "length st = 8 \<Longrightarrow> sha_rounds (xs @ ys) st = sha_rounds ys (sha_rounds xs st)"
  by (induction xs st rule: sha_rounds.induct) (simp_all add: Let_def)

end
