(* ===== verification/Pinning.thy ===== *)
theory Pinning
  imports Config Sha256
begin

text \<open>
  \<^verbatim>\<open>wrapTLS\<close> and \<^verbatim>\<open>verifyFingerprint\<close> of \<^verbatim>\<open>internal/client/client.go\<close>: how the client
  decides which server it talks to. The TLS handshake is a parameter: given the name to check and
  whether checking is skipped, it fails or yields the certificates the peer has shown.
\<close>

section \<open>Fingerprints\<close>

datatype tls_error =
    BadServerAddr gostring
  | HandshakeFailed gostring
  | BadFingerprint gostring
  | NoCertificate
  | FingerprintMismatch gostring

definition verifyFingerprint ::
    "(gostring \<Rightarrow> gostring) \<Rightarrow> bytes list \<Rightarrow> gostring \<Rightarrow> tls_error option" where
  "verifyFingerprint ucase certs want0 =
     (let want1 = TrimPrefix (ToLower ucase (TrimSpace want0)) ''sha256:'';
          want = RemoveByte want1 (CHR '':'')
      in if length want \<noteq> 64 then Some (BadFingerprint want)
         else case certs of
                [] \<Rightarrow> Some NoCertificate
              | cert # _ \<Rightarrow>
                  (let got = hexEncode (sha256 cert) in
                   if got \<noteq> want then Some (FingerprintMismatch got) else None))"

record tls_config =
  tc_ServerName :: gostring
  tc_InsecureSkipVerify :: bool

text \<open>
  \<^verbatim>\<open>wrapTLS\<close>: the result is an error or the certificates of the connection; the second
  component tells whether the TLS connection has been closed.
\<close>

definition wrapTLS ::
    "(gostring \<Rightarrow> gostring) \<Rightarrow> (tls_config \<Rightarrow> gostring + bytes list) \<Rightarrow> ClientCfg \<Rightarrow>
     (tls_error + bytes list) \<times> bool" where
  "wrapTLS ucase handshake cfg =
     (case SplitHostPort (cc_ServerAddr cfg) of
        None \<Rightarrow> (Inl (BadServerAddr (cc_ServerAddr cfg)), False)
      | Some (host, _) \<Rightarrow>
          let fp = ct_ServerFingerprint (cc_TLS cfg);
              tcfg = \<lparr>tc_ServerName = host,
                      tc_InsecureSkipVerify = (ct_SkipVerify (cc_TLS cfg) \<or> fp \<noteq> [])\<rparr>
          in case handshake tcfg of
               Inl e \<Rightarrow> (Inl (HandshakeFailed e), False)
             | Inr certs \<Rightarrow>
                 if fp \<noteq> [] then
                   (case verifyFingerprint ucase certs fp of
                      Some e \<Rightarrow> (Inl e, True) | None \<Rightarrow> (Inr certs, False))
                 else (Inr certs, False))"

section \<open>The alphabet of a fingerprint\<close>

definition hex_char :: "char \<Rightarrow> bool" where
  "hex_char c \<longleftrightarrow> (let n = (of_char c :: nat) in 48 \<le> n \<and> n \<le> 57 \<or> 97 \<le> n \<and> n \<le> 102)"

lemma code_lower [simp]:
  "(of_char (lower_ascii c) :: nat) = (if 65 \<le> (of_char c :: nat) \<and> (of_char c :: nat) \<le> 90
     then of_char c + 32 else of_char c)"
  by (simp add: lower_ascii_def Let_def)

lemma char_eq_code: "c = d \<longleftrightarrow> (of_char c :: nat) = of_char d"
  by simp

lemma hex_digit_char: "n < 16 \<Longrightarrow> hex_char (hex_digit n)"
  by (simp add: hex_char_def hex_digit_of Let_def)

lemma hexEncode_chars: "c \<in> set (hexEncode bs) \<Longrightarrow> hex_char c"
proof -
  have "unat w div 16 < 16" for w :: byte
  proof -
    have "unat w < 2 ^ LENGTH(8)" by (rule unsigned_less)
    then show ?thesis by (simp add: less_mult_imp_div_less)
  qed
  moreover assume "c \<in> set (hexEncode bs)"
  ultimately show ?thesis
    by (auto simp: hexEncode_def hex_byte_def intro: hex_digit_char)
qed

lemma hex_char_props:
  assumes "hex_char c"
  shows "visible c" "c \<noteq> CHR '':''" "lower_ascii c = c" "(of_char c :: nat) < 128" "hex_char (lower_ascii c)"
proof -
  from assms have n: "48 \<le> (of_char c :: nat) \<and> (of_char c :: nat) \<le> 57 \<or>
      97 \<le> (of_char c :: nat) \<and> (of_char c :: nat) \<le> 102"
    by (simp add: hex_char_def Let_def)
  then show "visible c" "(of_char c :: nat) < 128" by (auto simp: visible_def)
  from n show "c \<noteq> CHR '':''" by auto
  from n have "\<not> (65 \<le> (of_char c :: nat) \<and> (of_char c :: nat) \<le> 90)" by auto
  then show "lower_ascii c = c" unfolding lower_ascii_def Let_def by (rule if_not_P)
  with assms show "hex_char (lower_ascii c)" by simp
qed

text \<open>
  A way to write a digest down: hexadecimal digits in either case with colons anywhere, or the same
  behind the prefix \<^verbatim>\<open>sha256:\<close> in any case, with ASCII white space around.
\<close>

definition hex_text :: "gostring \<Rightarrow> bool" where
  "hex_text s \<longleftrightarrow> list_all (\<lambda>c. hex_char (lower_ascii c) \<or> c = CHR '':'') s"

definition digest_of_text :: "gostring \<Rightarrow> gostring" where
  "digest_of_text s = filter (\<lambda>c. c \<noteq> CHR '':'') (map lower_ascii s)"

definition sha256_prefix :: "gostring \<Rightarrow> bool" where
  "sha256_prefix p \<longleftrightarrow> p = [] \<or> map lower_ascii p = ''sha256:'' \<and> is_ascii p"

lemma trimLeft_spaces: "list_all ascii_space pre \<Longrightarrow> trimLeft (pre @ s) = trimLeft s"
  by (induction pre) (simp_all add: trim_ascii)

lemma trimRight_spaces: "list_all ascii_space post \<Longrightarrow> trimRight (s @ post) = trimRight s"
proof (induction post rule: rev_induct)
  case (snoc c post)
  then show ?case using trim_ascii(2) [of c "s @ post"] by simp
qed simp

lemma TrimSpace_around:
  assumes "list_all ascii_space pre" "list_all ascii_space post" "visible (hd s)" "visible (last s)" "s \<noteq> []"
  shows "TrimSpace (pre @ s @ post) = s"
  using assms
  by (simp add: TrimSpace_def trimLeft_spaces trimRight_spaces trim_visible)

lemma lower_char_cases:
  assumes "hex_char (lower_ascii c) \<or> c = CHR '':''"
  shows "visible c \<and> (of_char c :: nat) < 128"
  using assms by (auto simp: hex_char_def visible_def Let_def split: if_splits)

lemma sha256_prefix_chars:
  assumes "sha256_prefix p" "c \<in> set p"
  shows "visible c"
proof -
  from assms have "lower_ascii c \<in> set (map lower_ascii p)" "map lower_ascii p = ''sha256:''"
    by (auto simp: sha256_prefix_def)
  then have "lower_ascii c \<in> set ''sha256:''" by simp
  then have "(of_char (lower_ascii c) :: nat) \<in> of_char ` set ''sha256:''" by (rule imageI)
  then show ?thesis by (auto simp: visible_def split: if_splits)
qed

lemma hex_text_no_prefix:
  assumes "hex_text s"
  shows "\<not> HasPrefix (map lower_ascii s) ''sha256:''"
proof (cases s)
  case (Cons c cs)
  with assms have "hex_char (lower_ascii c) \<or> c = CHR '':''" by (simp add: hex_text_def)
  then have "(of_char (lower_ascii c) :: nat) \<noteq> 115"
    by (auto simp: hex_char_def Let_def split: if_splits)
  then have "lower_ascii c \<noteq> CHR ''s''" unfolding char_eq_code by simp
  with Cons show ?thesis by (simp add: HasPrefix_def)
qed (simp add: HasPrefix_def)

text \<open>What the normalisation makes of such a text.\<close>

lemma fingerprint_normal:
  assumes sp: "list_all ascii_space pre" "list_all ascii_space post"
    and p: "sha256_prefix p" and s: "hex_text s" "p @ s \<noteq> []"
  shows "RemoveByte (TrimPrefix (ToLower u (TrimSpace (pre @ p @ s @ post))) ''sha256:'') (CHR '':'') =
    digest_of_text s"
proof -
  have vis: "visible c" if "c \<in> set (p @ s)" for c
  proof (cases "c \<in> set p")
    case False
    with that s(1) have "hex_char (lower_ascii c) \<or> c = CHR '':''"
      unfolding hex_text_def list_all_iff by simp
    then show ?thesis using lower_char_cases by blast
  qed (rule sha256_prefix_chars [OF p])
  have asc: "is_ascii (p @ s)"
  proof -
    have "is_ascii p" using p by (auto simp: sha256_prefix_def is_ascii_def)
    moreover have "is_ascii s"
      unfolding is_ascii_def list_all_iff
    proof
      fix c assume "c \<in> set s"
      with s(1) have "hex_char (lower_ascii c) \<or> c = CHR '':''"
        unfolding hex_text_def list_all_iff by blast
      then show "(of_char c :: nat) < 128" using lower_char_cases by blast
    qed
    ultimately show ?thesis by (simp add: is_ascii_def)
  qed
  have "visible (hd (p @ s))" "visible (last (p @ s))"
    using vis [OF hd_in_set [OF s(2)]] vis [OF last_in_set [OF s(2)]] by simp_all
  then have "TrimSpace (pre @ (p @ s) @ post) = p @ s"
    by (intro TrimSpace_around sp) (use s in simp_all)
  then have "ToLower u (TrimSpace (pre @ p @ s @ post)) = map lower_ascii p @ map lower_ascii s"
    using asc by (simp add: ToLower_def)
  moreover have "TrimPrefix (map lower_ascii p @ map lower_ascii s) ''sha256:'' = map lower_ascii s"
    using p hex_text_no_prefix [OF s(1)]
    by (auto simp: sha256_prefix_def TrimPrefix_def HasPrefix_def)
  ultimately show ?thesis by (simp add: RemoveByte_def digest_of_text_def)
qed

text \<open>The three spellings of a digest: bare, upper case, and separated by colons.\<close>

definition upper_ascii :: "char \<Rightarrow> char" where
  "upper_ascii c = (let n = (of_char c :: nat) in if 97 \<le> n \<and> n \<le> 122 then char_of (n - 32) else c)"

fun colon_pairs :: "gostring \<Rightarrow> gostring" where
  "colon_pairs (a # b # c # cs) = a # b # CHR '':'' # colon_pairs (c # cs)"
| "colon_pairs s = s"

lemma lower_upper:
  assumes "hex_char c"
  shows "lower_ascii (upper_ascii c) = c" "upper_ascii c \<noteq> CHR '':''"
proof -
  from assms have n: "48 \<le> (of_char c :: nat) \<and> (of_char c :: nat) \<le> 57 \<or>
      97 \<le> (of_char c :: nat) \<and> (of_char c :: nat) \<le> 102"
    by (simp add: hex_char_def Let_def)
  then have u: "(of_char (upper_ascii c) :: nat) =
      (if 97 \<le> (of_char c :: nat) then of_char c - 32 else of_char c)"
    by (auto simp: upper_ascii_def Let_def)
  with n have "(of_char (lower_ascii (upper_ascii c)) :: nat) = of_char c" by auto
  then show "lower_ascii (upper_ascii c) = c" by (simp only: of_char_eq_iff)
  from u n have "(of_char (upper_ascii c) :: nat) \<noteq> 58" by auto
  then show "upper_ascii c \<noteq> CHR '':''" by auto
qed

lemma digest_bare:
  "list_all hex_char s \<Longrightarrow> hex_text s \<and> digest_of_text s = s"
  by (induction s) (auto simp: hex_text_def digest_of_text_def hex_char_props)

lemma digest_upper:
  "list_all hex_char s \<Longrightarrow> hex_text (map upper_ascii s) \<and> digest_of_text (map upper_ascii s) = s"
  by (induction s) (auto simp: hex_text_def digest_of_text_def lower_upper hex_char_props)

lemma lower_colon: "lower_ascii c = CHR '':'' \<longleftrightarrow> c = CHR '':''"
  unfolding char_eq_code code_lower by auto

lemma digest_colons:
  "hex_text (colon_pairs s) = hex_text s" "digest_of_text (colon_pairs s) = digest_of_text s"
  by (induction s rule: colon_pairs.induct)
    (auto simp: hex_text_def digest_of_text_def lower_colon)

lemma hexEncode_hex: "list_all hex_char (hexEncode bs)"
  using hexEncode_chars by (auto simp: list_all_iff)

section \<open>Acceptance\<close>

text \<open>Whatever the text: an accepted certificate has the digest the normalised text names.\<close>

lemma verifyFingerprint_sound:
  "verifyFingerprint u certs want = None \<Longrightarrow>
     certs \<noteq> [] \<and> hexEncode (sha256 (hd certs)) =
       RemoveByte (TrimPrefix (ToLower u (TrimSpace want)) ''sha256:'') (CHR '':'')"
  by (auto simp: verifyFingerprint_def Let_def split: if_splits list.splits)

lemma verifyFingerprint_iff:
  assumes sp: "list_all ascii_space pre" "list_all ascii_space post"
    and p: "sha256_prefix p" and s: "hex_text s"
  shows "verifyFingerprint u certs (pre @ p @ s @ post) = None \<longleftrightarrow>
    certs \<noteq> [] \<and> digest_of_text s = hexEncode (sha256 (hd certs))"
proof (cases "p @ s = []")
  case True
  then have s0: "digest_of_text s = []" by (simp add: digest_of_text_def)
  have "hexEncode (sha256 c) \<noteq> []" for c using hexEncode_length [of "sha256 c"] by force
  moreover have "trimRight (trimLeft (pre @ post)) = []"
    using sp trimLeft_spaces [of "pre @ post" "[]"] by simp
  ultimately show ?thesis
    using True s0 by (simp add: verifyFingerprint_def Let_def TrimSpace_def ToLower_def is_ascii_def
        TrimPrefix_def HasPrefix_def RemoveByte_def) metis
next
  case False
  note n = fingerprint_normal [OF sp p s False, of u]
  have l: "length (hexEncode (sha256 c)) = 64" for c by simp
  show ?thesis
    unfolding verifyFingerprint_def Let_def n
    by (cases certs) (use l in \<open>auto simp del: hexEncode_length dest: arg_cong [of _ _ length]\<close>)
qed

end
