(* ===== verification/Auth.thy ===== *)
theory Auth
  imports Sha256 Config
begin

text \<open>
  \<^verbatim>\<open>internal/auth/auth.go\<close>: the login signature and its time window. Times are nanoseconds
  since the Unix epoch; \<^verbatim>\<open>time.Unix\<close> stores 64-bit seconds since year 1 and wraps around,
  and \<^verbatim>\<open>time.Since\<close> saturates at the ends of \<^verbatim>\<open>time.Duration\<close>.
\<close>

section \<open>Clock arithmetic\<close>

definition unixToInternal :: int where "unixToInternal = 62135596800"

definition saturate64 :: "int \<Rightarrow> int" where
  "saturate64 x = max (- (2 ^ 63)) (min (2 ^ 63 - 1) x)"

text \<open>\<^verbatim>\<open>time.Since(time.Unix(ts, 0))\<close> at the moment \<open>now\<close>.\<close>

definition SinceUnix :: "int \<Rightarrow> int \<Rightarrow> int" where
  "SinceUnix now ts =
     saturate64 ((now + unixToInternal * Second) - wrap64 (ts + unixToInternal) * Second)"

section \<open>Signature and verification\<close>

definition login_message :: "gostring \<Rightarrow> int \<Rightarrow> gostring" where
  "login_message clientID ts = clientID @ ''|'' @ Itoa ts"

definition HmacLogin :: "gostring \<Rightarrow> gostring \<Rightarrow> int \<Rightarrow> gostring" where
  "HmacLogin token clientID ts =
     hexEncode (hmac_sha256 (bytes_of_string token) (bytes_of_string (login_message clientID ts)))"

definition VerifyLogin ::
    "gostring \<Rightarrow> gostring \<Rightarrow> int \<Rightarrow> gostring \<Rightarrow> int \<Rightarrow> int \<Rightarrow> bool" where
  "VerifyLogin token clientID ts want window now =
     (if want = [] then False
      else let diff = SinceUnix now ts in
        if diff < wrap64 (- window) \<or> window < diff then False
        else HmacLogin token clientID ts = want)"

lemma HmacLogin_length [simp]: "length (HmacLogin token clientID ts) = 64"
  by (simp add: HmacLogin_def)

lemma HmacLogin_nonempty [simp]: "HmacLogin token clientID ts \<noteq> []"
  using HmacLogin_length [of token clientID ts] by force

text \<open>
  The window test is exact for every timestamp a client can send, also where
  \<^verbatim>\<open>time.Unix\<close> wraps around, as long as the server's clock is within the range of
  nanosecond Unix time (years 1970 to 2262).
\<close>

lemma window_test:
  assumes ts: "in_int64 ts" and now: "0 \<le> now" "now < 2 ^ 63" and w: "0 \<le> window" "window < 2 ^ 62"
  shows "\<not> (SinceUnix now ts < wrap64 (- window) \<or> window < SinceUnix now ts) \<longleftrightarrow>
    \<bar>now - ts * Second\<bar> \<le> window"
proof -
  have nw: "wrap64 (- window) = - window" using w by (simp add: in_int64_def)
  show ?thesis
  proof (cases "ts + unixToInternal < 2 ^ 63")
    case True
    with ts have "wrap64 (ts + unixToInternal) = ts + unixToInternal"
      by (simp add: in_int64_def unixToInternal_def)
    then have "SinceUnix now ts = saturate64 (now - ts * Second)"
      by (simp add: SinceUnix_def algebra_simps)
    then show ?thesis using w by (auto simp: nw saturate64_def)
  next
    case False
    with ts have "wrap64 (ts + unixToInternal) = ts + unixToInternal - 2 ^ 64"
      by (intro wrap64_over) (auto simp: in_int64_def unixToInternal_def)
    then have "SinceUnix now ts = saturate64 (now - ts * Second + 2 ^ 64 * Second)"
      by (simp only: SinceUnix_def) (simp add: algebra_simps)
    moreover have "2 ^ 63 - 1 \<le> now - ts * Second + 2 ^ 64 * Second"
      using ts now by (simp add: in_int64_def Second_def)
    ultimately have "SinceUnix now ts = 2 ^ 63 - 1" by (simp add: saturate64_def)
    moreover have "window < \<bar>now - ts * Second\<bar>"
      using False now w by (simp add: unixToInternal_def Second_def)
    ultimately show ?thesis using w by simp
  qed
qed

lemma VerifyLogin_iff:
  assumes "in_int64 ts" "0 \<le> now" "now < 2 ^ 63" "0 \<le> window" "window < 2 ^ 62"
  shows "VerifyLogin token clientID ts want window now \<longleftrightarrow>
    want = HmacLogin token clientID ts \<and> \<bar>now - ts * Second\<bar> \<le> window"
  using window_test [OF assms] HmacLogin_nonempty [of token clientID ts, symmetric]
  by (auto simp: VerifyLogin_def Let_def)

text \<open>The signed text determines the client and the time stamp: the last bar separates them.\<close>

lemma login_message_inj:
  "login_message c ts = login_message c' ts' \<Longrightarrow> c = c' \<and> ts = ts'"
proof -
  assume e: "login_message c ts = login_message c' ts'"
  have n: "CHR ''|'' \<notin> set (Itoa t)" for t by (rule Itoa_no) simp_all
  have "LastIndexByte (login_message d t) (CHR ''|'') = Some (length d)" for d t
    using LastIndexByte_append [OF n] by (simp add: login_message_def)
  with e have "length c = length c'" by (metis option.inject)
  with e show "c = c' \<and> ts = ts'" by (simp add: login_message_def Itoa_inj)
qed

end
