(* ===== verification/Mux.thy ===== *)
theory Mux
  imports Proto Config
begin

text \<open>
  \<^verbatim>\<open>internal/mux/mux.go\<close>: the multiplexer parameters and the two-way relay \<^verbatim>\<open>Join\<close>.
  One direction alone is \<open>copyLoop\<close>, for any reader and writer; \<open>Join\<close> is a step relation,
  because the two directions run concurrently and either one closes both connections.
\<close>

section \<open>Parameters\<close>

text \<open>The fields of smux's configuration that the program sets.\<close>

record smux_config =
  KeepAliveInterval :: int
  KeepAliveTimeout :: int

definition MuxConfig :: "'a smux_config_scheme \<Rightarrow> 'a smux_config_scheme" where
  "MuxConfig dflt = dflt\<lparr>KeepAliveInterval := 10 * Second, KeepAliveTimeout := 30 * Second\<rparr>"

section \<open>One direction\<close>

definition bufSize :: nat where "bufSize = 32 * 1024"

text \<open>
  \<^verbatim>\<open>copyLoop\<close>; \<open>cbs\<close> collects the arguments of the callback. The loop need not end when the
  reader keeps returning \<^verbatim>\<open>(0, nil)\<close>.
\<close>

partial_function (option) copyLoop ::
  "'r read_fn \<Rightarrow> 'w write_fn \<Rightarrow> nat list \<Rightarrow> 'r \<Rightarrow> 'w \<Rightarrow> (nat list \<times> 'r \<times> 'w) option" where
  "copyLoop rd wr cbs src dst =
     (case rd src bufSize of (bs, er, src') \<Rightarrow>
        if bs \<noteq> [] then
          (case wr dst bs of (nw, ew, dst') \<Rightarrow>
             let cbs' = (if 0 < nw then cbs @ [nw] else cbs) in
             if ew \<noteq> None \<or> length bs \<noteq> nw then Some (cbs', src', dst')
             else if er \<noteq> None then Some (cbs', src', dst')
             else copyLoop rd wr cbs' src' dst')
        else if er \<noteq> None then Some (cbs, src', dst)
        else copyLoop rd wr cbs src' dst)"

locale relay = byte_reader rd rest fin ok + byte_writer wr written
  for rd :: "'r read_fn" and rest fin ok and wr :: "'w write_fn" and written
begin

text \<open>
  The loop returns; what it wrote is a prefix of what was to be read, the callbacks add up to its
  length, no chunk exceeds the buffer, and it is everything when the writer never fails (\<open>P\<close>
  describes such writers).
\<close>

definition reliable :: "('w \<Rightarrow> bool) \<Rightarrow> bool" where
  "reliable P \<longleftrightarrow> (\<forall>w bs n e w'. P w \<longrightarrow> wr w bs = (n, e, w') \<longrightarrow> e = None \<and> P w')"

lemma copyLoop_relays:
  assumes "ok src"
  shows "\<exists>cbs' src' dst' k. copyLoop rd wr cbs src dst = Some (cbs', src', dst') \<and>
    written dst' = written dst @ take k (rest src) \<and> k \<le> length (rest src) \<and>
    sum_list cbs' = sum_list cbs + k \<and> (\<forall>n \<in> set cbs'. n \<in> set cbs \<or> (0 < n \<and> n \<le> bufSize)) \<and>
    (reliable P \<and> P dst \<longrightarrow> k = length (rest src))"
  using assms
proof (induction "length (rest src)" arbitrary: src dst cbs rule: less_induct)
  case less
  have pos: "0 < bufSize" by (simp add: bufSize_def)
  obtain bs er src1 where rd: "rd src bufSize = (bs, er, src1)" by (cases "rd src bufSize")
  note st = read_step [OF less.prems pos rd]
  show ?case
  proof (cases "bs = []")
    case True
    with read_progress [OF less.prems pos] rd obtain x where er: "er = Some x" by (cases er) auto
    with read_end [OF less.prems pos] rd st True have "rest src = []" by auto
    with True er rd show ?thesis
      by (subst copyLoop.simps) auto
  next
    case False
    obtain nw ew dst1 where wr: "wr dst bs = (nw, ew, dst1)" by (cases "wr dst bs")
    note ws = write_step [OF wr]
    let ?c = "if 0 < nw then cbs @ [nw] else cbs"
    have sum: "sum_list ?c = sum_list cbs + nw" by simp
    have chunk: "nw \<le> bufSize" using ws st by simp
    show ?thesis
    proof (cases "ew \<noteq> None \<or> length bs \<noteq> nw \<or> er \<noteq> None")
      case True
      have "written dst1 = written dst @ take nw (rest src)" using ws st by simp
      moreover have "reliable P \<and> P dst \<longrightarrow> nw = length (rest src)"
      proof
        assume "reliable P \<and> P dst"
        with wr have e: "ew = None" by (auto simp: reliable_def)
        with wr write_full have n: "nw = length bs" by blast
        with True e obtain x where "er = Some x" by auto
        with read_end [OF less.prems pos] rd have "rest src1 = []" by blast
        with st n show "nw = length (rest src)" by simp
      qed
      moreover have "copyLoop rd wr cbs src dst = Some (?c, src1, dst1)"
        using True rd wr False by (subst copyLoop.simps) (auto simp: Let_def)
      moreover have "nw \<le> length (rest src)" using ws st by simp
      ultimately show ?thesis using sum chunk
        by (intro exI [of _ ?c] exI [of _ src1] exI [of _ dst1] exI [of _ nw]) auto
    next
      case go: False
      then have n: "nw = length bs" by simp
      have lt: "length (rest src1) < length (rest src)" using st False by (cases bs) auto
      from less.hyps [OF lt, of ?c dst1] st obtain cbs' src' dst' k where
        ih: "copyLoop rd wr ?c src1 dst1 = Some (cbs', src', dst')"
        "written dst' = written dst1 @ take k (rest src1)" "k \<le> length (rest src1)"
        "sum_list cbs' = sum_list ?c + k" "\<forall>n \<in> set cbs'. n \<in> set ?c \<or> (0 < n \<and> n \<le> bufSize)"
        "reliable P \<and> P dst1 \<longrightarrow> k = length (rest src1)" by metis
      have "copyLoop rd wr cbs src dst = copyLoop rd wr ?c src1 dst1"
        using go rd wr False by (subst copyLoop.simps) (simp add: Let_def)
      moreover have "written dst' = written dst @ take (nw + k) (rest src)"
        using ih(2) ws st n by simp
      moreover have "\<forall>n \<in> set cbs'. n \<in> set cbs \<or> (0 < n \<and> n \<le> bufSize)"
        using ih(5) chunk by (auto split: if_splits)
      moreover have "reliable P \<and> P dst \<longrightarrow> P dst1" using wr by (auto simp: reliable_def)
      ultimately show ?thesis using ih sum st n
        by (intro exI [of _ cbs'] exI [of _ src'] exI [of _ dst'] exI [of _ "nw + k"]) simp
    qed
  qed
qed

end

interpretation conns: relay connRead conn_pending c_fin conn_ok connWrite c_out
  by unfold_locales

section \<open>Both directions\<close>

text \<open>Where one direction stands: reading, writing what it has read, closing both ends, finished.\<close>

datatype loop = LoopRead | LoopWrite bytes "ioerr option" | LoopClose | LoopDone

text \<open>
  What a peer does besides sending: \<open>jn_endA\<close>, the peer of \<open>a\<close> has ended its side, so a read that has
  taken all its bytes returns; \<open>jn_stallA\<close>, it takes no more bytes, so a write to it waits. Until a
  peer ends, a read that finds nothing waits too. Closing a connection ends every wait on it.
\<close>

record join =
  jn_a :: conn
  jn_b :: conn
  jn_endA :: bool
  jn_endB :: bool
  jn_stallA :: bool
  jn_stallB :: bool
  jn_closed :: bool
  jn_ab :: loop
  jn_ba :: loop
  jn_onA2B :: "nat list"
  jn_onB2A :: "nat list"

definition errClosed :: ioerr where "errClosed = IOFailure ''use of closed network connection''"

definition joinRead :: "bool \<Rightarrow> conn \<Rightarrow> bytes \<times> ioerr option \<times> conn" where
  "joinRead closed c = (if closed then ([], Some errClosed, c) else connRead c bufSize)"

definition joinWrite :: "bool \<Rightarrow> conn \<Rightarrow> bytes \<Rightarrow> nat \<times> ioerr option \<times> conn" where
  "joinWrite closed c bs = (if closed then (0, Some errClosed, c) else connWrite c bs)"

text \<open>One operation of \<^verbatim>\<open>copyLoop\<close> inside \<^verbatim>\<open>Join\<close>: a read or a write.\<close>

definition copyOp ::
    "bool \<Rightarrow> loop \<Rightarrow> conn \<Rightarrow> conn \<Rightarrow> nat list \<Rightarrow> (loop \<times> conn \<times> conn \<times> nat list) option" where
  "copyOp closed l src dst cbs =
     (case l of
        LoopRead \<Rightarrow>
          (case joinRead closed src of (bs, er, src') \<Rightarrow>
             Some (if bs \<noteq> [] then LoopWrite bs er else if er \<noteq> None then LoopClose else LoopRead,
                   src', dst, cbs))
      | LoopWrite bs er \<Rightarrow>
          (case joinWrite closed dst bs of (nw, ew, dst') \<Rightarrow>
             Some (if ew \<noteq> None \<or> length bs \<noteq> nw then LoopClose
                   else if er \<noteq> None then LoopClose else LoopRead,
                   src, dst', if 0 < nw then cbs @ [nw] else cbs))
      | _ \<Rightarrow> None)"

text \<open>A direction that waits: for the peer of its source to send or end, for that of its destination to read.\<close>

definition blocked :: "bool \<Rightarrow> bool \<Rightarrow> bool \<Rightarrow> loop \<Rightarrow> conn \<Rightarrow> bool" where
  "blocked closed ended stalled l src \<longleftrightarrow>
     \<not> closed \<and>
     (case l of
        LoopRead \<Rightarrow> c_in src = [] \<and> \<not> ended
      | LoopWrite bs er \<Rightarrow> stalled
      | _ \<Rightarrow> False)"

definition blockedAB :: "join \<Rightarrow> bool" where
  "blockedAB j \<longleftrightarrow> blocked (jn_closed j) (jn_endA j) (jn_stallB j) (jn_ab j) (jn_a j)"

definition blockedBA :: "join \<Rightarrow> bool" where
  "blockedBA j \<longleftrightarrow> blocked (jn_closed j) (jn_endB j) (jn_stallA j) (jn_ba j) (jn_b j)"

datatype join_label = OpAB | OpBA | CloseAB | CloseBA | EndA | EndB | StallA | StallB

inductive join_step :: "join \<Rightarrow> join_label \<Rightarrow> join \<Rightarrow> bool" where
  op_ab: "\<not> blockedAB j \<Longrightarrow> copyOp (jn_closed j) (jn_ab j) (jn_a j) (jn_b j) (jn_onA2B j) = Some (l, a, b, cbs) \<Longrightarrow>
    join_step j OpAB (j\<lparr>jn_a := a, jn_b := b, jn_ab := l, jn_onA2B := cbs\<rparr>)"
| op_ba: "\<not> blockedBA j \<Longrightarrow> copyOp (jn_closed j) (jn_ba j) (jn_b j) (jn_a j) (jn_onB2A j) = Some (l, b, a, cbs) \<Longrightarrow>
    join_step j OpBA (j\<lparr>jn_a := a, jn_b := b, jn_ba := l, jn_onB2A := cbs\<rparr>)"
| close_ab: "jn_ab j = LoopClose \<Longrightarrow> join_step j CloseAB (j\<lparr>jn_ab := LoopDone, jn_closed := True\<rparr>)"
| close_ba: "jn_ba j = LoopClose \<Longrightarrow> join_step j CloseBA (j\<lparr>jn_ba := LoopDone, jn_closed := True\<rparr>)"
| end_a: "\<not> jn_endA j \<Longrightarrow> join_step j EndA (j\<lparr>jn_endA := True\<rparr>)"
| end_b: "\<not> jn_endB j \<Longrightarrow> join_step j EndB (j\<lparr>jn_endB := True\<rparr>)"
| stall_a: "\<not> jn_stallA j \<Longrightarrow> join_step j StallA (j\<lparr>jn_stallA := True\<rparr>)"
| stall_b: "\<not> jn_stallB j \<Longrightarrow> join_step j StallB (j\<lparr>jn_stallB := True\<rparr>)"

inductive_cases join_step_cases: "join_step j l j'"

definition join_start :: "conn \<Rightarrow> conn \<Rightarrow> join" where
  "join_start a b =
     \<lparr>jn_a = a, jn_b = b, jn_endA = False, jn_endB = False, jn_stallA = False, jn_stallB = False,
      jn_closed = False, jn_ab = LoopRead, jn_ba = LoopRead,
      jn_onA2B = [], jn_onB2A = []\<rparr>"

definition join_done :: "join \<Rightarrow> bool" where
  "join_done j \<longleftrightarrow> jn_ab j = LoopDone \<and> jn_ba j = LoopDone"

text \<open>
  One direction, seen from its start: \<open>input\<close> is what the source had to send, \<open>before\<close> what the
  destination had been sent. What has been relayed is a prefix of the input and the callbacks count
  it; the rest is what was read but not yet written and what is still to be read.
\<close>

definition in_flight :: "loop \<Rightarrow> bytes" where
  "in_flight l = (case l of LoopWrite bs _ \<Rightarrow> bs | _ \<Rightarrow> [])"

definition relayed :: "bytes \<Rightarrow> bytes \<Rightarrow> loop \<Rightarrow> conn \<Rightarrow> conn \<Rightarrow> nat list \<Rightarrow> bool" where
  "relayed input before l src dst cbs \<longleftrightarrow>
     conn_ok src \<and>
     c_out dst = before @ take (sum_list cbs) input \<and> sum_list cbs \<le> length input \<and>
     (l = LoopRead \<or> (\<exists>bs er. l = LoopWrite bs er) \<longrightarrow>
        drop (sum_list cbs) input = in_flight l @ conn_pending src)"

definition join_inv :: "conn \<Rightarrow> conn \<Rightarrow> join \<Rightarrow> bool" where
  "join_inv a b j \<longleftrightarrow>
     relayed (conn_pending a) (c_out b) (jn_ab j) (jn_a j) (jn_b j) (jn_onA2B j) \<and>
     relayed (conn_pending b) (c_out a) (jn_ba j) (jn_b j) (jn_a j) (jn_onB2A j) \<and>
     (jn_ab j = LoopDone \<or> jn_ba j = LoopDone \<longrightarrow> jn_closed j)"

text \<open>Reading leaves the output side of a connection alone, writing the input side.\<close>

lemma joinRead_frame:
  assumes "joinRead closed c = (bs, er, c')"
  shows "c_out c' = c_out c" "c_fin c' = c_fin c" "conn_ok c \<Longrightarrow> conn_ok c'"
    "conn_ok c \<Longrightarrow> conn_pending c = bs @ conn_pending c'"
    "conn_ok c \<Longrightarrow> bs = [] \<Longrightarrow> er \<noteq> None"
proof -
  have pos: "0 < bufSize" by (simp add: bufSize_def)
  show "c_out c' = c_out c" "c_fin c' = c_fin c"
    using assms by (auto simp: joinRead_def connRead_def split: if_splits list.splits)
  show "conn_ok c \<Longrightarrow> conn_ok c'" "conn_ok c \<Longrightarrow> conn_pending c = bs @ conn_pending c'"
    using assms conn_in.read_step [OF _ pos, of c bs er c'] by (auto simp: joinRead_def split: if_splits)
  show "conn_ok c \<Longrightarrow> bs = [] \<Longrightarrow> er \<noteq> None"
    using assms conn_in.read_progress [OF _ pos, of c bs c'] by (auto simp: joinRead_def split: if_splits)
qed

lemma joinWrite_frame:
  assumes "joinWrite closed c bs = (nw, ew, c')"
  shows "conn_pending c' = conn_pending c" "conn_ok c' = conn_ok c" "c_fin c' = c_fin c"
    "c_out c' = c_out c @ take nw bs" "nw \<le> length bs"
  using assms conn_out.write_step [of c bs nw ew c']
  by (auto simp: joinWrite_def connWrite_def conn_pending_def conn_ok_def split: if_splits option.splits)

text \<open>An operation keeps its own direction and does not touch the other one.\<close>

lemma copyOp_relayed:
  assumes "copyOp closed l src dst cbs = Some (l', src', dst', cbs')" "relayed input before l src dst cbs"
  shows "relayed input before l' src' dst' cbs'"
proof (cases l)
  case LoopRead
  obtain bs er c where rd: "joinRead closed src = (bs, er, c)" by (cases "joinRead closed src")
  from assms(1) LoopRead rd have "l' = (if bs \<noteq> [] then LoopWrite bs er else if er \<noteq> None then LoopClose else LoopRead)"
    "src' = c" "dst' = dst" "cbs' = cbs" by (simp_all add: copyOp_def)
  with assms(2) LoopRead joinRead_frame [OF rd] show ?thesis
    by (simp add: relayed_def in_flight_def)
next
  case (LoopWrite bs er)
  obtain nw ew c where wr: "joinWrite closed dst bs = (nw, ew, c)" by (cases "joinWrite closed dst bs")
  from assms(1) LoopWrite wr have
    l': "l' = (if ew \<noteq> None \<or> length bs \<noteq> nw \<or> er \<noteq> None then LoopClose else LoopRead)"
    and e: "src' = src" "dst' = c" "cbs' = (if 0 < nw then cbs @ [nw] else cbs)"
    by (auto simp: copyOp_def split: if_splits)
  have sum: "sum_list cbs' = sum_list cbs + nw" using e by simp
  from assms(2) LoopWrite have d: "drop (sum_list cbs) input = bs @ conn_pending src"
    and o: "c_out dst = before @ take (sum_list cbs) input" and le: "sum_list cbs \<le> length input"
    and ok: "conn_ok src" by (simp_all add: relayed_def in_flight_def)
  note w = joinWrite_frame [OF wr]
  have "take (sum_list cbs + nw) input = take (sum_list cbs) input @ take nw bs"
    using w(5) by (simp add: take_add d)
  moreover have "drop (sum_list cbs + nw) input = drop nw bs @ conn_pending src"
    using w(5) d by (simp add: add.commute flip: drop_drop)
  moreover have "sum_list cbs + nw \<le> length input"
    using arg_cong [OF d, of length] w(5) le by simp
  ultimately show ?thesis using l' e sum w o ok
    by (auto simp: relayed_def in_flight_def)
qed (use assms(1) in \<open>simp_all add: copyOp_def\<close>)

lemma copyOp_other:
  assumes "copyOp closed l src dst cbs = Some (l', src', dst', cbs')"
  shows "conn_pending dst' = conn_pending dst" "conn_ok dst' = conn_ok dst" "c_out src' = c_out src"
  using assms joinRead_frame(1) joinWrite_frame(1,2)
  by (auto simp: copyOp_def split: loop.splits prod.splits)

lemma copyOp_live:
  "copyOp closed l src dst cbs = Some (l', src', dst', cbs') \<Longrightarrow> l \<noteq> LoopDone \<and> l' \<noteq> LoopDone"
  by (auto simp: copyOp_def split: loop.splits prod.splits if_splits)

lemma relayed_other:
  assumes "relayed input before l src dst cbs" "conn_pending src' = conn_pending src"
    "conn_ok src' = conn_ok src" "c_out dst' = c_out dst"
  shows "relayed input before l src' dst' cbs"
  using assms by (simp add: relayed_def)

lemma join_inv_step:
  assumes "join_inv a b j" "join_step j l j'"
  shows "join_inv a b j'"
  using assms(2)
proof cases
  case (op_ab l a' b' cbs)
  from assms(1) have "relayed (conn_pending a) (c_out b) l a' b' cbs"
    unfolding join_inv_def by (intro copyOp_relayed [OF op_ab(4)]) simp
  moreover have "relayed (conn_pending b) (c_out a) (jn_ba j) b' a' (jn_onB2A j)"
    using assms(1) unfolding join_inv_def
    by (elim conjE) (erule relayed_other, (rule copyOp_other [OF op_ab(4)])+)
  ultimately show ?thesis using assms(1) op_ab(2) copyOp_live [OF op_ab(4)]
    by (simp add: join_inv_def)
next
  case (op_ba l b' a' cbs)
  from assms(1) have "relayed (conn_pending b) (c_out a) l b' a' cbs"
    unfolding join_inv_def by (intro copyOp_relayed [OF op_ba(4)]) simp
  moreover have "relayed (conn_pending a) (c_out b) (jn_ab j) a' b' (jn_onA2B j)"
    using assms(1) unfolding join_inv_def
    by (elim conjE) (erule relayed_other, (rule copyOp_other [OF op_ba(4)])+)
  ultimately show ?thesis using assms(1) op_ba(2) copyOp_live [OF op_ba(4)]
    by (simp add: join_inv_def)
qed (use assms(1) in \<open>simp_all add: join_inv_def relayed_def in_flight_def\<close>)

interpretation joining:
  invariant_system "\<lambda>j. j = join_start a b \<and> conn_ok a \<and> conn_ok b" join_step "join_inv a b" for a b
proof
  fix j assume "j = join_start a b \<and> conn_ok a \<and> conn_ok b"
  then show "join_inv a b j"
    by (simp add: join_inv_def relayed_def join_start_def in_flight_def)
qed (rule join_inv_step)

section \<open>Join ends\<close>

text \<open>Every step makes progress, so no run is longer than the measure of its first state.\<close>

definition loop_rank :: "loop \<Rightarrow> nat" where
  "loop_rank l = (case l of LoopRead \<Rightarrow> 2 | LoopWrite _ _ \<Rightarrow> 3 | LoopClose \<Rightarrow> 1 | LoopDone \<Rightarrow> 0)"

definition join_measure :: "join \<Rightarrow> nat" where
  "join_measure j =
     2 * length (conn_pending (jn_a j)) + loop_rank (jn_ab j) +
     (2 * length (conn_pending (jn_b j)) + loop_rank (jn_ba j)) +
     (of_bool (\<not> jn_endA j) + of_bool (\<not> jn_endB j) + of_bool (\<not> jn_stallA j) + of_bool (\<not> jn_stallB j))"

lemma copyOp_measure:
  assumes "copyOp closed l src dst cbs = Some (l', src', dst', cbs')" "conn_ok src"
  shows "2 * length (conn_pending src') + loop_rank l' < 2 * length (conn_pending src) + loop_rank l"
proof (cases l)
  case LoopRead
  obtain bs er c where rd: "joinRead closed src = (bs, er, c)" by (cases "joinRead closed src")
  from joinRead_frame(4,5) [OF rd assms(2)] assms(1) LoopRead rd show ?thesis
    by (cases bs) (auto simp: copyOp_def loop_rank_def)
qed (use assms(1) in \<open>auto simp: copyOp_def loop_rank_def split: prod.splits if_splits\<close>)

lemma join_step_measure:
  assumes "join_step j l j'" "join_inv a b j"
  shows "join_measure j' < join_measure j"
  using assms(1)
proof cases
  case (op_ab l a' b' cbs)
  have "conn_ok (jn_a j)" using assms(2) by (simp add: join_inv_def relayed_def)
  from copyOp_measure [OF op_ab(4) this] copyOp_other(1) [OF op_ab(4)] op_ab(2) show ?thesis
    by (simp add: join_measure_def)
next
  case (op_ba l b' a' cbs)
  have "conn_ok (jn_b j)" using assms(2) by (simp add: join_inv_def relayed_def)
  from copyOp_measure [OF op_ba(4) this] copyOp_other(1) [OF op_ba(4)] op_ba(2) show ?thesis
    by (simp add: join_measure_def)
qed (simp_all add: join_measure_def loop_rank_def)

lemma join_run_bounded:
  assumes "run join_step j ls j'" "join_inv a b j"
  shows "length ls + join_measure j' \<le> join_measure j"
  using assms
proof (induction rule: run.induct)
  case (run_cons s l t ls u)
  have "join_inv a b t" using join_inv_step run_cons.prems run_cons.hyps(1) by blast
  with run_cons.IH join_step_measure [OF run_cons.hyps(1) run_cons.prems] show ?case by simp
qed simp

text \<open>
  \<^verbatim>\<open>Join\<close> stands still only when it is done or each direction waits for a peer; when one
  direction has finished, nothing waits.
\<close>

definition join_moves :: "join \<Rightarrow> bool" where
  "join_moves j \<longleftrightarrow> (\<exists>l j'. l \<in> {OpAB, OpBA, CloseAB, CloseBA} \<and> join_step j l j')"

lemma copyOp_enabled:
  "l = LoopRead \<or> (\<exists>bs er. l = LoopWrite bs er) \<Longrightarrow> copyOp closed l src dst cbs \<noteq> None"
  by (auto simp: copyOp_def split: prod.splits)

lemma ab_moves:
  assumes "jn_ab j \<noteq> LoopDone" "\<not> blockedAB j"
  shows "join_moves j"
proof (cases "jn_ab j = LoopClose")
  case True
  then show ?thesis unfolding join_moves_def using close_ab by blast
next
  case False
  with assms(1) have "copyOp (jn_closed j) (jn_ab j) (jn_a j) (jn_b j) (jn_onA2B j) \<noteq> None"
    by (intro copyOp_enabled) (cases "jn_ab j", auto)
  then obtain l a b cbs where "copyOp (jn_closed j) (jn_ab j) (jn_a j) (jn_b j) (jn_onA2B j) = Some (l, a, b, cbs)"
    by (metis not_None_eq prod_cases4)
  from op_ab [OF assms(2) this] show ?thesis unfolding join_moves_def by blast
qed

lemma ba_moves:
  assumes "jn_ba j \<noteq> LoopDone" "\<not> blockedBA j"
  shows "join_moves j"
proof (cases "jn_ba j = LoopClose")
  case True
  then show ?thesis unfolding join_moves_def using close_ba by blast
next
  case False
  with assms(1) have "copyOp (jn_closed j) (jn_ba j) (jn_b j) (jn_a j) (jn_onB2A j) \<noteq> None"
    by (intro copyOp_enabled) (cases "jn_ba j", auto)
  then obtain l b a cbs where "copyOp (jn_closed j) (jn_ba j) (jn_b j) (jn_a j) (jn_onB2A j) = Some (l, b, a, cbs)"
    by (metis not_None_eq prod_cases4)
  from op_ba [OF assms(2) this] show ?thesis unfolding join_moves_def by blast
qed

lemma join_stuck_iff: "\<not> join_moves j \<longleftrightarrow>
    (jn_ab j = LoopDone \<or> blockedAB j) \<and> (jn_ba j = LoopDone \<or> blockedBA j)"
proof
  assume "\<not> join_moves j"
  then show "(jn_ab j = LoopDone \<or> blockedAB j) \<and> (jn_ba j = LoopDone \<or> blockedBA j)"
    using ab_moves ba_moves by blast
next
  assume s: "(jn_ab j = LoopDone \<or> blockedAB j) \<and> (jn_ba j = LoopDone \<or> blockedBA j)"
  then have "jn_ab j \<noteq> LoopClose" "jn_ba j \<noteq> LoopClose"
    by (auto simp: blockedAB_def blockedBA_def blocked_def)
  moreover have "copyOp c LoopDone a b k = None" for a b c k by (simp add: copyOp_def)
  ultimately show "\<not> join_moves j"
    using s by (auto simp: join_moves_def elim!: join_step_cases)
qed

text \<open>A connection that has been closed holds up neither direction.\<close>

lemma join_stuck:
  assumes "join_inv a b j" "\<not> join_moves j" "\<not> join_done j"
  shows "blockedAB j \<and> blockedBA j"
proof -
  have "jn_ab j = LoopDone \<or> jn_ba j = LoopDone \<Longrightarrow> jn_closed j" using assms(1) by (simp add: join_inv_def)
  with assms(2,3) show ?thesis
    by (auto simp: join_stuck_iff join_done_def blockedAB_def blockedBA_def blocked_def)
qed

end
