(* ===== verification/Client.thy ===== *)
theory Client
  imports Pinning Auth Mux
begin

text \<open>
  \<^verbatim>\<open>internal/client/client.go\<close>: the state of the client, the life of one connection up to the
  login, the frames its control loop reads, the requests it sends and the streams it opens. As in
  the server, outcomes of network operations and of \<^verbatim>\<open>json.Unmarshal\<close> are arguments.
  Channels and connections are objects of an explicit heap.
\<close>

section \<open>State\<close>

type_synonym kid = nat \<comment> \<open>a connection, with its session and its \<^verbatim>\<open>writeCh\<close>\<close>
type_synonym rid = nat \<comment> \<open>a reply channel\<close>

datatype cmsg = CNewProxy NewProxy | CCloseProxy CloseProxy | CPing Ping

record writeReq =
  wq_typ :: byte
  wq_msg :: cmsg
  wq_reqID :: int

record wchan =
  ch_buf :: "writeReq list"
  ch_closed :: bool

text \<open>\<open>os_conns\<close>: the connections the client has dialled and not closed.\<close>

record Client =
  cl_cfg :: ClientCfg
  cl_proxies :: "gostring \<rightharpoonup> ProxyCfg"
  cl_session :: "kid option"
  cl_writeCh :: "kid option"
  cl_pending :: "int \<rightharpoonup> rid"
  cl_reqSeq :: int
  hp_chan :: "kid \<Rightarrow> wchan"
  hp_reply :: "rid \<Rightarrow> NewProxyResp list"
  os_conns :: "nat set"
  nx_chan :: kid
  nx_reply :: rid

record client_decoders =
  decLoginResp :: "bytes \<Rightarrow> LoginResp option"
  decNewProxyResp :: "bytes \<Rightarrow> NewProxyResp option"
  decStartWorkConn :: "bytes \<Rightarrow> StartWorkConn option"

fun buildProxyMap :: "ProxyCfg list \<Rightarrow> (gostring \<rightharpoonup> ProxyCfg) \<Rightarrow> (gostring \<rightharpoonup> ProxyCfg)" where
  "buildProxyMap [] m = m"
| "buildProxyMap (p # ps) m = buildProxyMap ps (m(pc_Name p \<mapsto> p))"

definition NewClient :: "ClientCfg \<Rightarrow> Client" where
  "NewClient cfg =
     \<lparr>cl_cfg = cfg, cl_proxies = buildProxyMap (cc_Proxies cfg) Map.empty, cl_session = None,
      cl_writeCh = None, cl_pending = Map.empty, cl_reqSeq = 0,
      hp_chan = (\<lambda>_. \<lparr>ch_buf = [], ch_closed = False\<rparr>), hp_reply = (\<lambda>_. []),
      os_conns = {}, nx_chan = 0, nx_reply = 0\<rparr>"

definition setSession :: "kid \<Rightarrow> Client \<Rightarrow> Client" where
  "setSession k c = c\<lparr>cl_session := Some k, cl_writeCh := Some k\<rparr>"

definition clearSession :: "Client \<Rightarrow> Client" where
  "clearSession c = c\<lparr>cl_session := None, cl_writeCh := None\<rparr>"

definition getSession :: "Client \<Rightarrow> kid option" where
  "getSession c = cl_session c"

text \<open>\<^verbatim>\<open>proxyList\<close> ranges over a map, in the order \<open>ord\<close> of this iteration.\<close>

definition proxyList :: "gostring list \<Rightarrow> Client \<Rightarrow> ProxyCfg list" where
  "proxyList ord c = List.map_filter (cl_proxies c) ord"

definition lists_map :: "gostring list \<Rightarrow> (gostring \<rightharpoonup> 'v) \<Rightarrow> bool" where
  "lists_map ord m \<longleftrightarrow> distinct ord \<and> set ord = dom m"

lemma buildProxyMap_snoc:
  "buildProxyMap (ps @ [p]) m = (buildProxyMap ps m)(pc_Name p \<mapsto> p)"
  by (induction ps arbitrary: m) auto

lemma buildProxyMap_distinct:
  assumes "distinct (map pc_Name ps)"
  shows "buildProxyMap ps Map.empty n = Some p \<longleftrightarrow> p \<in> set ps \<and> pc_Name p = n"
  using assms
proof (induction ps rule: rev_induct)
  case (snoc q ps)
  then show ?case by (auto simp: buildProxyMap_snoc image_iff)
qed simp

lemma buildProxyMap_name: "buildProxyMap ps Map.empty n = Some p \<Longrightarrow> pc_Name p = n"
  by (induction ps rule: rev_induct) (auto simp: buildProxyMap_snoc split: if_splits)

section \<open>Channels\<close>

definition writeCap :: nat where "writeCap = 64"

definition writeSend :: "writeReq \<Rightarrow> wchan \<Rightarrow> wchan option" where
  "writeSend r ch =
     (if length (ch_buf ch) < writeCap then Some (ch\<lparr>ch_buf := ch_buf ch @ [r]\<rparr>) else None)"

definition writeRecv :: "wchan \<Rightarrow> (writeReq \<times> wchan) option" where
  "writeRecv ch = (case ch_buf ch of [] \<Rightarrow> None | r # rs \<Rightarrow> Some (r, ch\<lparr>ch_buf := rs\<rparr>))"

definition replySend :: "NewProxyResp \<Rightarrow> NewProxyResp list \<Rightarrow> NewProxyResp list option" where
  "replySend r q = (if length q < 1 then Some (q @ [r]) else None)"

definition replyRecv :: "NewProxyResp list \<Rightarrow> (NewProxyResp \<times> NewProxyResp list) option" where
  "replyRecv q = (case q of [] \<Rightarrow> None | r # rs \<Rightarrow> Some (r, rs))"

interpretation writes: buffered_channel writeSend writeRecv ch_buf writeCap
  by unfold_locales (auto simp: writeSend_def writeRecv_def split: list.splits)

interpretation replies: buffered_channel replySend replyRecv "\<lambda>q. q" 1
  by unfold_locales (auto simp: replySend_def replyRecv_def split: list.splits)

text \<open>A send on \<^verbatim>\<open>writeCh\<close>: a closed channel panics, full or not.\<close>

datatype 'q send_result = Sent 'q | Blocked | SendPanic

definition chanSend :: "writeReq \<Rightarrow> wchan \<Rightarrow> wchan send_result" where
  "chanSend r ch =
     (if ch_closed ch then SendPanic
      else case writeSend r ch of None \<Rightarrow> Blocked | Some q \<Rightarrow> Sent q)"

abbreviation upd_chan :: "kid \<Rightarrow> wchan \<Rightarrow> Client \<Rightarrow> Client" where
  "upd_chan k q c \<equiv> c\<lparr>hp_chan := (hp_chan c)(k := q)\<rparr>"

section \<open>One connection\<close>

definition clientLogin :: "ClientCfg \<Rightarrow> int \<Rightarrow> Login" where
  "clientLogin cfg ts =
     \<lparr>lg_Version = Version, lg_ClientID = cc_ClientID cfg, lg_Ts = ts,
      lg_Hmac = HmacLogin (cc_Token cfg) (cc_ClientID cfg) ts\<rparr>"

datatype run_error =
    DialFailed gostring
  | TLSFailed tls_error
  | SmuxFailed gostring
  | OpenStreamFailed gostring
  | SendLoginFailed ioerr
  | ReadLoginFailed ioerr
  | UnexpectedReply byte
  | BadReply
  | LoginRefused "errmsg option"

text \<open>
  What an attempt meets: the results of \<^verbatim>\<open>Dial\<close> (a connection for an address), of the
  handshake, of smux, of writing the login and of reading the reply.
\<close>

record dial_env =
  de_dial :: "gostring \<Rightarrow> gostring + nat"
  de_handshake :: "tls_config \<Rightarrow> gostring + bytes list"
  de_smux :: "gostring option"
  de_stream :: "gostring option"
  de_now :: int
  de_write :: "Login \<Rightarrow> ioerr option"
  de_reply :: "ioerr + byte \<times> bytes"

definition readLoginReply :: "client_decoders \<Rightarrow> (ioerr + byte \<times> bytes) \<Rightarrow> run_error option" where
  "readLoginReply J fr =
     (case fr of
        Inl e \<Rightarrow> Some (ReadLoginFailed e)
      | Inr (typ, payload) \<Rightarrow>
          if typ \<noteq> TypeLoginResp then Some (UnexpectedReply typ)
          else case decLoginResp J payload of
                 None \<Rightarrow> Some BadReply
               | Some lr \<Rightarrow> if \<not> lr_OK lr then Some (LoginRefused (lr_Error lr)) else None)"

text \<open>The part of \<^verbatim>\<open>runOnce\<close> between the dial and the installation of the session.\<close>

definition handshakes ::
    "client_decoders \<Rightarrow> (gostring \<Rightarrow> gostring) \<Rightarrow> dial_env \<Rightarrow> ClientCfg \<Rightarrow> run_error option" where
  "handshakes J ucase e cfg =
     (case (if ct_Enabled (cc_TLS cfg) then fst (wrapTLS ucase (de_handshake e) cfg) else Inr []) of
        Inl x \<Rightarrow> Some (TLSFailed x)
      | Inr _ \<Rightarrow>
          (case de_smux e of Some x \<Rightarrow> Some (SmuxFailed x)
           | None \<Rightarrow>
               (case de_stream e of Some x \<Rightarrow> Some (OpenStreamFailed x)
                | None \<Rightarrow>
                    (case de_write e (clientLogin cfg (de_now e)) of
                       Some x \<Rightarrow> Some (SendLoginFailed x)
                     | None \<Rightarrow> readLoginReply J (de_reply e)))))"

text \<open>
  \<^verbatim>\<open>runOnce\<close> up to \<^verbatim>\<open>setSession\<close>: every error after the dial closes the connection.
\<close>

definition connect ::
    "client_decoders \<Rightarrow> (gostring \<Rightarrow> gostring) \<Rightarrow> dial_env \<Rightarrow> ClientCfg \<Rightarrow> Client \<Rightarrow>
     (run_error + kid) \<times> Client" where
  "connect J ucase e cfg c =
     (let c0 = clearSession c in
      case de_dial e (cc_ServerAddr cfg) of
        Inl x \<Rightarrow> (Inl (DialFailed x), c0)
      | Inr raw \<Rightarrow>
          let c1 = c0\<lparr>os_conns := insert raw (os_conns c0)\<rparr> in
          case handshakes J ucase e cfg of
            Some x \<Rightarrow> (Inl x, c1\<lparr>os_conns := os_conns c1 - {raw}\<rparr>)
          | None \<Rightarrow>
              let k = nx_chan c1 in
              (Inr k, setSession k (c1\<lparr>hp_chan := (hp_chan c1)(k := \<lparr>ch_buf = [], ch_closed = False\<rparr>),
                                       nx_chan := Suc k\<rparr>)))"

section \<open>The control stream\<close>

datatype ctl_action = CtlNothing | CtlWork gostring | CtlDeliver rid NewProxyResp

text \<open>\<^verbatim>\<open>deliverPending\<close>: the channel a response goes to.\<close>

definition deliverPending :: "Client \<Rightarrow> NewProxyResp \<Rightarrow> ctl_action" where
  "deliverPending c resp =
     (case cl_pending c (nr_ReqID resp) of None \<Rightarrow> CtlNothing | Some ch \<Rightarrow> CtlDeliver ch resp)"

text \<open>The body of the client's \<^verbatim>\<open>controlLoop\<close> for one frame.\<close>

definition clientFrame :: "client_decoders \<Rightarrow> Client \<Rightarrow> byte \<Rightarrow> bytes \<Rightarrow> ctl_action" where
  "clientFrame J c typ payload =
     (if typ = TypePong then CtlNothing
      else if typ = TypeStartWorkConn then
        (case decStartWorkConn J payload of
           None \<Rightarrow> CtlNothing
         | Some m \<Rightarrow> if sw_ProxyName m = [] then CtlNothing else CtlWork (sw_ProxyName m))
      else if typ = TypeNewProxyResp then
        (case decNewProxyResp J payload of
           None \<Rightarrow> CtlNothing | Some resp \<Rightarrow> deliverPending c resp)
      else CtlNothing)"

text \<open>
  \<^verbatim>\<open>pingLoop\<close>, one tick; a full channel drops the ping. \<open>None\<close> is the panic of a send on a
  closed channel.
\<close>

definition pingTick :: "int \<Rightarrow> kid \<Rightarrow> Client \<Rightarrow> Client option" where
  "pingTick now k c =
     (case chanSend \<lparr>wq_typ = TypePing, wq_msg = CPing \<lparr>ping_Ts = now\<rparr>, wq_reqID = 0\<rparr> (hp_chan c k) of
        Sent q \<Rightarrow> Some (upd_chan k q c) | Blocked \<Rightarrow> Some c | SendPanic \<Rightarrow> None)"

section \<open>Requests\<close>

datatype reg_error = NotConnected | SendTimeout | Refused "errmsg option" | ReplyTimeout

definition nextReqID :: "Client \<Rightarrow> int \<times> Client" where
  "nextReqID c = (let n = wrap64 (cl_reqSeq c + 1) in (n, c\<lparr>cl_reqSeq := n\<rparr>))"

definition newProxyMsg :: "ProxyCfg \<Rightarrow> int \<Rightarrow> NewProxy" where
  "newProxyMsg p reqID =
     \<lparr>np_Name = pc_Name p, np_Type = pc_Type p, np_Local = pc_Local p,
      np_RemotePort = pc_RemotePort p, np_Subdomain = pc_Subdomain p,
      np_CustomDomains = pc_CustomDomains p, np_ReqID = reqID\<rparr>"

definition newProxyReq :: "ProxyCfg \<Rightarrow> int \<Rightarrow> writeReq" where
  "newProxyReq p reqID =
     \<lparr>wq_typ = TypeNewProxy, wq_msg = CNewProxy (newProxyMsg p reqID), wq_reqID = reqID\<rparr>"

definition closeProxyReq :: "gostring \<Rightarrow> writeReq" where
  "closeProxyReq name =
     \<lparr>wq_typ = TypeCloseProxy, wq_msg = CCloseProxy \<lparr>cp_Name = name\<rparr>, wq_reqID = 0\<rparr>"

text \<open>\<^verbatim>\<open>registerProxy\<close> up to the first \<^verbatim>\<open>select\<close>: the request number and its channel.\<close>

definition regBegin :: "Client \<Rightarrow> (kid \<times> int \<times> rid) option \<times> Client" where
  "regBegin c =
     (case cl_writeCh c of
        None \<Rightarrow> (None, c)
      | Some k \<Rightarrow>
          (case nextReqID c of
             (reqID, c1) \<Rightarrow>
               let ch = nx_reply c1 in
               (Some (k, reqID, ch),
                c1\<lparr>hp_reply := (hp_reply c1)(ch := []), nx_reply := Suc ch,
                   cl_pending := (cl_pending c1)(reqID \<mapsto> ch)\<rparr>)))"

text \<open>The deferred function of \<^verbatim>\<open>registerProxy\<close>.\<close>

definition regLeave :: "int \<Rightarrow> Client \<Rightarrow> Client" where
  "regLeave reqID c = c\<lparr>cl_pending := (cl_pending c)(reqID := None)\<rparr>"

definition replyResult :: "NewProxyResp \<Rightarrow> reg_error option" where
  "replyResult resp = (if \<not> nr_OK resp then Some (Refused (nr_Error resp)) else None)"

section \<open>Streams for visitors\<close>

record work_env =
  we_dial :: "gostring \<Rightarrow> gostring + nat"
  we_stream :: "gostring + nat"
  we_write :: "StreamMeta \<Rightarrow> ioerr option"

text \<open>
  \<^verbatim>\<open>handleWorkConn\<close>: the stream and the local connection it joins, if it comes to that, and
  the connections it closes.
\<close>

definition handleWorkConn :: "work_env \<Rightarrow> Client \<Rightarrow> gostring \<Rightarrow> (nat \<times> nat) option \<times> nat list" where
  "handleWorkConn e c name =
     (case getSession c of
        None \<Rightarrow> (None, [])
      | Some _ \<Rightarrow>
          (case cl_proxies c name of
             None \<Rightarrow> (None, [])
           | Some p \<Rightarrow>
               (case we_dial e (pc_Local p) of
                  Inl _ \<Rightarrow> (None, [])
                | Inr loc \<Rightarrow>
                    (case we_stream e of
                       Inl _ \<Rightarrow> (None, [loc])
                     | Inr st \<Rightarrow>
                         (case we_write e \<lparr>sm_ProxyName = name\<rparr> of
                            Some _ \<Rightarrow> (None, [st, loc])
                          | None \<Rightarrow> (Some (st, loc), []))))))"

section \<open>Facts about the operations\<close>

lemma clearSession_fields [simp]:
  "cl_session (clearSession c) = None" "cl_writeCh (clearSession c) = None"
  "cl_pending (clearSession c) = cl_pending c" "hp_chan (clearSession c) = hp_chan c"
  "hp_reply (clearSession c) = hp_reply c" "nx_chan (clearSession c) = nx_chan c"
  "nx_reply (clearSession c) = nx_reply c" "os_conns (clearSession c) = os_conns c"
  "cl_cfg (clearSession c) = cl_cfg c" "cl_proxies (clearSession c) = cl_proxies c"
  by (simp_all add: clearSession_def)

lemma connect_cases:
  obtains (fails) x where "fst (connect J u e cfg c) = Inl x" "cl_writeCh (snd (connect J u e cfg c)) = None"
      "cl_session (snd (connect J u e cfg c)) = None"
      "hp_chan (snd (connect J u e cfg c)) = hp_chan c" "nx_chan (snd (connect J u e cfg c)) = nx_chan c"
  | (succeeds) raw where "fst (connect J u e cfg c) = Inr (nx_chan c)"
      "de_dial e (cc_ServerAddr cfg) = Inr raw" "handshakes J u e cfg = None"
      "os_conns (snd (connect J u e cfg c)) = insert raw (os_conns c)"
      "cl_writeCh (snd (connect J u e cfg c)) = Some (nx_chan c)"
      "cl_session (snd (connect J u e cfg c)) = Some (nx_chan c)"
      "hp_chan (snd (connect J u e cfg c)) =
        (hp_chan c)(nx_chan c := \<lparr>ch_buf = [], ch_closed = False\<rparr>)"
      "nx_chan (snd (connect J u e cfg c)) = Suc (nx_chan c)"
proof (cases "de_dial e (cc_ServerAddr cfg)")
  case (Inl x)
  then show ?thesis by (intro fails) (simp_all add: connect_def Let_def)
next
  case (Inr raw)
  show ?thesis
  proof (cases "handshakes J u e cfg")
    case None
    with Inr show ?thesis
      by (intro succeeds) (simp_all add: connect_def Let_def setSession_def clearSession_def)
  next
    case (Some x)
    with Inr show ?thesis
      by (intro fails) (simp_all add: connect_def Let_def clearSession_def)
  qed
qed

lemma connect_frame [simp]:
  "cl_pending (snd (connect J u e cfg c)) = cl_pending c"
  "hp_reply (snd (connect J u e cfg c)) = hp_reply c"
  "nx_reply (snd (connect J u e cfg c)) = nx_reply c"
  "cl_proxies (snd (connect J u e cfg c)) = cl_proxies c"
  by (auto simp: connect_def Let_def setSession_def clearSession_def split: sum.splits option.splits)

lemma connect_failed_closes:
  "fst (connect J u e cfg c) = Inl x \<Longrightarrow>
     os_conns (snd (connect J u e cfg c)) \<subseteq> os_conns c"
  by (auto simp: connect_def Let_def clearSession_def split: sum.splits option.splits)

end
