(* ===== verification/Reload.thy ===== *)
theory Reload
  imports Client
begin

text \<open>
  Hot reload of \<^verbatim>\<open>internal/client/client.go\<close>: what \<^verbatim>\<open>Client.Reload\<close> asks for when the
  configuration has changed, as the list of its calls of \<^verbatim>\<open>registerProxy\<close> and
  \<^verbatim>\<open>closeProxyRPC\<close> in the order it makes them.
\<close>

section \<open>The requests of a reload\<close>

datatype task =
    TRegister ProxyCfg
  | TClose gostring
  | TDiff "gostring \<rightharpoonup> ProxyCfg" "gostring \<rightharpoonup> ProxyCfg"

definition proxyEqual :: "ProxyCfg \<Rightarrow> ProxyCfg \<Rightarrow> bool" where
  "proxyEqual a b \<longleftrightarrow>
     pc_Name a = pc_Name b \<and> pc_Type a = pc_Type b \<and> pc_Local a = pc_Local b \<and>
     pc_RemotePort a = pc_RemotePort b \<and> pc_Subdomain a = pc_Subdomain b \<and>
     SameStrings (pc_CustomDomains a) (pc_CustomDomains b)"

text \<open>The loop over the new proxies, then the loop over the old ones; \<open>ns\<close>, \<open>os\<close> are the map orders.\<close>

fun newTasks :: "(gostring \<rightharpoonup> ProxyCfg) \<Rightarrow> (gostring \<rightharpoonup> ProxyCfg) \<Rightarrow> gostring list \<Rightarrow> task list" where
  "newTasks oldM newM [] = []"
| "newTasks oldM newM (n # ns) =
     (case newM n of
        None \<Rightarrow> newTasks oldM newM ns
      | Some np \<Rightarrow>
          (case oldM n of
             None \<Rightarrow> TRegister np # newTasks oldM newM ns
           | Some opx \<Rightarrow>
               if proxyEqual opx np then newTasks oldM newM ns
               else TClose n # TRegister np # newTasks oldM newM ns))"

fun oldTasks :: "(gostring \<rightharpoonup> ProxyCfg) \<Rightarrow> gostring list \<Rightarrow> task list" where
  "oldTasks newM [] = []"
| "oldTasks newM (n # ns) =
     (if newM n = None then TClose n # oldTasks newM ns else oldTasks newM ns)"

definition reloadTasks ::
    "(gostring \<rightharpoonup> ProxyCfg) \<Rightarrow> (gostring \<rightharpoonup> ProxyCfg) \<Rightarrow> gostring list \<Rightarrow> gostring list \<Rightarrow> task list" where
  "reloadTasks oldM newM ns os = newTasks oldM newM ns @ oldTasks newM os"

text \<open>
  \<^verbatim>\<open>Reload\<close> up to the check of the session: a file that does not load changes nothing. The
  result is what is left to do.
\<close>

definition reloadConfig :: "cfg_error + ClientCfg \<Rightarrow> Client \<Rightarrow> task list \<times> Client" where
  "reloadConfig loaded c =
     (case loaded of
        Inl _ \<Rightarrow> ([], c)
      | Inr newCfg \<Rightarrow>
          let newM = buildProxyMap (cc_Proxies newCfg) Map.empty in
          ([TDiff (cl_proxies c) newM], c\<lparr>cl_cfg := newCfg, cl_proxies := newM\<rparr>))"

section \<open>What the requests are\<close>

lemma proxyEqual_refl: "proxyEqual p p"
  by (simp add: proxyEqual_def SameStrings_mset)

lemma newTasks_set:
  "TRegister p \<in> set (newTasks oldM newM ns) \<longleftrightarrow>
     (\<exists>n \<in> set ns. newM n = Some p \<and> (\<forall>q. oldM n = Some q \<longrightarrow> \<not> proxyEqual q p))"
  "TClose n \<in> set (newTasks oldM newM ns) \<longleftrightarrow>
     n \<in> set ns \<and> (\<exists>p q. newM n = Some p \<and> oldM n = Some q \<and> \<not> proxyEqual q p)"
  by (induction ns) (auto split: option.splits)

lemma oldTasks_set: "t \<in> set (oldTasks newM ns) \<longleftrightarrow> (\<exists>n \<in> set ns. newM n = None \<and> t = TClose n)"
  by (induction ns) auto

lemma oldTasks_Nil: "set ns \<subseteq> dom newM \<Longrightarrow> oldTasks newM ns = []"
  by (induction ns) auto

lemma newTasks_same: "newTasks m m ns = []"
  by (induction ns) (auto simp: proxyEqual_refl split: option.splits)

text \<open>Reloading an unchanged configuration asks for nothing.\<close>

lemma reload_unchanged: "set os = dom m \<Longrightarrow> reloadTasks m m ns os = []"
  by (simp add: reloadTasks_def newTasks_same oldTasks_Nil)

end
