(* ===== verification/ClientSys.thy ===== *)
theory ClientSys
  imports Reload
begin

text \<open>
  The client as a concurrent system: the goroutine of \<^verbatim>\<open>Run\<close>, the one that reloads on
  \<^verbatim>\<open>SIGHUP\<close>, and per connection a control loop, a writer and a pinger. They share the fields
  of the client, the pending table, \<^verbatim>\<open>writeCh\<close> and the reply channels.
\<close>

section \<open>Goroutines that make requests\<close>

text \<open>
  Where a request stands: none, in the first \<^verbatim>\<open>select\<close> of \<^verbatim>\<open>registerProxy\<close>, in the second,
  before its deferred function, or before the send of \<^verbatim>\<open>closeProxyRPC\<close>.
\<close>

datatype rpc =
    RNext
  | RSend kid int rid ProxyCfg
  | RWait int rid ProxyCfg
  | RLeave int "reg_error option" ProxyCfg
  | RClose kid gostring

record caller =
  ca_tasks :: "task list"
  ca_pc :: rpc
  ca_log :: "(gostring \<times> reg_error option) list"

datatype call_event =
    EvNext "gostring list" "gostring list"
  | EvSend
  | EvSendTimeout
  | EvReply
  | EvReplyTimeout
  | EvLeave

datatype call_result = CallOK Client caller | CallPanic

definition beginTask ::
    "gostring list \<Rightarrow> gostring list \<Rightarrow> Client \<Rightarrow> caller \<Rightarrow> call_result option" where
  "beginTask ns os c a =
     (case ca_tasks a of
        [] \<Rightarrow> None
      | TRegister p # ts \<Rightarrow>
          (case regBegin c of
             (None, c1) \<Rightarrow>
               Some (CallOK c1 (a\<lparr>ca_tasks := ts, ca_log := ca_log a @ [(pc_Name p, Some NotConnected)]\<rparr>))
           | (Some (k, reqID, ch), c1) \<Rightarrow>
               Some (CallOK c1 (a\<lparr>ca_tasks := ts, ca_pc := RSend k reqID ch p\<rparr>)))
      | TClose n # ts \<Rightarrow>
          Some (CallOK c (case cl_writeCh c of
                            None \<Rightarrow> a\<lparr>ca_tasks := ts\<rparr>
                          | Some k \<Rightarrow> a\<lparr>ca_tasks := ts, ca_pc := RClose k n\<rparr>))
      | TDiff oldM newM # ts \<Rightarrow>
          Some (CallOK c
            (a\<lparr>ca_tasks := (if getSession c = None then ts else reloadTasks oldM newM ns os @ ts)\<rparr>)))"

definition callerStep :: "call_event \<Rightarrow> Client \<Rightarrow> caller \<Rightarrow> call_result option" where
  "callerStep ev c a =
     (case (ca_pc a, ev) of
        (RNext, EvNext ns os) \<Rightarrow> beginTask ns os c a
      | (RSend k reqID ch p, EvSend) \<Rightarrow>
          (case chanSend (newProxyReq p reqID) (hp_chan c k) of
             Sent q \<Rightarrow> Some (CallOK (upd_chan k q c) (a\<lparr>ca_pc := RWait reqID ch p\<rparr>))
           | Blocked \<Rightarrow> None
           | SendPanic \<Rightarrow> Some CallPanic)
      | (RSend k reqID ch p, EvSendTimeout) \<Rightarrow>
          Some (CallOK c (a\<lparr>ca_pc := RLeave reqID (Some SendTimeout) p\<rparr>))
      | (RWait reqID ch p, EvReply) \<Rightarrow>
          (case replyRecv (hp_reply c ch) of
             None \<Rightarrow> None
           | Some (resp, q) \<Rightarrow>
               Some (CallOK (c\<lparr>hp_reply := (hp_reply c)(ch := q)\<rparr>)
                 (a\<lparr>ca_pc := RLeave reqID (replyResult resp) p\<rparr>)))
      | (RWait reqID ch p, EvReplyTimeout) \<Rightarrow>
          Some (CallOK c (a\<lparr>ca_pc := RLeave reqID (Some ReplyTimeout) p\<rparr>))
      | (RLeave reqID res p, EvLeave) \<Rightarrow>
          Some (CallOK (regLeave reqID c)
            (a\<lparr>ca_pc := RNext, ca_log := ca_log a @ [(pc_Name p, res)]\<rparr>))
      | (RClose k n, EvSend) \<Rightarrow>
          (case chanSend (closeProxyReq n) (hp_chan c k) of
             Sent q \<Rightarrow> Some (CallOK (upd_chan k q c) (a\<lparr>ca_pc := RNext\<rparr>))
           | Blocked \<Rightarrow> Some (CallOK c (a\<lparr>ca_pc := RNext\<rparr>))
           | SendPanic \<Rightarrow> Some CallPanic)
      | _ \<Rightarrow> None)"

section \<open>The system\<close>

datatype ctlpc = CtlRead | CtlBlocked rid NewProxyResp | CtlEnded ioerr

record cconn =
  cn_ctl :: ctlpc
  cn_writer :: bool
  cn_wire :: "writeReq list"
  cn_ping :: bool
  cn_stop :: bool

text \<open>
  The goroutine of \<^verbatim>\<open>Run\<close>: between attempts, dialling with the configuration it has read,
  before \<^verbatim>\<open>proxyList\<close>, registering, waiting for the control loop, and in the three steps
  that end \<^verbatim>\<open>runOnce\<close>.
\<close>

datatype mainpc =
    MIdle
  | MDial ClientCfg
  | MList kid
  | MTasks kid
  | MAwait kid
  | MStop kid
  | MClear kid
  | MReturned

datatype who = Main | Reloader

record csys =
  cli :: Client
  mpc :: mainpc
  callers :: "who \<Rightarrow> caller"
  conns :: "kid \<rightharpoonup> cconn"
  works :: "gostring list"
  streams :: "(nat \<times> nat) list"
  cancelled :: bool
  panicked :: bool

definition idle_caller :: caller where
  "idle_caller = \<lparr>ca_tasks = [], ca_pc = RNext, ca_log = []\<rparr>"

definition csys_init :: "ClientCfg \<Rightarrow> csys" where
  "csys_init cfg =
     \<lparr>cli = NewClient cfg, mpc = MIdle, callers = (\<lambda>_. idle_caller), conns = Map.empty,
      works = [], streams = [], cancelled = False, panicked = False\<rparr>"

datatype clabel =
    CCancel
  | CReturn
  | CAttempt
  | CFail dial_env run_error
  | CConnect dial_env kid
  | CList "gostring list"
  | CRegistered
  | CCloseWrite ioerr
  | CStopPing
  | CClear
  | CFrame kid byte bytes
  | CDeliverReply kid
  | CReadError kid ioerr
  | CWrite kid bool
  | CWriterEnd kid
  | CTick kid int
  | CTickPanic kid
  | CPingEnd kid
  | CCall who call_event
  | CCallPanic who
  | CReload "cfg_error + ClientCfg"
  | CWork work_env gostring

inductive cstep ::
    "client_decoders \<Rightarrow> (gostring \<Rightarrow> gostring) \<Rightarrow> csys \<Rightarrow> clabel \<Rightarrow> csys \<Rightarrow> bool"
  for J :: client_decoders and u :: "gostring \<Rightarrow> gostring" where
  c_cancel: "\<not> panicked s \<Longrightarrow> cstep J u s CCancel (s\<lparr>cancelled := True\<rparr>)"
| c_return: "\<not> panicked s \<Longrightarrow> mpc s = MIdle \<Longrightarrow> cancelled s \<Longrightarrow> cstep J u s CReturn (s\<lparr>mpc := MReturned\<rparr>)"
| c_attempt: "\<not> panicked s \<Longrightarrow> mpc s = MIdle \<Longrightarrow> \<not> cancelled s \<Longrightarrow>
    cstep J u s CAttempt (s\<lparr>mpc := MDial (cl_cfg (cli s))\<rparr>)"
| c_fail: "\<not> panicked s \<Longrightarrow> mpc s = MDial cfg \<Longrightarrow> connect J u e cfg (cli s) = (Inl x, c1) \<Longrightarrow>
    cstep J u s (CFail e x) (s\<lparr>cli := c1, mpc := MIdle\<rparr>)"
| c_connect: "\<not> panicked s \<Longrightarrow> mpc s = MDial cfg \<Longrightarrow> connect J u e cfg (cli s) = (Inr k, c1) \<Longrightarrow>
    cstep J u s (CConnect e k)
      (s\<lparr>cli := c1, mpc := MList k,
         conns := (conns s)(k \<mapsto> \<lparr>cn_ctl = CtlRead, cn_writer = True, cn_wire = [],
                                  cn_ping = True, cn_stop = False\<rparr>)\<rparr>)"
| c_list: "\<not> panicked s \<Longrightarrow> mpc s = MList k \<Longrightarrow> lists_map ord (cl_proxies (cli s)) \<Longrightarrow>
    cstep J u s (CList ord)
      (s\<lparr>mpc := MTasks k,
         callers := (callers s)(Main := (callers s Main)
           \<lparr>ca_tasks := List.map TRegister (proxyList ord (cli s))\<rparr>)\<rparr>)"
| c_registered: "\<not> panicked s \<Longrightarrow> mpc s = MTasks k \<Longrightarrow> ca_pc (callers s Main) = RNext \<Longrightarrow>
    ca_tasks (callers s Main) = [] \<Longrightarrow> cstep J u s CRegistered (s\<lparr>mpc := MAwait k\<rparr>)"
| c_close: "\<not> panicked s \<Longrightarrow> mpc s = MAwait k \<Longrightarrow> conns s k = Some n \<Longrightarrow> cn_ctl n = CtlEnded x \<Longrightarrow>
    cstep J u s (CCloseWrite x)
      (s\<lparr>cli := upd_chan k ((hp_chan (cli s) k)\<lparr>ch_closed := True\<rparr>) (cli s), mpc := MStop k\<rparr>)"
| c_stop: "\<not> panicked s \<Longrightarrow> mpc s = MStop k \<Longrightarrow> conns s k = Some n \<Longrightarrow>
    cstep J u s CStopPing (s\<lparr>mpc := MClear k, conns := (conns s)(k \<mapsto> n\<lparr>cn_stop := True\<rparr>)\<rparr>)"
| c_clear: "\<not> panicked s \<Longrightarrow> mpc s = MClear k \<Longrightarrow>
    cstep J u s CClear (s\<lparr>cli := clearSession (cli s), mpc := MIdle\<rparr>)"
| c_frame: "\<not> panicked s \<Longrightarrow> conns s k = Some n \<Longrightarrow> cn_ctl n = CtlRead \<Longrightarrow>
    clientFrame J (cli s) ty payload = act \<Longrightarrow>
    cstep J u s (CFrame k ty payload)
      (case act of
         CtlNothing \<Rightarrow> s
       | CtlWork name \<Rightarrow> s\<lparr>works := works s @ [name]\<rparr>
       | CtlDeliver ch resp \<Rightarrow> s\<lparr>conns := (conns s)(k \<mapsto> n\<lparr>cn_ctl := CtlBlocked ch resp\<rparr>)\<rparr>)"
| c_deliver: "\<not> panicked s \<Longrightarrow> conns s k = Some n \<Longrightarrow> cn_ctl n = CtlBlocked ch resp \<Longrightarrow>
    replySend resp (hp_reply (cli s) ch) = Some q \<Longrightarrow>
    cstep J u s (CDeliverReply k)
      (s\<lparr>cli := (cli s)\<lparr>hp_reply := (hp_reply (cli s))(ch := q)\<rparr>,
         conns := (conns s)(k \<mapsto> n\<lparr>cn_ctl := CtlRead\<rparr>)\<rparr>)"
| c_readerr: "\<not> panicked s \<Longrightarrow> conns s k = Some n \<Longrightarrow> cn_ctl n = CtlRead \<Longrightarrow>
    cstep J u s (CReadError k x) (s\<lparr>conns := (conns s)(k \<mapsto> n\<lparr>cn_ctl := CtlEnded x\<rparr>)\<rparr>)"
| c_write: "\<not> panicked s \<Longrightarrow> conns s k = Some n \<Longrightarrow> cn_writer n \<Longrightarrow>
    writeRecv (hp_chan (cli s) k) = Some (r, q) \<Longrightarrow>
    cstep J u s (CWrite k ok)
      (s\<lparr>cli := upd_chan k q (cli s),
         conns := (conns s)(k \<mapsto>
           (if ok then n\<lparr>cn_wire := cn_wire n @ [r]\<rparr> else n\<lparr>cn_writer := False\<rparr>))\<rparr>)"
| c_writer_end: "\<not> panicked s \<Longrightarrow> conns s k = Some n \<Longrightarrow> cn_writer n \<Longrightarrow>
    writeRecv (hp_chan (cli s) k) = None \<Longrightarrow> ch_closed (hp_chan (cli s) k) \<Longrightarrow>
    cstep J u s (CWriterEnd k) (s\<lparr>conns := (conns s)(k \<mapsto> n\<lparr>cn_writer := False\<rparr>)\<rparr>)"
| c_tick: "\<not> panicked s \<Longrightarrow> conns s k = Some n \<Longrightarrow> cn_ping n \<Longrightarrow> pingTick now k (cli s) = Some c1 \<Longrightarrow>
    cstep J u s (CTick k now) (s\<lparr>cli := c1\<rparr>)"
| c_tick_panic: "\<not> panicked s \<Longrightarrow> conns s k = Some n \<Longrightarrow> cn_ping n \<Longrightarrow> pingTick now k (cli s) = None \<Longrightarrow>
    cstep J u s (CTickPanic k) (s\<lparr>panicked := True\<rparr>)"
| c_ping_end: "\<not> panicked s \<Longrightarrow> conns s k = Some n \<Longrightarrow> cn_ping n \<Longrightarrow> cn_stop n \<Longrightarrow>
    cstep J u s (CPingEnd k) (s\<lparr>conns := (conns s)(k \<mapsto> n\<lparr>cn_ping := False\<rparr>)\<rparr>)"
| c_call: "\<not> panicked s \<Longrightarrow> (g = Main \<longrightarrow> (\<exists>k. mpc s = MTasks k)) \<Longrightarrow>
    callerStep ev (cli s) (callers s g) = Some (CallOK c1 a1) \<Longrightarrow>
    cstep J u s (CCall g ev) (s\<lparr>cli := c1, callers := (callers s)(g := a1)\<rparr>)"
| c_call_panic: "\<not> panicked s \<Longrightarrow> (g = Main \<longrightarrow> (\<exists>k. mpc s = MTasks k)) \<Longrightarrow>
    callerStep ev (cli s) (callers s g) = Some CallPanic \<Longrightarrow>
    cstep J u s (CCallPanic g) (s\<lparr>panicked := True\<rparr>)"
| c_reload: "\<not> panicked s \<Longrightarrow> ca_pc (callers s Reloader) = RNext \<Longrightarrow>
    ca_tasks (callers s Reloader) = [] \<Longrightarrow> reloadConfig loaded (cli s) = (ts, c1) \<Longrightarrow>
    cstep J u s (CReload loaded)
      (s\<lparr>cli := c1, callers := (callers s)(Reloader := (callers s Reloader)\<lparr>ca_tasks := ts\<rparr>)\<rparr>)"
| c_work: "\<not> panicked s \<Longrightarrow> name \<in> set (works s) \<Longrightarrow> handleWorkConn e (cli s) name = (st, closed) \<Longrightarrow>
    cstep J u s (CWork e name)
      (s\<lparr>works := remove1 name (works s),
         streams := (case st of None \<Rightarrow> streams s | Some x \<Rightarrow> streams s @ [x])\<rparr>)"

inductive_cases cstep_cases: "cstep J u s l t"

end
