(* ===== verification/Registry.thy ===== *)
theory Registry
  imports Proto Config
begin

text \<open>
  The server's tables (\<^verbatim>\<open>internal/server/server.go\<close>, \<^verbatim>\<open>proxy.go\<close>): sessions,
  registered proxies, the port index and the virtual host index, with the registration and removal
  operations that run under \<^verbatim>\<open>Server.mu\<close>. The Go pointers are addresses into an explicit
  heap, because the same \<^verbatim>\<open>Session\<close> and \<^verbatim>\<open>Proxy\<close> objects are shared by several maps.
\<close>

section \<open>State\<close>

type_synonym sid = nat
type_synonym pid = nat
type_synonym lid = nat
type_synonym cid = nat
type_synonym int64 = "64 word"

text \<open>A message the server writes on a control stream.\<close>

datatype smsg =
    SLoginResp LoginResp
  | SNewProxyResp NewProxyResp
  | SStartWorkConn StartWorkConn
  | SPong Pong

record Proxy =
  px_name :: gostring
  px_typ :: gostring
  px_clientID :: gostring
  px_local :: gostring
  px_remotePort :: int
  px_subdomain :: gostring
  px_customDomains :: "gostring list"
  px_hosts :: "gostring list"
  px_ln :: "lid option"
  px_visitors :: "cid list"
  px_session :: sid
  px_active :: int64

text \<open>
  \<open>se_closed\<close> is the state of \<^verbatim>\<open>closeOnce\<close>; \<open>se_sent\<close> is what has been written to the
  control stream.
\<close>

record Session =
  se_clientID :: gostring
  se_remoteAddr :: gostring
  se_conn :: cid
  se_loginAt :: int
  se_proxies :: "gostring \<rightharpoonup> pid"
  se_closed :: bool
  se_bytesIn :: int64
  se_bytesOut :: int64
  se_activeConns :: int64
  se_sent :: "smsg list"

text \<open>
  \<open>hp_session\<close> and \<open>hp_proxy\<close> are the Go heap (the addresses below \<open>nx_sid\<close> and \<open>nx_pid\<close> are
  allocated), \<open>os_listen\<close> the open visitor listeners with their ports and \<open>os_closed\<close> the
  connections the server has closed.
\<close>

record Server =
  sv_cfg :: ServerCfg
  sv_ranges :: "PortRange list"
  sv_tls :: bool
  sv_sessions :: "gostring \<rightharpoonup> sid"
  sv_proxies :: "gostring \<rightharpoonup> pid"
  sv_byPort :: "int \<rightharpoonup> pid"
  sv_vhost :: "gostring \<rightharpoonup> pid"
  sv_startedAt :: int
  hp_session :: "sid \<Rightarrow> Session"
  hp_proxy :: "pid \<Rightarrow> Proxy"
  os_listen :: "lid \<rightharpoonup> int"
  os_closed :: "cid set"
  nx_sid :: nat
  nx_pid :: nat
  nx_lid :: nat

definition visitorCap :: nat where "visitorCap = 32"

definition nilProxy :: Proxy where
  "nilProxy =
     \<lparr>px_name = [], px_typ = [], px_clientID = [], px_local = [], px_remotePort = 0,
      px_subdomain = [], px_customDomains = [], px_hosts = [], px_ln = None, px_visitors = [],
      px_session = 0, px_active = 0\<rparr>"

definition newSession :: "gostring \<Rightarrow> cid \<Rightarrow> gostring \<Rightarrow> int \<Rightarrow> Session" where
  "newSession clientID conn remoteAddr now =
     \<lparr>se_clientID = clientID, se_remoteAddr = remoteAddr, se_conn = conn, se_loginAt = now,
      se_proxies = Map.empty, se_closed = False, se_bytesIn = 0, se_bytesOut = 0,
      se_activeConns = 0, se_sent = []\<rparr>"

abbreviation upd_session :: "sid \<Rightarrow> (Session \<Rightarrow> Session) \<Rightarrow> Server \<Rightarrow> Server" where
  "upd_session i f s \<equiv> s\<lparr>hp_session := (hp_session s)(i := f (hp_session s i))\<rparr>"

abbreviation upd_proxy :: "pid \<Rightarrow> (Proxy \<Rightarrow> Proxy) \<Rightarrow> Server \<Rightarrow> Server" where
  "upd_proxy p f s \<equiv> s\<lparr>hp_proxy := (hp_proxy s)(p := f (hp_proxy s p))\<rparr>"

text \<open>
  \<^verbatim>\<open>New\<close>: parse the white list, load the certificate (\<open>loadCert\<close> answers for
  \<^verbatim>\<open>tls.LoadX509KeyPair\<close>) and create the empty tables.
\<close>

definition emptyServer :: "ServerCfg \<Rightarrow> PortRange list \<Rightarrow> bool \<Rightarrow> int \<Rightarrow> Server" where
  "emptyServer cfg ranges tls now =
     \<lparr>sv_cfg = cfg, sv_ranges = ranges, sv_tls = tls, sv_sessions = Map.empty,
      sv_proxies = Map.empty, sv_byPort = Map.empty, sv_vhost = Map.empty, sv_startedAt = now,
      hp_session = (\<lambda>_. newSession [] 0 [] 0), hp_proxy = (\<lambda>_. nilProxy),
      os_listen = Map.empty, os_closed = {}, nx_sid = 0, nx_pid = 0, nx_lid = 0\<rparr>"

datatype new_error = NewRanges cfg_error | NewCert gostring

definition New ::
    "(gostring \<Rightarrow> gostring \<Rightarrow> gostring option) \<Rightarrow> int \<Rightarrow> ServerCfg \<Rightarrow> new_error + Server" where
  "New loadCert now cfg =
     (case ParsePortRanges (sc_AllowPorts cfg) of
        Inl e \<Rightarrow> Inl (NewRanges e)
      | Inr ranges \<Rightarrow>
          if tls_Cert (sc_TLS cfg) \<noteq> [] \<and> tls_Key (sc_TLS cfg) \<noteq> []
          then (case loadCert (tls_Cert (sc_TLS cfg)) (tls_Key (sc_TLS cfg)) of
                  Some e \<Rightarrow> Inl (NewCert e)
                | None \<Rightarrow> Inr (emptyServer cfg ranges True now))
          else Inr (emptyServer cfg ranges False now))"

section \<open>Ports\<close>

definition proxyKey :: "gostring \<Rightarrow> gostring \<Rightarrow> gostring" where
  "proxyKey clientID name = clientID @ ''/'' @ name"

fun portAllowedIn :: "PortRange list \<Rightarrow> int \<Rightarrow> bool" where
  "portAllowedIn [] port = False"
| "portAllowedIn (r # rs) port = (if Contains r port then True else portAllowedIn rs port)"

definition portAllowed :: "Server \<Rightarrow> int \<Rightarrow> bool" where
  "portAllowed s port = portAllowedIn (sv_ranges s) port"

text \<open>\<^verbatim>\<open>allocPortLocked\<close>: the first port of the first range that is not in use; 0 if there is none.\<close>

function allocRange :: "(int \<rightharpoonup> pid) \<Rightarrow> int \<Rightarrow> int \<Rightarrow> int option" where
  "allocRange byPort p mx =
     (if p \<le> mx then (if byPort p = None then Some p else allocRange byPort (p + 1) mx) else None)"
  by pat_completeness auto
termination
  by (relation "measure (\<lambda>(b, p, mx). nat (mx - p + 1))") auto

declare allocRange.simps [simp del]

fun allocRanges :: "(int \<rightharpoonup> pid) \<Rightarrow> PortRange list \<Rightarrow> int" where
  "allocRanges byPort [] = 0"
| "allocRanges byPort (r # rs) =
     (case allocRange byPort (pr_Min r) (pr_Max r) of
        Some p \<Rightarrow> p | None \<Rightarrow> allocRanges byPort rs)"

definition allocPortLocked :: "Server \<Rightarrow> int" where
  "allocPortLocked s = allocRanges (sv_byPort s) (sv_ranges s)"

lemma portAllowedIn_iff: "portAllowedIn rs port \<longleftrightarrow> (\<exists>r \<in> set rs. Contains r port)"
  by (induction rs) auto

lemma allocRange_Some:
  "allocRange b p mx = Some q \<Longrightarrow> p \<le> q \<and> q \<le> mx \<and> b q = None \<and> (\<forall>x. p \<le> x \<longrightarrow> x < q \<longrightarrow> b x \<noteq> None)"
proof (induction b p mx rule: allocRange.induct)
  case (1 b p mx)
  show ?case
  proof (cases "p \<le> mx \<and> b p \<noteq> None")
    case True
    with 1 have ih: "p + 1 \<le> q \<and> q \<le> mx \<and> b q = None \<and> (\<forall>x. p + 1 \<le> x \<longrightarrow> x < q \<longrightarrow> b x \<noteq> None)"
      by (auto simp: allocRange.simps [of b p mx])
    with True show ?thesis by (metis add_le_same_cancel1 linorder_not_less order.trans
        order_le_less zless_add1_eq zero_less_one_class.zero_le_one)
  next
    case False
    with "1.prems" show ?thesis by (auto simp: allocRange.simps [of b p mx] split: if_splits)
  qed
qed

lemma allocRange_None:
  "allocRange b p mx = None \<Longrightarrow> p \<le> x \<Longrightarrow> x \<le> mx \<Longrightarrow> b x \<noteq> None"
proof (induction b p mx rule: allocRange.induct)
  case (1 b p mx)
  then show ?case
    by (cases "x = p") (auto simp: allocRange.simps [of b p mx] split: if_splits)
qed

text \<open>
  The pool hands out a free white-listed port, and answers 0 only when every white-listed port
  is taken.
\<close>

lemma allocRanges_cases:
  assumes "\<forall>r \<in> set rs. valid_range r"
  shows "(allocRanges b rs \<noteq> 0 \<longrightarrow>
      b (allocRanges b rs) = None \<and> portAllowedIn rs (allocRanges b rs) \<and>
      0 < allocRanges b rs \<and> allocRanges b rs \<le> 65535) \<and>
    (allocRanges b rs = 0 \<longleftrightarrow> (\<forall>port. portAllowedIn rs port \<longrightarrow> b port \<noteq> None))"
  using assms
proof (induction rs)
  case (Cons r rs)
  show ?case
  proof (cases "allocRange b (pr_Min r) (pr_Max r)")
    case None
    from allocRange_None [OF None] have c: "\<And>x. Contains r x \<Longrightarrow> b x \<noteq> None"
      by (auto simp: Contains_def)
    from c have iff: "(\<forall>port. portAllowedIn (r # rs) port \<longrightarrow> b port \<noteq> None) \<longleftrightarrow>
        (\<forall>port. portAllowedIn rs port \<longrightarrow> b port \<noteq> None)" by (metis portAllowedIn.simps(2))
    from None have e: "allocRanges b (r # rs) = allocRanges b rs" by simp
    from Cons.IH Cons.prems show ?thesis unfolding e iff by simp
  next
    case (Some q)
    from allocRange_Some [OF Some] Cons.prems Some show ?thesis
      by (auto simp: Contains_def valid_range_def)
  qed
qed simp

section \<open>Registration and removal\<close>

text \<open>\<^verbatim>\<open>normalizeHost\<close>: lower case, no surrounding white space, no trailing dot.\<close>

definition normalizeHost :: "(gostring \<Rightarrow> gostring) \<Rightarrow> gostring \<Rightarrow> gostring" where
  "normalizeHost ucase h = TrimSuffix (ToLower ucase (TrimSpace h)) ''.''"

definition sameConfig :: "Proxy \<Rightarrow> NewProxy \<Rightarrow> bool" where
  "sameConfig p np =
     (if px_typ p \<noteq> np_Type np \<or> px_local p \<noteq> np_Local np then False
      else if px_typ p = ''tcp'' then px_remotePort p = np_RemotePort np
      else px_subdomain p = np_Subdomain np \<and>
           SameStrings (px_customDomains p) (np_CustomDomains np))"

definition okResp :: "NewProxy \<Rightarrow> int \<Rightarrow> NewProxyResp" where
  "okResp np port =
     \<lparr>nr_ReqID = np_ReqID np, nr_Name = np_Name np, nr_OK = True, nr_RemotePort = port, nr_Error = None\<rparr>"

definition errResp :: "NewProxy \<Rightarrow> errmsg \<Rightarrow> NewProxyResp" where
  "errResp np e =
     \<lparr>nr_ReqID = np_ReqID np, nr_Name = np_Name np, nr_OK = False, nr_RemotePort = 0, nr_Error = Some e\<rparr>"

definition tcpProxy :: "Session \<Rightarrow> sid \<Rightarrow> NewProxy \<Rightarrow> int \<Rightarrow> lid \<Rightarrow> Proxy" where
  "tcpProxy se i np port ln =
     \<lparr>px_name = np_Name np, px_typ = np_Type np, px_clientID = se_clientID se, px_local = np_Local np,
      px_remotePort = port, px_subdomain = [], px_customDomains = [], px_hosts = [],
      px_ln = Some ln, px_visitors = [], px_session = i, px_active = 0\<rparr>"

text \<open>
  \<^verbatim>\<open>registerTCPProxy\<close>; \<open>bind\<close> is the error of \<^verbatim>\<open>net.Listen\<close>, should it be called.
\<close>

definition registerTCPProxy ::
    "Server \<Rightarrow> sid \<Rightarrow> NewProxy \<Rightarrow> gostring option \<Rightarrow> NewProxyResp \<times> Server" where
  "registerTCPProxy s i np bind =
     (if SplitHostPort (np_Local np) = None then (errResp np InvalidLocalAddress, s)
      else if np_RemotePort np \<noteq> 0 \<and> \<not> portAllowed s (np_RemotePort np)
      then (errResp np (INVALID_PORT (np_RemotePort np) (sc_AllowPorts (sv_cfg s))), s)
      else
        let se = hp_session s i; key = proxyKey (se_clientID se) (np_Name np) in
        case sv_proxies s key of
          Some old \<Rightarrow>
            if sameConfig (hp_proxy s old) np
            then (okResp np (px_remotePort (hp_proxy s old)), s)
            else (errResp np NAME_EXISTS, s)
        | None \<Rightarrow>
            let port = (if np_RemotePort np = 0 then allocPortLocked s else np_RemotePort np) in
            if port = 0 then (errResp np PORT_POOL_FULL, s)
            else if sv_byPort s port \<noteq> None then (errResp np (PORT_IN_USE port), s)
            else (case bind of
                    Some e \<Rightarrow> (errResp np (BIND_FAILED e), s)
                  | None \<Rightarrow>
                      let ln = nx_lid s; p = nx_pid s in
                      (okResp np port,
                       s\<lparr>os_listen := (os_listen s)(ln \<mapsto> port), nx_lid := ln + 1,
                         hp_proxy := (hp_proxy s)(p := tcpProxy se i np port ln), nx_pid := p + 1,
                         sv_proxies := (sv_proxies s)(key \<mapsto> p),
                         sv_byPort := (sv_byPort s)(port \<mapsto> p),
                         hp_session := (hp_session s)
                           (i := se\<lparr>se_proxies := (se_proxies se)(np_Name np \<mapsto> p)\<rparr>)\<rparr>)))"

definition httpHosts :: "(gostring \<Rightarrow> gostring) \<Rightarrow> Server \<Rightarrow> NewProxy \<Rightarrow> gostring list" where
  "httpHosts ucase s np =
     map (normalizeHost ucase) (np_CustomDomains np) @
     (if np_Subdomain np \<noteq> []
      then [normalizeHost ucase (np_Subdomain np) @ ''.'' @
            normalizeHost ucase (sc_VhostDomain (sv_cfg s))]
      else [])"

definition httpProxy :: "Session \<Rightarrow> sid \<Rightarrow> NewProxy \<Rightarrow> gostring list \<Rightarrow> Proxy" where
  "httpProxy se i np hosts =
     \<lparr>px_name = np_Name np, px_typ = np_Type np, px_clientID = se_clientID se, px_local = np_Local np,
      px_remotePort = 0, px_subdomain = np_Subdomain np, px_customDomains = np_CustomDomains np,
      px_hosts = hosts, px_ln = None, px_visitors = [], px_session = i, px_active = 0\<rparr>"

text \<open>The loop that looks for the first host that is taken.\<close>

fun firstTaken :: "(gostring \<rightharpoonup> pid) \<Rightarrow> gostring list \<Rightarrow> gostring option" where
  "firstTaken vh [] = None"
| "firstTaken vh (h # hs) = (if vh h \<noteq> None then Some h else firstTaken vh hs)"

definition registerHTTPProxy ::
    "(gostring \<Rightarrow> gostring) \<Rightarrow> Server \<Rightarrow> sid \<Rightarrow> NewProxy \<Rightarrow> NewProxyResp \<times> Server" where
  "registerHTTPProxy ucase s i np =
     (if sc_VhostHTTPPort (sv_cfg s) = 0 then (errResp np VHOST_DISABLED, s)
      else if np_Subdomain np = [] \<and> length (np_CustomDomains np) = 0
      then (errResp np VHOST_REQUIRED, s)
      else if np_Subdomain np \<noteq> [] \<and> sc_VhostDomain (sv_cfg s) = []
      then (errResp np VHOST_NEED_DOMAIN, s)
      else if SplitHostPort (np_Local np) = None then (errResp np InvalidLocalAddress, s)
      else
        let hosts = httpHosts ucase s np; se = hp_session s i;
            key = proxyKey (se_clientID se) (np_Name np) in
        case sv_proxies s key of
          Some old \<Rightarrow>
            if sameConfig (hp_proxy s old) np then (okResp np 0, s)
            else (errResp np NAME_EXISTS, s)
        | None \<Rightarrow>
            (case firstTaken (sv_vhost s) hosts of
               Some h \<Rightarrow> (errResp np (VHOST_CONFLICT h), s)
             | None \<Rightarrow>
                 let p = nx_pid s in
                 (okResp np 0,
                  s\<lparr>hp_proxy := (hp_proxy s)(p := httpProxy se i np hosts), nx_pid := p + 1,
                    sv_proxies := (sv_proxies s)(key \<mapsto> p),
                    hp_session := (hp_session s)
                      (i := se\<lparr>se_proxies := (se_proxies se)(np_Name np \<mapsto> p)\<rparr>),
                    sv_vhost := store_all hosts p (sv_vhost s)\<rparr>)))"

definition registerProxy ::
    "(gostring \<Rightarrow> gostring) \<Rightarrow> Server \<Rightarrow> sid \<Rightarrow> NewProxy \<Rightarrow> gostring option \<Rightarrow> NewProxyResp \<times> Server" where
  "registerProxy ucase s i np bind =
     (if np_Type np = ''tcp'' then registerTCPProxy s i np bind
      else if np_Type np = ''http'' then registerHTTPProxy ucase s i np
      else (errResp np (UnsupportedType (np_Type np)), s))"

text \<open>\<^verbatim>\<open>removeProxyLocked\<close>, with the loop that closes the waiting visitors.\<close>

definition removeProxyLocked :: "Server \<Rightarrow> pid \<Rightarrow> Server" where
  "removeProxyLocked s p =
     (let P = hp_proxy s p; i = px_session P; se = hp_session s i in
      s\<lparr>sv_proxies := (sv_proxies s)(proxyKey (px_clientID P) (px_name P) := None),
        hp_session := (hp_session s)(i := se\<lparr>se_proxies := (se_proxies se)(px_name P := None)\<rparr>),
        sv_byPort := (if px_remotePort P \<noteq> 0 then (sv_byPort s)(px_remotePort P := None) else sv_byPort s),
        sv_vhost := delete_all (px_hosts P) (sv_vhost s),
        os_listen := (case px_ln P of None \<Rightarrow> os_listen s | Some l \<Rightarrow> (os_listen s)(l := None)),
        os_closed := os_closed s \<union> set (px_visitors P),
        hp_proxy := (hp_proxy s)(p := P\<lparr>px_visitors := []\<rparr>)\<rparr>)"

definition closeProxy :: "Server \<Rightarrow> sid \<Rightarrow> gostring \<Rightarrow> Server" where
  "closeProxy s i name =
     (case se_proxies (hp_session s i) name of None \<Rightarrow> s | Some p \<Rightarrow> removeProxyLocked s p)"

text \<open>
  The loop of \<^verbatim>\<open>dropSession\<close> over \<^verbatim>\<open>se.proxies\<close>; Go leaves the iteration order open, so
  it is the argument \<open>ord\<close>. An entry removed during the iteration is not visited.
\<close>

fun dropLoop :: "gostring list \<Rightarrow> sid \<Rightarrow> Server \<Rightarrow> Server" where
  "dropLoop [] i s = s"
| "dropLoop (n # ns) i s =
     (case se_proxies (hp_session s i) n of
        None \<Rightarrow> dropLoop ns i s | Some p \<Rightarrow> dropLoop ns i (removeProxyLocked s p))"

definition dropSession :: "gostring list \<Rightarrow> Server \<Rightarrow> sid \<Rightarrow> Server" where
  "dropSession ord s i =
     (let c = se_clientID (hp_session s i);
          s1 = (if sv_sessions s c = Some i then s\<lparr>sv_sessions := (sv_sessions s)(c := None)\<rparr> else s)
      in dropLoop ord i s1)"

text \<open>\<^verbatim>\<open>Session.Close\<close>: runs once.\<close>

definition CloseSession :: "gostring list \<Rightarrow> Server \<Rightarrow> sid \<Rightarrow> Server" where
  "CloseSession ord s i =
     (if se_closed (hp_session s i) then s
      else let s1 = dropSession ord s i in
        (upd_session i (\<lambda>se. se\<lparr>se_closed := True\<rparr>) s1)
          \<lparr>os_closed := insert (se_conn (hp_session s i)) (os_closed s1)\<rparr>)"

end
