(* ===== verification/RegistryInv.thy ===== *)
theory RegistryInv
  imports Registry
begin

text \<open>
  The invariant of the server's tables and its preservation by registration and removal: every
  index (session proxies, ports, hosts, listeners) is exactly the projection of the set of
  registered proxies.
\<close>

section \<open>Invariant\<close>

definition pkey :: "Proxy \<Rightarrow> gostring" where
  "pkey P = proxyKey (px_clientID P) (px_name P)"

text \<open>A proxy object is registered when the main table points to it under its own key.\<close>

definition registered :: "Server \<Rightarrow> pid \<Rightarrow> bool" where
  "registered s p \<longleftrightarrow> sv_proxies s (pkey (hp_proxy s p)) = Some p"

definition inv_keys :: "Server \<Rightarrow> bool" where
  "inv_keys s \<longleftrightarrow>
     (\<forall>k p. sv_proxies s k = Some p \<longrightarrow>
        k = pkey (hp_proxy s p) \<and> p < nx_pid s \<and> px_session (hp_proxy s p) < nx_sid s \<and>
        se_clientID (hp_session s (px_session (hp_proxy s p))) = px_clientID (hp_proxy s p))"

definition inv_owner :: "Server \<Rightarrow> bool" where
  "inv_owner s \<longleftrightarrow>
     (\<forall>i n p. se_proxies (hp_session s i) n = Some p \<longleftrightarrow>
        registered s p \<and> px_session (hp_proxy s p) = i \<and> px_name (hp_proxy s p) = n)"

definition inv_ports :: "Server \<Rightarrow> bool" where
  "inv_ports s \<longleftrightarrow>
     (\<forall>port p. sv_byPort s port = Some p \<longleftrightarrow>
        registered s p \<and> px_remotePort (hp_proxy s p) = port \<and> port \<noteq> 0) \<and>
     (\<forall>p. registered s p \<longrightarrow> px_remotePort (hp_proxy s p) \<noteq> 0 \<longrightarrow>
        portAllowed s (px_remotePort (hp_proxy s p)))"

definition inv_hosts :: "Server \<Rightarrow> bool" where
  "inv_hosts s \<longleftrightarrow>
     (\<forall>h p. sv_vhost s h = Some p \<longleftrightarrow> registered s p \<and> h \<in> set (px_hosts (hp_proxy s p)))"

definition inv_listen :: "Server \<Rightarrow> bool" where
  "inv_listen s \<longleftrightarrow>
     (\<forall>l port. os_listen s l = Some port \<longleftrightarrow>
        (\<exists>p. registered s p \<and> px_ln (hp_proxy s p) = Some l \<and> px_remotePort (hp_proxy s p) = port)) \<and>
     (\<forall>p. registered s p \<longrightarrow> (px_ln (hp_proxy s p) = None \<longleftrightarrow> px_remotePort (hp_proxy s p) = 0)) \<and>
     (\<forall>p l. px_ln (hp_proxy s p) = Some l \<longrightarrow> l < nx_lid s) \<and>
     (\<forall>p q l. px_ln (hp_proxy s p) = Some l \<longrightarrow> px_ln (hp_proxy s q) = Some l \<longrightarrow> p = q)"

definition inv_queues :: "Server \<Rightarrow> bool" where
  "inv_queues s \<longleftrightarrow> (\<forall>p. length (px_visitors (hp_proxy s p)) \<le> visitorCap)"

definition inv_sessions :: "Server \<Rightarrow> bool" where
  "inv_sessions s \<longleftrightarrow>
     (\<forall>c i. sv_sessions s c = Some i \<longrightarrow>
        i < nx_sid s \<and> se_clientID (hp_session s i) = c \<and> \<not> se_closed (hp_session s i))"

definition inv_ranges :: "Server \<Rightarrow> bool" where
  "inv_ranges s \<longleftrightarrow> (\<forall>r \<in> set (sv_ranges s). valid_range r)"

definition reg_inv :: "Server \<Rightarrow> bool" where
  "reg_inv s \<longleftrightarrow>
     inv_ranges s \<and> inv_keys s \<and> inv_owner s \<and> inv_ports s \<and> inv_hosts s \<and> inv_listen s \<and> inv_queues s \<and>
     inv_sessions s"

lemmas reg_inv_defs =
  reg_inv_def inv_ranges_def inv_keys_def inv_owner_def inv_ports_def inv_hosts_def inv_listen_def inv_queues_def
  inv_sessions_def

lemma reg_inv_emptyServer [reg_intros]:
  "\<forall>r \<in> set ranges. valid_range r \<Longrightarrow> reg_inv (emptyServer cfg ranges tls now)"
  by (simp add: reg_inv_defs registered_def emptyServer_def newSession_def nilProxy_def)

lemma registered_bound: "inv_keys s \<Longrightarrow> registered s p \<Longrightarrow> p < nx_pid s"
  by (auto simp: inv_keys_def registered_def)

lemma registered_owner:
  "inv_keys s \<Longrightarrow> registered s p \<Longrightarrow>
     px_session (hp_proxy s p) < nx_sid s \<and>
     se_clientID (hp_session s (px_session (hp_proxy s p))) = px_clientID (hp_proxy s p)"
  by (auto simp: inv_keys_def registered_def)

lemma registered_port:
  "inv_ports s \<Longrightarrow> registered s p \<Longrightarrow> px_remotePort (hp_proxy s p) \<noteq> 0 \<Longrightarrow>
     sv_byPort s (px_remotePort (hp_proxy s p)) = Some p"
  by (simp add: inv_ports_def)

lemma registered_host:
  "inv_hosts s \<Longrightarrow> registered s p \<Longrightarrow> h \<in> set (px_hosts (hp_proxy s p)) \<Longrightarrow> sv_vhost s h = Some p"
  by (simp add: inv_hosts_def)

lemma port_unique:
  assumes "inv_ports s" "registered s p" "registered s q" "px_remotePort (hp_proxy s p) \<noteq> 0"
    "px_remotePort (hp_proxy s q) = px_remotePort (hp_proxy s p)"
  shows "q = p"
  by (metis assms registered_port option.inject)

lemma host_unique:
  assumes "inv_hosts s" "registered s p" "registered s q" "h \<in> set (px_hosts (hp_proxy s p))"
    "h \<in> set (px_hosts (hp_proxy s q))"
  shows "q = p"
  by (metis assms registered_host option.inject)

section \<open>Adding a proxy\<close>

text \<open>Both registrations end in the same way: a new object enters every table it belongs to.\<close>

definition installProxy :: "Server \<Rightarrow> Proxy \<Rightarrow> Server" where
  "installProxy s P =
     (let p = nx_pid s; i = px_session P; se = hp_session s i in
      s\<lparr>hp_proxy := (hp_proxy s)(p := P), nx_pid := p + 1,
        sv_proxies := (sv_proxies s)(pkey P \<mapsto> p),
        hp_session := (hp_session s)(i := se\<lparr>se_proxies := (se_proxies se)(px_name P \<mapsto> p)\<rparr>),
        sv_byPort := (if px_remotePort P \<noteq> 0 then (sv_byPort s)(px_remotePort P \<mapsto> p) else sv_byPort s),
        sv_vhost := store_all (px_hosts P) p (sv_vhost s),
        os_listen := (case px_ln P of None \<Rightarrow> os_listen s
                      | Some l \<Rightarrow> (os_listen s)(l \<mapsto> px_remotePort P)),
        nx_lid := (case px_ln P of None \<Rightarrow> nx_lid s | Some l \<Rightarrow> l + 1)\<rparr>)"

definition installable :: "Server \<Rightarrow> Proxy \<Rightarrow> bool" where
  "installable s P \<longleftrightarrow>
     px_session P < nx_sid s \<and> px_clientID P = se_clientID (hp_session s (px_session P)) \<and>
     sv_proxies s (pkey P) = None \<and>
     (px_remotePort P \<noteq> 0 \<longrightarrow> sv_byPort s (px_remotePort P) = None \<and> portAllowed s (px_remotePort P)) \<and>
     (\<forall>h \<in> set (px_hosts P). sv_vhost s h = None) \<and>
     px_ln P = (if px_remotePort P = 0 then None else Some (nx_lid s)) \<and> px_visitors P = []"

lemma installProxy_fields [reg_simps]:
  "hp_proxy (installProxy s P) = (hp_proxy s)(nx_pid s := P)"
  "sv_proxies (installProxy s P) = (sv_proxies s)(pkey P \<mapsto> nx_pid s)"
  "sv_sessions (installProxy s P) = sv_sessions s"
  "sv_ranges (installProxy s P) = sv_ranges s"
  "sv_cfg (installProxy s P) = sv_cfg s"
  "nx_sid (installProxy s P) = nx_sid s"
  "nx_pid (installProxy s P) = nx_pid s + 1"
  "os_closed (installProxy s P) = os_closed s"
  "se_clientID (hp_session (installProxy s P) i) = se_clientID (hp_session s i)"
  "se_closed (hp_session (installProxy s P) i) = se_closed (hp_session s i)"
  "se_proxies (hp_session (installProxy s P) i) =
     (if i = px_session P then (se_proxies (hp_session s i))(px_name P \<mapsto> nx_pid s)
      else se_proxies (hp_session s i))"
  "sv_byPort (installProxy s P) =
     (if px_remotePort P \<noteq> 0 then (sv_byPort s)(px_remotePort P \<mapsto> nx_pid s) else sv_byPort s)"
  "sv_vhost (installProxy s P) = store_all (px_hosts P) (nx_pid s) (sv_vhost s)"
  "os_listen (installProxy s P) =
     (case px_ln P of None \<Rightarrow> os_listen s | Some l \<Rightarrow> (os_listen s)(l \<mapsto> px_remotePort P))"
  "nx_lid (installProxy s P) = (case px_ln P of None \<Rightarrow> nx_lid s | Some l \<Rightarrow> l + 1)"
  "portAllowed (installProxy s P) port = portAllowed s port"
  by (simp_all add: installProxy_def Let_def portAllowed_def)

lemma install_registered:
  assumes "inv_keys s" "sv_proxies s (pkey P) = None"
  shows "registered (installProxy s P) q \<longleftrightarrow> q = nx_pid s \<or> registered s q"
  using assms by (auto simp: registered_def reg_simps inv_keys_def)

lemma install_listen:
  assumes inv: "inv_listen s" and k: "inv_keys s" and P: "installable s P"
  shows "inv_listen (installProxy s P)"
proof -
  let ?s = "installProxy s P"
  from P have new: "sv_proxies s (pkey P) = None" by (simp add: installable_def)
  note reg = install_registered [OF k new]
  have fresh: "\<not> registered s (nx_pid s)" using registered_bound [OF k] by blast
  have nl: "px_ln (hp_proxy s p) = Some l \<Longrightarrow> l < nx_lid s" for p l
    using inv by (simp add: inv_listen_def)
  have open_iff: "os_listen s l = Some port \<longleftrightarrow>
      (\<exists>p. registered s p \<and> px_ln (hp_proxy s p) = Some l \<and> px_remotePort (hp_proxy s p) = port)" for l port
    using inv by (simp add: inv_listen_def)
  have "os_listen ?s l = Some port \<longleftrightarrow>
      (\<exists>p. registered ?s p \<and> px_ln (hp_proxy ?s p) = Some l \<and> px_remotePort (hp_proxy ?s p) = port)" for l port
  proof (cases "px_ln P = Some l")
    case True
    with P have l: "l = nx_lid s" by (auto simp: installable_def split: if_splits)
    have "os_listen ?s l = Some port \<longleftrightarrow> px_remotePort P = port" using True by (simp add: reg_simps)
    moreover have "px_ln (hp_proxy ?s p) = Some l \<longleftrightarrow> p = nx_pid s" for p
      using True nl [of p l] l by (auto simp: reg_simps)
    ultimately show ?thesis by (auto simp: reg reg_simps)
  next
    case False
    then have same: "os_listen ?s l = os_listen s l" by (auto simp: reg_simps split: option.splits)
    have iff: "registered ?s p \<and> px_ln (hp_proxy ?s p) = Some l \<and> px_remotePort (hp_proxy ?s p) = port \<longleftrightarrow>
        registered s p \<and> px_ln (hp_proxy s p) = Some l \<and> px_remotePort (hp_proxy s p) = port" for p
      using False fresh by (auto simp: reg reg_simps)
    show ?thesis unfolding same open_iff iff ..
  qed
  moreover have "registered ?s p \<Longrightarrow> px_ln (hp_proxy ?s p) = None \<longleftrightarrow> px_remotePort (hp_proxy ?s p) = 0" for p
    using inv P by (auto simp: inv_listen_def reg reg_simps installable_def)
  moreover have "px_ln (hp_proxy ?s p) = Some l \<Longrightarrow> l < nx_lid ?s" for p l
    using nl [of p l] P by (auto simp: reg_simps installable_def split: if_splits)
  moreover have "px_ln (hp_proxy ?s p) = Some l \<Longrightarrow> px_ln (hp_proxy ?s q) = Some l \<Longrightarrow> p = q" for p q l
    using inv P nl [of p l] nl [of q l]
    by (auto simp: inv_listen_def reg_simps installable_def split: if_splits)
  ultimately show ?thesis by (auto simp: inv_listen_def)
qed

lemma install_inv [reg_intros]:
  assumes inv: "reg_inv s" and P: "installable s P"
  shows "reg_inv (installProxy s P)"
proof -
  let ?s = "installProxy s P"
  from inv have k: "inv_keys s" by (simp add: reg_inv_def)
  from P have new: "sv_proxies s (pkey P) = None" by (simp add: installable_def)
  note reg = install_registered [OF k new]
  have fresh: "\<not> registered s (nx_pid s)" using registered_bound [OF k] by blast
  have nokey: "registered s q \<Longrightarrow> pkey (hp_proxy s q) \<noteq> pkey P" for q
    using new by (auto simp: registered_def)
  have "inv_keys ?s"
    using inv P by (auto simp: reg_inv_def inv_keys_def reg_simps installable_def less_Suc_eq)
  moreover have "inv_owner ?s"
    unfolding inv_owner_def
  proof (intro allI)
    fix i n p
    have old: "se_proxies (hp_session s i) n = Some p \<longleftrightarrow>
        registered s p \<and> px_session (hp_proxy s p) = i \<and> px_name (hp_proxy s p) = n"
      using inv by (simp add: reg_inv_def inv_owner_def)
    have "registered s p \<Longrightarrow> px_session (hp_proxy s p) = px_session P \<Longrightarrow>
        px_name (hp_proxy s p) \<noteq> px_name P"
      using nokey [of p] registered_owner [OF k, of p] P by (auto simp: pkey_def installable_def)
    with old fresh show "se_proxies (hp_session ?s i) n = Some p \<longleftrightarrow>
        registered ?s p \<and> px_session (hp_proxy ?s p) = i \<and> px_name (hp_proxy ?s p) = n"
      by (auto simp: reg_simps reg)
  qed
  moreover have "inv_ports ?s"
  proof -
    from inv have ip: "inv_ports s" by (simp add: reg_inv_def)
    have free: "registered s p \<Longrightarrow> px_remotePort P \<noteq> 0 \<Longrightarrow>
        px_remotePort (hp_proxy s p) \<noteq> px_remotePort P" for p
      using registered_port [OF ip, of p] P by (auto simp: installable_def)
    from ip P fresh free show ?thesis
      by (auto simp: inv_ports_def reg_simps reg installable_def)
  qed
  moreover have "inv_hosts ?s"
  proof -
    from inv have ih: "inv_hosts s" by (simp add: reg_inv_def)
    have free: "registered s p \<Longrightarrow> h \<in> set (px_hosts P) \<Longrightarrow> h \<notin> set (px_hosts (hp_proxy s p))" for p h
      using registered_host [OF ih, of p h] P by (auto simp: installable_def)
    from ih P fresh free show ?thesis
      by (auto simp: inv_hosts_def reg_simps reg installable_def)
  qed
  moreover have "inv_listen ?s"
    using inv P k by (intro install_listen) (simp_all add: reg_inv_def)
  moreover have "inv_queues ?s"
    using inv P by (simp add: reg_inv_def inv_queues_def reg_simps installable_def visitorCap_def)
  moreover have "inv_sessions ?s"
    using inv by (simp add: reg_inv_def inv_sessions_def reg_simps)
  moreover have "inv_ranges ?s"
    using inv by (simp add: reg_inv_def inv_ranges_def reg_simps)
  ultimately show ?thesis by (simp add: reg_inv_def)
qed

section \<open>Registration\<close>

lemma alloc_facts:
  assumes "inv_ranges s" and "allocPortLocked s \<noteq> 0"
  shows "sv_byPort s (allocPortLocked s) = None" "portAllowed s (allocPortLocked s)"
  using allocRanges_cases [of "sv_ranges s" "sv_byPort s"] assms
  by (auto simp: inv_ranges_def allocPortLocked_def portAllowed_def)

text \<open>The port a TCP registration asks for: the requested one, or the first free one of the pool.\<close>

definition wantedPort :: "Server \<Rightarrow> NewProxy \<Rightarrow> int" where
  "wantedPort s np = (if np_RemotePort np = 0 then allocPortLocked s else np_RemotePort np)"

definition regKey :: "Server \<Rightarrow> sid \<Rightarrow> NewProxy \<Rightarrow> gostring" where
  "regKey s i np = proxyKey (se_clientID (hp_session s i)) (np_Name np)"

abbreviation newTCP :: "Server \<Rightarrow> sid \<Rightarrow> NewProxy \<Rightarrow> Proxy" where
  "newTCP s i np \<equiv> tcpProxy (hp_session s i) i np (wantedPort s np) (nx_lid s)"

abbreviation newHTTP :: "(gostring \<Rightarrow> gostring) \<Rightarrow> Server \<Rightarrow> sid \<Rightarrow> NewProxy \<Rightarrow> Proxy" where
  "newHTTP u s i np \<equiv> httpProxy (hp_session s i) i np (httpHosts u s np)"

text \<open>Every branch of \<^verbatim>\<open>registerTCPProxy\<close>, in the order the code takes them.\<close>

lemma registerTCPProxy_spec:
  "registerTCPProxy s i np bind =
     (if SplitHostPort (np_Local np) = None then (errResp np InvalidLocalAddress, s)
      else if np_RemotePort np \<noteq> 0 \<and> \<not> portAllowed s (np_RemotePort np)
      then (errResp np (INVALID_PORT (np_RemotePort np) (sc_AllowPorts (sv_cfg s))), s)
      else (case sv_proxies s (regKey s i np) of
        Some old \<Rightarrow> if sameConfig (hp_proxy s old) np
                    then (okResp np (px_remotePort (hp_proxy s old)), s)
                    else (errResp np NAME_EXISTS, s)
      | None \<Rightarrow>
          if wantedPort s np = 0 then (errResp np PORT_POOL_FULL, s)
          else if sv_byPort s (wantedPort s np) \<noteq> None
          then (errResp np (PORT_IN_USE (wantedPort s np)), s)
          else (case bind of Some e \<Rightarrow> (errResp np (BIND_FAILED e), s)
                | None \<Rightarrow> (okResp np (wantedPort s np), installProxy s (newTCP s i np)))))"
  unfolding registerTCPProxy_def wantedPort_def [symmetric] regKey_def Let_def
  by (cases "sv_proxies s (proxyKey (se_clientID (hp_session s i)) (np_Name np))"; cases bind;
      cases "sv_byPort s (wantedPort s np)")
    (simp_all add: installProxy_def pkey_def tcpProxy_def Let_def)

lemma firstTaken_None: "firstTaken vh hs = None \<longleftrightarrow> (\<forall>h \<in> set hs. vh h = None)"
  by (induction hs) auto

lemma firstTaken_Some: "firstTaken vh hs = Some h \<Longrightarrow> h \<in> set hs \<and> vh h \<noteq> None"
  by (induction hs) (auto split: if_splits)

lemma registerHTTPProxy_spec:
  "registerHTTPProxy u s i np =
     (if sc_VhostHTTPPort (sv_cfg s) = 0 then (errResp np VHOST_DISABLED, s)
      else if np_Subdomain np = [] \<and> np_CustomDomains np = [] then (errResp np VHOST_REQUIRED, s)
      else if np_Subdomain np \<noteq> [] \<and> sc_VhostDomain (sv_cfg s) = []
      then (errResp np VHOST_NEED_DOMAIN, s)
      else if SplitHostPort (np_Local np) = None then (errResp np InvalidLocalAddress, s)
      else (case sv_proxies s (regKey s i np) of
        Some old \<Rightarrow> if sameConfig (hp_proxy s old) np then (okResp np 0, s)
                    else (errResp np NAME_EXISTS, s)
      | None \<Rightarrow>
          (case firstTaken (sv_vhost s) (httpHosts u s np) of
             Some h \<Rightarrow> (errResp np (VHOST_CONFLICT h), s)
           | None \<Rightarrow> (okResp np 0, installProxy s (newHTTP u s i np)))))"
  unfolding registerHTTPProxy_def regKey_def Let_def
  by (simp add: installProxy_def pkey_def httpProxy_def Let_def split: option.splits)

lemma installable_TCP:
  assumes "reg_inv s" "i < nx_sid s" "sv_proxies s (regKey s i np) = None"
    "np_RemotePort np \<noteq> 0 \<longrightarrow> portAllowed s (np_RemotePort np)"
    "wantedPort s np \<noteq> 0" "sv_byPort s (wantedPort s np) = None"
  shows "installable s (newTCP s i np)"
  using assms alloc_facts [of s]
  by (auto simp: installable_def tcpProxy_def pkey_def regKey_def wantedPort_def reg_inv_def
      split: if_splits)

lemma installable_HTTP:
  assumes "i < nx_sid s" "sv_proxies s (regKey s i np) = None"
    "firstTaken (sv_vhost s) (httpHosts u s np) = None"
  shows "installable s (newHTTP u s i np)"
  using assms by (simp add: installable_def httpProxy_def pkey_def regKey_def firstTaken_None)

text \<open>A registration either leaves the server as it is or installs one admissible proxy.\<close>

lemma registerProxy_cases:
  assumes "reg_inv s" "i < nx_sid s" "registerProxy u s i np bind = (resp, s')"
  obtains (same) "s' = s"
  | (tcp) "s' = installProxy s (newTCP s i np)" "installable s (newTCP s i np)"
      "resp = okResp np (wantedPort s np)"
  | (http) "s' = installProxy s (newHTTP u s i np)" "installable s (newHTTP u s i np)"
      "resp = okResp np 0"
proof (cases "s' = s")
  case False
  show ?thesis
  proof (cases "np_Type np = ''tcp''")
    case True
    with assms(3) False have "installable s (newTCP s i np) \<and> s' = installProxy s (newTCP s i np) \<and>
        resp = okResp np (wantedPort s np)"
      using installable_TCP [OF assms(1,2), of np]
      by (auto simp: registerProxy_def registerTCPProxy_spec split: if_splits option.splits)
    with tcp show ?thesis by blast
  next
    case no: False
    with assms(3) False have "installable s (newHTTP u s i np) \<and> s' = installProxy s (newHTTP u s i np) \<and>
        resp = okResp np 0"
      using installable_HTTP [OF assms(2), of np u]
      by (auto simp: registerProxy_def registerHTTPProxy_spec split: if_splits option.splits)
    with http show ?thesis by blast
  qed
qed (rule same)

lemma registerProxy_inv [reg_intros]:
  assumes "reg_inv s" "i < nx_sid s"
  shows "reg_inv (snd (registerProxy u s i np bind))"
proof -
  obtain resp s' where r: "registerProxy u s i np bind = (resp, s')" by fastforce
  from registerProxy_cases [OF assms r] have "reg_inv s'"
    by cases (simp_all add: assms install_inv)
  with r show ?thesis by simp
qed

text \<open>A second request under the name that a TCP registration has just taken.\<close>

lemma registerProxy_accepted:
  assumes "reg_inv s" "i < nx_sid s" "registerProxy u s i np bind = (resp, t)" "nr_OK resp"
  shows "\<exists>q. sv_proxies t (proxyKey (se_clientID (hp_session s i)) (np_Name np)) = Some q"
proof (cases "t = s")
  case True
  have k: "regKey s i np = proxyKey (se_clientID (hp_session s i)) (np_Name np)" by (simp add: regKey_def)
  have n: "installProxy s Q \<noteq> s" for Q using installProxy_fields(7) [of s Q] by auto
  from assms(3,4) True n show ?thesis
    by (auto simp: registerProxy_def registerTCPProxy_spec registerHTTPProxy_spec k errResp_def
        split: if_splits option.splits)
next
  case False
  with registerProxy_cases [OF assms(1-3)]
  obtain Pr where Pr: "t = installProxy s Pr" "pkey Pr = proxyKey (se_clientID (hp_session s i)) (np_Name np)"
    by (metis pkey_def tcpProxy_def httpProxy_def Proxy.select_convs)
  then show ?thesis by (simp add: reg_simps)
qed

lemma registered_wanted:
  assumes "reg_inv s" "i < nx_sid s" "np_Type np = ''tcp''"
    and "registerProxy u s i np bind = (resp, t)" "t \<noteq> s"
  shows "wantedPort s np \<noteq> 0"
  using assms(3-5) by (auto simp: registerProxy_def registerTCPProxy_spec split: if_splits option.splits)

lemma registered_twice:
  assumes "reg_inv s" "i < nx_sid s" "np_Type np = ''tcp''"
    and "registerProxy u s i np bind = (resp, t)" "t \<noteq> s"
  shows "registerProxy u t i np bind' =
    (if sameConfig (newTCP s i np) np then (okResp np (wantedPort s np), t) else (errResp np NAME_EXISTS, t))"
proof -
  have t: "t = installProxy s (newTCP s i np)" and pre: "SplitHostPort (np_Local np) \<noteq> None"
    "np_RemotePort np = 0 \<or> portAllowed s (np_RemotePort np)"
    using assms(3-5) by (auto simp: registerProxy_def registerTCPProxy_spec split: if_splits option.splits)
  have k: "sv_proxies t (regKey t i np) = Some (nx_pid s)" "hp_proxy t (nx_pid s) = newTCP s i np"
    unfolding t by (simp_all add: reg_simps regKey_def pkey_def tcpProxy_def)
  have "px_remotePort (newTCP s i np) = wantedPort s np" by (simp add: tcpProxy_def)
  moreover have "portAllowed t port = portAllowed s port" for port unfolding t by (simp add: reg_simps)
  ultimately show ?thesis using k pre
    by (auto simp: registerProxy_def registerTCPProxy_spec assms(3))
qed

section \<open>Removal\<close>

lemma remove_fields [reg_simps]:
  "hp_proxy (removeProxyLocked s p) = (hp_proxy s)(p := (hp_proxy s p)\<lparr>px_visitors := []\<rparr>)"
  "sv_proxies (removeProxyLocked s p) = (sv_proxies s)(pkey (hp_proxy s p) := None)"
  "sv_sessions (removeProxyLocked s p) = sv_sessions s"
  "sv_ranges (removeProxyLocked s p) = sv_ranges s"
  "sv_cfg (removeProxyLocked s p) = sv_cfg s"
  "sv_tls (removeProxyLocked s p) = sv_tls s"
  "sv_startedAt (removeProxyLocked s p) = sv_startedAt s"
  "nx_sid (removeProxyLocked s p) = nx_sid s"
  "nx_pid (removeProxyLocked s p) = nx_pid s"
  "nx_lid (removeProxyLocked s p) = nx_lid s"
  "os_closed (removeProxyLocked s p) = os_closed s \<union> set (px_visitors (hp_proxy s p))"
  "hp_session (removeProxyLocked s p) i =
     (if i = px_session (hp_proxy s p)
      then (hp_session s i)\<lparr>se_proxies := (se_proxies (hp_session s i))(px_name (hp_proxy s p) := None)\<rparr>
      else hp_session s i)"
  "sv_byPort (removeProxyLocked s p) =
     (if px_remotePort (hp_proxy s p) \<noteq> 0
      then (sv_byPort s)(px_remotePort (hp_proxy s p) := None) else sv_byPort s)"
  "sv_vhost (removeProxyLocked s p) = delete_all (px_hosts (hp_proxy s p)) (sv_vhost s)"
  "os_listen (removeProxyLocked s p) =
     (case px_ln (hp_proxy s p) of None \<Rightarrow> os_listen s | Some l \<Rightarrow> (os_listen s)(l := None))"
  "portAllowed (removeProxyLocked s p) port = portAllowed s port"
  by (simp_all add: removeProxyLocked_def Let_def pkey_def portAllowed_def)

lemma remove_registered:
  assumes "registered s p"
  shows "registered (removeProxyLocked s p) q \<longleftrightarrow> registered s q \<and> q \<noteq> p"
  using assms by (auto simp: registered_def reg_simps pkey_def)

lemma remove_inv [reg_intros]:
  assumes inv: "reg_inv s" and p: "registered s p"
  shows "reg_inv (removeProxyLocked s p)"
proof -
  let ?s = "removeProxyLocked s p"
  note reg = remove_registered [OF p]
  from inv have k: "inv_keys s" and io: "inv_owner s" and ip: "inv_ports s" and ih: "inv_hosts s"
    and il: "inv_listen s" by (simp_all add: reg_inv_def)
  have vis: "pkey (P\<lparr>px_visitors := vs\<rparr>) = pkey P" for P vs by (simp add: pkey_def)
  have "inv_keys ?s"
    unfolding inv_keys_def
  proof (intro allI impI)
    fix key q assume "sv_proxies ?s key = Some q"
    then have "sv_proxies s key = Some q" by (auto simp: reg_simps split: if_splits)
    with k have "key = pkey (hp_proxy s q) \<and> q < nx_pid s \<and> px_session (hp_proxy s q) < nx_sid s \<and>
        se_clientID (hp_session s (px_session (hp_proxy s q))) = px_clientID (hp_proxy s q)"
      by (simp add: inv_keys_def)
    moreover have "se_clientID (hp_session ?s j) = se_clientID (hp_session s j)" for j
      by (simp add: reg_simps)
    moreover have "px_session (hp_proxy ?s q) = px_session (hp_proxy s q)"
      "px_clientID (hp_proxy ?s q) = px_clientID (hp_proxy s q)"
      "pkey (hp_proxy ?s q) = pkey (hp_proxy s q)"
      by (simp_all add: reg_simps vis)
    ultimately show "key = pkey (hp_proxy ?s q) \<and> q < nx_pid ?s \<and> px_session (hp_proxy ?s q) < nx_sid ?s \<and>
        se_clientID (hp_session ?s (px_session (hp_proxy ?s q))) = px_clientID (hp_proxy ?s q)"
      by (simp add: remove_fields(8,9))
  qed
  moreover have "inv_owner ?s"
  proof -
    have own: "se_proxies (hp_session s (px_session (hp_proxy s q))) (px_name (hp_proxy s q)) = Some q"
      if "registered s q" for q using io that by (simp add: inv_owner_def)
    have "q = p" if "registered s q" "px_session (hp_proxy s q) = px_session (hp_proxy s p)"
      "px_name (hp_proxy s q) = px_name (hp_proxy s p)" for q
      by (metis own option.inject p that)
    note uniq = this
    show ?thesis
      unfolding inv_owner_def
    proof (intro allI)
      fix i n q
      have old: "se_proxies (hp_session s i) n = Some q \<longleftrightarrow>
          registered s q \<and> px_session (hp_proxy s q) = i \<and> px_name (hp_proxy s q) = n"
        using io by (simp add: inv_owner_def)
      show "se_proxies (hp_session ?s i) n = Some q \<longleftrightarrow>
          registered ?s q \<and> px_session (hp_proxy ?s q) = i \<and> px_name (hp_proxy ?s q) = n"
      proof (cases "i = px_session (hp_proxy s p) \<and> n = px_name (hp_proxy s p)")
        case True
        then have "se_proxies (hp_session ?s i) n = None" by (simp add: reg_simps)
        with True uniq [of q] show ?thesis by (auto simp: reg_simps reg)
      next
        case False
        then have "se_proxies (hp_session ?s i) n = se_proxies (hp_session s i) n"
          by (auto simp: reg_simps)
        moreover have "px_session (hp_proxy ?s q) = px_session (hp_proxy s q)"
          "px_name (hp_proxy ?s q) = px_name (hp_proxy s q)" by (simp_all add: reg_simps)
        ultimately show ?thesis using False old by (auto simp: reg)
      qed
    qed
  qed
  moreover have "inv_ports ?s"
    using ip p port_unique [OF ip p] by (fastforce simp: inv_ports_def reg_simps reg)
  moreover have "inv_hosts ?s"
    using ih p host_unique [OF ih p] by (fastforce simp: inv_hosts_def reg_simps reg)
  moreover have "inv_listen ?s"
  proof -
    have "os_listen ?s l = Some port \<longleftrightarrow>
      (\<exists>q. registered ?s q \<and> px_ln (hp_proxy ?s q) = Some l \<and> px_remotePort (hp_proxy ?s q) = port)" for l port
    proof (cases "px_ln (hp_proxy s p) = Some l")
      case True
      then have "os_listen ?s l = None" by (simp add: reg_simps)
      moreover have "px_ln (hp_proxy ?s q) = Some l \<Longrightarrow> q = p" for q
        using il True by (auto simp: inv_listen_def reg_simps split: if_splits)
      ultimately show ?thesis by (auto simp: reg)
    next
      case False
      then have "os_listen ?s l = os_listen s l" by (auto simp: reg_simps split: option.splits)
      moreover have "registered ?s q \<and> px_ln (hp_proxy ?s q) = Some l \<and> px_remotePort (hp_proxy ?s q) = port
          \<longleftrightarrow> registered s q \<and> px_ln (hp_proxy s q) = Some l \<and> px_remotePort (hp_proxy s q) = port" for q
        using False by (auto simp: reg reg_simps)
      moreover have "os_listen s l = Some port \<longleftrightarrow>
          (\<exists>q. registered s q \<and> px_ln (hp_proxy s q) = Some l \<and> px_remotePort (hp_proxy s q) = port)"
        using il by (simp add: inv_listen_def)
      ultimately show ?thesis by (simp only:)
    qed
    moreover have "px_ln (hp_proxy ?s q) = px_ln (hp_proxy s q)"
      "px_remotePort (hp_proxy ?s q) = px_remotePort (hp_proxy s q)" for q
      by (simp_all add: reg_simps)
    moreover have "nx_lid ?s = nx_lid s" by (simp add: reg_simps)
    ultimately show ?thesis using il by (simp add: inv_listen_def reg)
  qed
  moreover have "inv_queues ?s" using inv by (simp add: reg_inv_def inv_queues_def reg_simps)
  moreover have "inv_sessions ?s" using inv by (simp add: reg_inv_def inv_sessions_def reg_simps)
  moreover have "inv_ranges ?s" using inv by (simp add: reg_inv_def inv_ranges_def reg_simps)
  ultimately show ?thesis by (simp add: reg_inv_def)
qed

text \<open>A session's entry is a registered proxy of that session.\<close>

lemma owned_registered:
  "reg_inv s \<Longrightarrow> se_proxies (hp_session s i) n = Some p \<Longrightarrow>
     registered s p \<and> px_session (hp_proxy s p) = i \<and> px_name (hp_proxy s p) = n"
  by (simp add: reg_inv_def inv_owner_def)

lemma registered_owned:
  "reg_inv s \<Longrightarrow> registered s p \<Longrightarrow>
     se_proxies (hp_session s (px_session (hp_proxy s p))) (px_name (hp_proxy s p)) = Some p"
  by (simp add: reg_inv_def inv_owner_def)

lemma closeProxy_inv [reg_intros]: "reg_inv s \<Longrightarrow> reg_inv (closeProxy s i name)"
  by (auto simp: closeProxy_def intro!: remove_inv dest: owned_registered split: option.splits)

section \<open>Dropping a session\<close>

text \<open>The proxies the loop takes away, with what happens to each table.\<close>

definition taken :: "gostring list \<Rightarrow> sid \<Rightarrow> Server \<Rightarrow> pid set" where
  "taken ord i s = {p. registered s p \<and> px_session (hp_proxy s p) = i \<and> px_name (hp_proxy s p) \<in> set ord}"

lemma taken_Nil: "taken [] i s = {}"
  by (simp add: taken_def)

lemma taken_skip:
  assumes "reg_inv s" "se_proxies (hp_session s i) n = None"
  shows "taken (n # ns) i s = taken ns i s"
  using assms registered_owned [OF assms(1)] by (fastforce simp: taken_def)

lemma taken_step:
  assumes "reg_inv s" "se_proxies (hp_session s i) n = Some p"
  shows "taken (n # ns) i s = insert p (taken ns i (removeProxyLocked s p))"
    and "taken ns i (removeProxyLocked s p) = taken ns i s - {p}"
proof -
  from owned_registered [OF assms]
  have p: "registered s p" "px_session (hp_proxy s p) = i" "px_name (hp_proxy s p) = n" by auto
  have uniq: "q = p" if "registered s q" "px_session (hp_proxy s q) = i" "px_name (hp_proxy s q) = n" for q
    using registered_owned [OF assms(1) that(1)] assms(2) that by simp
  show tk: "taken ns i (removeProxyLocked s p) = taken ns i s - {p}"
    by (auto simp: taken_def remove_registered [OF p(1)] reg_simps)
  show "taken (n # ns) i s = insert p (taken ns i (removeProxyLocked s p))"
    unfolding tk using p by (auto simp: taken_def dest: uniq)
qed

lemma dropLoop_inv [reg_intros]: "reg_inv s \<Longrightarrow> reg_inv (dropLoop ord i s)"
  by (induction ord arbitrary: s) (auto intro: remove_inv dest: owned_registered split: option.splits)

lemma dropLoop_frame:
  "sv_sessions (dropLoop ord i s) = sv_sessions s" "sv_ranges (dropLoop ord i s) = sv_ranges s"
  "sv_cfg (dropLoop ord i s) = sv_cfg s" "sv_tls (dropLoop ord i s) = sv_tls s"
  "sv_startedAt (dropLoop ord i s) = sv_startedAt s"
  "nx_sid (dropLoop ord i s) = nx_sid s" "nx_pid (dropLoop ord i s) = nx_pid s"
  "nx_lid (dropLoop ord i s) = nx_lid s"
  by (induction ord arbitrary: s) (auto simp: reg_simps split: option.splits)

lemma dropLoop_session:
  "hp_session (dropLoop ord i s) j =
     (hp_session s j)\<lparr>se_proxies := se_proxies (hp_session (dropLoop ord i s) j)\<rparr>"
proof (induction ord arbitrary: s)
  case (Cons n ns)
  show ?case
  proof (cases "se_proxies (hp_session s i) n")
    case None
    with Cons.IH [of s] show ?thesis by simp
  next
    case (Some p)
    with Cons.IH [of "removeProxyLocked s p"] show ?thesis by (simp add: reg_simps split: if_splits)
  qed
qed simp

lemma dropLoop_registered:
  "reg_inv s \<Longrightarrow> registered (dropLoop ord i s) q \<longleftrightarrow> registered s q \<and> q \<notin> taken ord i s"
proof (induction ord arbitrary: s)
  case (Cons n ns)
  show ?case
  proof (cases "se_proxies (hp_session s i) n")
    case None
    with Cons show ?thesis by (simp add: taken_skip)
  next
    case (Some p)
    from owned_registered [OF Cons.prems Some] have p: "registered s p" by simp
    from Some Cons.IH [OF remove_inv [OF Cons.prems p]] show ?thesis
      by (auto simp: taken_step(1) [OF Cons.prems Some] remove_registered [OF p])
  qed
qed (simp add: taken_Nil)

lemma dropLoop_heap:
  "reg_inv s \<Longrightarrow> hp_proxy (dropLoop ord i s) q =
     (if q \<in> taken ord i s then (hp_proxy s q)\<lparr>px_visitors := []\<rparr> else hp_proxy s q)"
proof (induction ord arbitrary: s)
  case (Cons n ns)
  show ?case
  proof (cases "se_proxies (hp_session s i) n")
    case None
    with Cons show ?thesis by (simp add: taken_skip)
  next
    case (Some p)
    from owned_registered [OF Cons.prems Some] have p: "registered s p" by simp
    from Some Cons.IH [OF remove_inv [OF Cons.prems p]] show ?thesis
      by (simp add: taken_step [OF Cons.prems Some] reg_simps)
  qed
qed (simp add: taken_Nil)

lemma dropLoop_closed:
  "reg_inv s \<Longrightarrow> os_closed (dropLoop ord i s) =
     os_closed s \<union> (\<Union>q \<in> taken ord i s. set (px_visitors (hp_proxy s q)))"
proof (induction ord arbitrary: s)
  case (Cons n ns)
  show ?case
  proof (cases "se_proxies (hp_session s i) n")
    case None
    with Cons show ?thesis by (simp add: taken_skip)
  next
    case (Some p)
    from owned_registered [OF Cons.prems Some] have p: "registered s p" by simp
    have "(\<Union>q \<in> taken ns i s - {p}. set (px_visitors (hp_proxy (removeProxyLocked s p) q))) =
        (\<Union>q \<in> taken ns i s - {p}. set (px_visitors (hp_proxy s q)))"
      by (auto simp: reg_simps)
    moreover have "(\<Union>q \<in> insert p (taken ns i s - {p}). set (px_visitors (hp_proxy s q))) =
        set (px_visitors (hp_proxy s p)) \<union> (\<Union>q \<in> taken ns i s - {p}. set (px_visitors (hp_proxy s q)))"
      by blast
    ultimately show ?thesis
      using Some Cons.IH [OF remove_inv [OF Cons.prems p]]
      by (simp only: dropLoop.simps option.case taken_step [OF Cons.prems Some] remove_fields(11) Un_assoc)
  qed
qed (simp add: taken_Nil)

text \<open>
  Under the invariant the tables are functions of the set of registered proxies and the heap, so
  two states that agree on those are equal.
\<close>

lemma reg_state_eq:
  assumes inv: "reg_inv s" "reg_inv t"
    and reg: "\<And>p. registered s p \<longleftrightarrow> registered t p"
    and hp: "hp_proxy s = hp_proxy t"
    and hs: "\<And>j. (hp_session s j)\<lparr>se_proxies := Map.empty\<rparr> = (hp_session t j)\<lparr>se_proxies := Map.empty\<rparr>"
    and rest: "sv_cfg s = sv_cfg t" "sv_ranges s = sv_ranges t" "sv_tls s = sv_tls t"
      "sv_sessions s = sv_sessions t" "sv_startedAt s = sv_startedAt t" "os_closed s = os_closed t"
      "nx_sid s = nx_sid t" "nx_pid s = nx_pid t" "nx_lid s = nx_lid t"
  shows "s = t"
proof -
  have m: "m = m'" if "\<And>k p. m k = Some p \<longleftrightarrow> m' k = Some p" for m m' :: "'k \<rightharpoonup> 'v"
    using that by (metis ext not_Some_eq)
  have "sv_proxies s = sv_proxies t"
  proof (rule m)
    have key: "sv_proxies u k = Some p \<longleftrightarrow> k = pkey (hp_proxy u p) \<and> registered u p" if "reg_inv u" for u k p
      using that by (auto simp: reg_inv_def inv_keys_def registered_def)
    fix k p
    show "sv_proxies s k = Some p \<longleftrightarrow> sv_proxies t k = Some p"
      by (simp add: key [OF inv(1)] key [OF inv(2)] hp reg)
  qed
  moreover have "sv_byPort s = sv_byPort t"
    by (rule m) (use inv hp reg in \<open>simp add: reg_inv_def inv_ports_def\<close>)
  moreover have "sv_vhost s = sv_vhost t"
    by (rule m) (use inv hp reg in \<open>simp add: reg_inv_def inv_hosts_def\<close>)
  moreover have "os_listen s = os_listen t"
    by (rule m) (use inv hp reg in \<open>simp add: reg_inv_def inv_listen_def\<close>)
  moreover have "hp_session s = hp_session t"
  proof
    fix j
    have "se_proxies (hp_session s j) = se_proxies (hp_session t j)"
      by (rule m) (use inv hp reg in \<open>simp add: reg_inv_def inv_owner_def\<close>)
    with hs [of j] show "hp_session s j = hp_session t j"
      by (cases "hp_session s j"; cases "hp_session t j") simp
  qed
  ultimately show ?thesis using hp rest by (simp add: Server.equality)
qed

section \<open>Updates the invariant does not see\<close>

text \<open>
  Visitor queues within their capacity, counters, sent messages, \<^verbatim>\<open>closeOnce\<close>, closed
  connections and removals from the session table.
\<close>

definition same_core :: "Proxy \<Rightarrow> Proxy \<Rightarrow> bool" where
  "same_core P Q \<longleftrightarrow>
     px_name P = px_name Q \<and> px_clientID P = px_clientID Q \<and> px_remotePort P = px_remotePort Q \<and>
     px_hosts P = px_hosts Q \<and> px_ln P = px_ln Q \<and> px_session P = px_session Q"

definition same_tables :: "Server \<Rightarrow> Server \<Rightarrow> bool" where
  "same_tables s t \<longleftrightarrow>
     sv_ranges t = sv_ranges s \<and> sv_proxies t = sv_proxies s \<and> sv_byPort t = sv_byPort s \<and>
     sv_vhost t = sv_vhost s \<and> os_listen t = os_listen s \<and> nx_sid t = nx_sid s \<and>
     nx_pid t = nx_pid s \<and> nx_lid t = nx_lid s \<and>
     (\<forall>p. same_core (hp_proxy t p) (hp_proxy s p)) \<and>
     (\<forall>i. se_proxies (hp_session t i) = se_proxies (hp_session s i) \<and>
          se_clientID (hp_session t i) = se_clientID (hp_session s i))"

lemma same_tables_registered: "same_tables s t \<Longrightarrow> registered t p \<longleftrightarrow> registered s p"
  by (simp add: same_tables_def same_core_def registered_def pkey_def)

lemma reg_inv_frame:
  assumes inv: "reg_inv s" and st: "same_tables s t"
    and q: "\<And>p. length (px_visitors (hp_proxy t p)) \<le> visitorCap"
    and ss: "\<And>c i. sv_sessions t c = Some i \<Longrightarrow> sv_sessions s c = Some i \<and>
        (se_closed (hp_session t i) \<longleftrightarrow> se_closed (hp_session s i))"
  shows "reg_inv t"
proof -
  note reg = same_tables_registered [OF st]
  have core: "px_name (hp_proxy t p) = px_name (hp_proxy s p)"
    "px_clientID (hp_proxy t p) = px_clientID (hp_proxy s p)"
    "px_remotePort (hp_proxy t p) = px_remotePort (hp_proxy s p)"
    "px_hosts (hp_proxy t p) = px_hosts (hp_proxy s p)"
    "px_ln (hp_proxy t p) = px_ln (hp_proxy s p)"
    "px_session (hp_proxy t p) = px_session (hp_proxy s p)"
    "pkey (hp_proxy t p) = pkey (hp_proxy s p)" for p
    using st by (simp_all add: same_tables_def same_core_def pkey_def)
  have tab: "sv_ranges t = sv_ranges s" "sv_proxies t = sv_proxies s" "sv_byPort t = sv_byPort s"
    "sv_vhost t = sv_vhost s" "os_listen t = os_listen s" "nx_sid t = nx_sid s"
    "nx_pid t = nx_pid s" "nx_lid t = nx_lid s"
    "se_proxies (hp_session t i) = se_proxies (hp_session s i)"
    "se_clientID (hp_session t i) = se_clientID (hp_session s i)"
    "portAllowed t port = portAllowed s port" for i port
    using st by (simp_all add: same_tables_def portAllowed_def)
  from inv have "inv_ranges t \<and> inv_keys t"
    by (simp add: reg_inv_def inv_ranges_def inv_keys_def core tab)
  moreover from inv have "inv_owner t" by (simp add: reg_inv_def inv_owner_def core tab reg)
  moreover from inv have "inv_ports t" by (simp add: reg_inv_def inv_ports_def core tab reg)
  moreover from inv have "inv_hosts t" by (simp add: reg_inv_def inv_hosts_def core tab reg)
  moreover from inv have "inv_listen t" by (simp add: reg_inv_def inv_listen_def core tab reg)
  moreover from q have "inv_queues t" by (simp add: inv_queues_def)
  moreover from inv ss have "inv_sessions t" by (auto simp: reg_inv_def inv_sessions_def tab)
  ultimately show ?thesis by (simp add: reg_inv_def)
qed

lemma reg_inv_queue: "reg_inv s \<Longrightarrow> length (px_visitors (hp_proxy s p)) \<le> visitorCap"
  by (simp add: reg_inv_def inv_queues_def)

text \<open>Three instances: a session field, the closed connections, a table entry of a session.\<close>

lemma reg_inv_session_field [reg_intros]:
  assumes "reg_inv s" "se_proxies se = se_proxies (hp_session s i)"
    "se_clientID se = se_clientID (hp_session s i)"
    "se_closed se = se_closed (hp_session s i) \<or> sv_sessions s (se_clientID se) \<noteq> Some i"
  shows "reg_inv (s\<lparr>hp_session := (hp_session s)(i := se)\<rparr>)"
proof (rule reg_inv_frame [OF assms(1)])
  fix c j assume c: "sv_sessions (s\<lparr>hp_session := (hp_session s)(i := se)\<rparr>) c = Some j"
  then have "se_clientID (hp_session s j) = c"
    using assms(1) by (simp add: reg_inv_def inv_sessions_def)
  with c assms show "sv_sessions s c = Some j \<and>
      (se_closed (hp_session (s\<lparr>hp_session := (hp_session s)(i := se)\<rparr>) j) \<longleftrightarrow> se_closed (hp_session s j))"
    by auto
qed (use assms in \<open>auto simp: same_tables_def same_core_def reg_inv_queue\<close>)

lemma reg_inv_closed [reg_intros]: "reg_inv s \<Longrightarrow> reg_inv (s\<lparr>os_closed := X\<rparr>)"
  by (rule reg_inv_frame [of s]) (auto simp: same_tables_def same_core_def reg_inv_queue)

lemma reg_inv_forget [reg_intros]: "reg_inv s \<Longrightarrow> reg_inv (s\<lparr>sv_sessions := (sv_sessions s)(c := None)\<rparr>)"
  by (rule reg_inv_frame [of s]) (auto simp: same_tables_def same_core_def reg_inv_queue split: if_splits)

lemma reg_inv_visitors [reg_intros]:
  "reg_inv s \<Longrightarrow> length vs \<le> visitorCap \<Longrightarrow>
     reg_inv (s\<lparr>hp_proxy := (hp_proxy s)(p := (hp_proxy s p)\<lparr>px_visitors := vs\<rparr>)\<rparr>)"
  by (rule reg_inv_frame [of s]) (auto simp: same_tables_def same_core_def reg_inv_queue)

section \<open>Closing a session\<close>

text \<open>\<^verbatim>\<open>ord\<close> is an iteration over the whole map when it lists all its keys.\<close>

definition covers :: "gostring list \<Rightarrow> Server \<Rightarrow> sid \<Rightarrow> bool" where
  "covers ord s i \<longleftrightarrow> dom (se_proxies (hp_session s i)) \<subseteq> set ord"

abbreviation forgotten :: "Server \<Rightarrow> sid \<Rightarrow> Server" where
  "forgotten s i \<equiv>
     (let c = se_clientID (hp_session s i) in
      if sv_sessions s c = Some i then s\<lparr>sv_sessions := (sv_sessions s)(c := None)\<rparr> else s)"

lemma forgotten_inv: "reg_inv s \<Longrightarrow> reg_inv (forgotten s i)"
  by (simp add: Let_def reg_inv_forget)

lemma forgotten_same:
  "registered (forgotten s i) p \<longleftrightarrow> registered s p" "hp_proxy (forgotten s i) = hp_proxy s"
  "hp_session (forgotten s i) = hp_session s" "taken ord j (forgotten s i) = taken ord j s"
  "os_closed (forgotten s i) = os_closed s"
  by (simp_all add: Let_def registered_def taken_def)

lemma dropSession_unfold: "dropSession ord s i = dropLoop ord i (forgotten s i)"
  by (simp add: dropSession_def Let_def)

lemma dropSession_inv [reg_intros]: "reg_inv s \<Longrightarrow> reg_inv (dropSession ord s i)"
  unfolding dropSession_unfold by (intro dropLoop_inv forgotten_inv)

lemma covers_taken:
  assumes "reg_inv s" "covers ord s i"
  shows "taken ord i s = {p. registered s p \<and> px_session (hp_proxy s p) = i}"
  using assms registered_owned [OF assms(1)] by (fastforce simp: taken_def covers_def)

lemma dropSession_registered:
  assumes "reg_inv s" "covers ord s i"
  shows "registered (dropSession ord s i) p \<longleftrightarrow> registered s p \<and> px_session (hp_proxy s p) \<noteq> i"
  unfolding dropSession_unfold
  by (subst dropLoop_registered [OF forgotten_inv [OF assms(1)]])
    (simp only: forgotten_same covers_taken [OF assms], blast)

lemma dropSession_heap:
  assumes "reg_inv s" "covers ord s i"
  shows "hp_proxy (dropSession ord s i) p =
    (if registered s p \<and> px_session (hp_proxy s p) = i then (hp_proxy s p)\<lparr>px_visitors := []\<rparr>
     else hp_proxy s p)"
  unfolding dropSession_unfold
  by (subst dropLoop_heap [OF forgotten_inv [OF assms(1)]])
    (simp only: forgotten_same covers_taken [OF assms] mem_Collect_eq)

lemma dropSession_closed:
  assumes "reg_inv s" "covers ord s i"
  shows "os_closed (dropSession ord s i) = os_closed s \<union>
    (\<Union>p \<in> {p. registered s p \<and> px_session (hp_proxy s p) = i}. set (px_visitors (hp_proxy s p)))"
  unfolding dropSession_unfold
  by (subst dropLoop_closed [OF forgotten_inv [OF assms(1)]])
    (simp only: forgotten_same covers_taken [OF assms])

lemma dropSession_sessions:
  "sv_sessions (dropSession ord s i) c =
     (if c = se_clientID (hp_session s i) \<and> sv_sessions s c = Some i then None else sv_sessions s c)"
  by (auto simp: dropSession_unfold dropLoop_frame Let_def)

lemma dropSession_frame:
  "sv_ranges (dropSession ord s i) = sv_ranges s" "sv_cfg (dropSession ord s i) = sv_cfg s"
  "nx_sid (dropSession ord s i) = nx_sid s" "nx_pid (dropSession ord s i) = nx_pid s"
  "nx_lid (dropSession ord s i) = nx_lid s" "sv_tls (dropSession ord s i) = sv_tls s"
  "sv_startedAt (dropSession ord s i) = sv_startedAt s"
  by (simp_all add: dropSession_unfold dropLoop_frame Let_def)

lemma dropSession_session:
  "hp_session (dropSession ord s i) j =
     (hp_session s j)\<lparr>se_proxies := se_proxies (hp_session (dropSession ord s i) j)\<rparr>"
  unfolding dropSession_unfold by (subst dropLoop_session) (simp only: forgotten_same)

text \<open>Go's map iteration order is unspecified; it does not matter here.\<close>

lemma dropSession_order:
  assumes "reg_inv s" "covers ord s i" "covers ord' s i"
  shows "dropSession ord s i = dropSession ord' s i"
proof (rule reg_state_eq)
  fix j
  show "(hp_session (dropSession ord s i) j)\<lparr>se_proxies := Map.empty\<rparr> =
      (hp_session (dropSession ord' s i) j)\<lparr>se_proxies := Map.empty\<rparr>"
    by (subst (1 2) dropSession_session) simp
qed (simp_all add: assms dropSession_inv dropSession_registered dropSession_heap
    dropSession_closed dropSession_sessions dropSession_frame fun_eq_iff)

lemma CloseSession_inv [reg_intros]:
  assumes "reg_inv s"
  shows "reg_inv (CloseSession ord s i)"
proof (cases "se_closed (hp_session s i)")
  case False
  let ?t = "dropSession ord s i"
  have cid: "se_clientID (hp_session ?t i) = se_clientID (hp_session s i)"
    by (subst dropSession_session) simp
  have "sv_sessions ?t (se_clientID (hp_session s i)) \<noteq> Some i"
    by (simp add: dropSession_sessions)
  with False cid assms show ?thesis
    unfolding CloseSession_def Let_def
    by (auto intro!: reg_inv_closed reg_inv_session_field dropSession_inv)
qed (simp add: CloseSession_def assms)

text \<open>What closing an open session releases, and what it leaves alone.\<close>

lemma CloseSession_releases:
  assumes inv: "reg_inv s" and opn: "\<not> se_closed (hp_session s i)" and cov: "covers ord s i"
  defines "t \<equiv> CloseSession ord s i"
  shows "registered t p \<longleftrightarrow> registered s p \<and> px_session (hp_proxy s p) \<noteq> i"
    and "hp_proxy t p = (if registered s p \<and> px_session (hp_proxy s p) = i
           then (hp_proxy s p)\<lparr>px_visitors := []\<rparr> else hp_proxy s p)"
    and "os_closed t = insert (se_conn (hp_session s i)) (os_closed s \<union>
           (\<Union>p \<in> {p. registered s p \<and> px_session (hp_proxy s p) = i}. set (px_visitors (hp_proxy s p))))"
    and "sv_sessions t c = (if c = se_clientID (hp_session s i) \<and> sv_sessions s c = Some i
           then None else sv_sessions s c)"
    and "se_closed (hp_session t j) \<longleftrightarrow> se_closed (hp_session s j) \<or> j = i"
    and "se_clientID (hp_session t j) = se_clientID (hp_session s j)"
    and "se_sent (hp_session t j) = se_sent (hp_session s j)"
    and "se_conn (hp_session t j) = se_conn (hp_session s j)"
    and "nx_sid t = nx_sid s"
proof -
  let ?d = "dropSession ord s i"
  have t: "t = (upd_session i (\<lambda>se. se\<lparr>se_closed := True\<rparr>) ?d)
      \<lparr>os_closed := insert (se_conn (hp_session s i)) (os_closed ?d)\<rparr>"
    using opn by (simp add: t_def CloseSession_def Let_def)
  have ses: "se_closed (hp_session ?d k) = se_closed (hp_session s k)"
    "se_clientID (hp_session ?d k) = se_clientID (hp_session s k)"
    "se_sent (hp_session ?d k) = se_sent (hp_session s k)"
    "se_conn (hp_session ?d k) = se_conn (hp_session s k)" for k
    by (subst dropSession_session, simp)+
  have "registered t p \<longleftrightarrow> registered ?d p" by (simp add: t registered_def)
  then show "registered t p \<longleftrightarrow> registered s p \<and> px_session (hp_proxy s p) \<noteq> i"
    by (simp add: dropSession_registered [OF inv cov])
  show "hp_proxy t p = (if registered s p \<and> px_session (hp_proxy s p) = i
      then (hp_proxy s p)\<lparr>px_visitors := []\<rparr> else hp_proxy s p)"
    by (simp add: t dropSession_heap [OF inv cov])
  show "os_closed t = insert (se_conn (hp_session s i)) (os_closed s \<union>
      (\<Union>p \<in> {p. registered s p \<and> px_session (hp_proxy s p) = i}. set (px_visitors (hp_proxy s p))))"
    by (simp add: t dropSession_closed [OF inv cov])
  show "sv_sessions t c = (if c = se_clientID (hp_session s i) \<and> sv_sessions s c = Some i
      then None else sv_sessions s c)"
    by (simp add: t dropSession_sessions)
  show "se_closed (hp_session t j) \<longleftrightarrow> se_closed (hp_session s j) \<or> j = i"
    "se_clientID (hp_session t j) = se_clientID (hp_session s j)"
    "se_sent (hp_session t j) = se_sent (hp_session s j)"
    "se_conn (hp_session t j) = se_conn (hp_session s j)"
    by (auto simp: t ses)
  show "nx_sid t = nx_sid s" by (simp add: t dropSession_frame)
qed

end
