(* ===== verification/Session.thy ===== *)
theory Session
  imports RegistryInv Auth
begin

text \<open>
  \<^verbatim>\<open>internal/server/session.go\<close> and the visitor hand-over of \<^verbatim>\<open>server.go\<close>: the
  control messages of one session, login with replacement of the old connection, the control loop,
  the visitor queue of a proxy and the data streams that take visitors from it. The outcomes of
  network operations (whether a write succeeds, what \<^verbatim>\<open>net.Listen\<close> answers, what arrives)
  are arguments; \<open>J\<close> stands for \<^verbatim>\<open>json.Unmarshal\<close> into each message type.
\<close>

section \<open>Control messages\<close>

record json_decoders =
  decLogin :: "bytes \<Rightarrow> Login option"
  decNewProxy :: "bytes \<Rightarrow> NewProxy option"
  decCloseProxy :: "bytes \<Rightarrow> CloseProxy option"
  decPing :: "bytes \<Rightarrow> Ping option"
  decStreamMeta :: "bytes \<Rightarrow> StreamMeta option"

text \<open>\<^verbatim>\<open>sendMsg\<close>: \<open>ok\<close> tells whether the write succeeds.\<close>

definition sendMsg :: "bool \<Rightarrow> sid \<Rightarrow> smsg \<Rightarrow> Server \<Rightarrow> bool \<times> Server" where
  "sendMsg ok i m s =
     (if ok then (True, upd_session i (\<lambda>se. se\<lparr>se_sent := se_sent se @ [m]\<rparr>) s) else (False, s))"

definition closeConn :: "cid \<Rightarrow> Server \<Rightarrow> Server" where
  "closeConn c s = s\<lparr>os_closed := insert c (os_closed s)\<rparr>"

section \<open>The visitor queue of a proxy\<close>

definition visitorSend :: "cid \<Rightarrow> Proxy \<Rightarrow> Proxy option" where
  "visitorSend c P =
     (if length (px_visitors P) < visitorCap then Some (P\<lparr>px_visitors := px_visitors P @ [c]\<rparr>) else None)"

definition visitorRecv :: "Proxy \<Rightarrow> (cid \<times> Proxy) option" where
  "visitorRecv P =
     (case px_visitors P of [] \<Rightarrow> None | v # vs \<Rightarrow> Some (v, P\<lparr>px_visitors := vs\<rparr>))"

interpretation visitors: buffered_channel visitorSend visitorRecv px_visitors visitorCap
  by unfold_locales (auto simp: visitorSend_def visitorRecv_def split: list.splits)

text \<open>
  \<^verbatim>\<open>deliverVisitor\<close>: queue the visitor and notify the client; when the notification fails
  one queued visitor is taken back and closed, and so is this one.
\<close>

definition notifyFailed :: "Server \<Rightarrow> pid \<Rightarrow> cid \<Rightarrow> Server" where
  "notifyFailed s p c =
     closeConn c
       (case visitorRecv (hp_proxy s p) of
          None \<Rightarrow> s | Some (v, P) \<Rightarrow> closeConn v (s\<lparr>hp_proxy := (hp_proxy s)(p := P)\<rparr>))"

definition deliverVisitor :: "Server \<Rightarrow> pid \<Rightarrow> cid \<Rightarrow> bool \<Rightarrow> bool \<times> Server" where
  "deliverVisitor s p c ok =
     (case visitorSend c (hp_proxy s p) of
        None \<Rightarrow> (False, closeConn c s)
      | Some P \<Rightarrow>
          (case sendMsg ok (px_session P) (SStartWorkConn \<lparr>sw_ProxyName = px_name P\<rparr>)
                  (s\<lparr>hp_proxy := (hp_proxy s)(p := P)\<rparr>) of
             (True, s2) \<Rightarrow> (True, s2)
           | (False, s2) \<Rightarrow> (False, notifyFailed s2 p c)))"

text \<open>
  \<^verbatim>\<open>proxyAcceptLoop\<close> over the connections its listener hands out, each with the outcome of
  its notification, until \<^verbatim>\<open>Accept\<close> fails.
\<close>

fun proxyAcceptLoop :: "(cid \<times> bool) list \<Rightarrow> Server \<Rightarrow> pid \<Rightarrow> Server" where
  "proxyAcceptLoop [] s p = s"
| "proxyAcceptLoop ((c, ok) # cs) s p = proxyAcceptLoop cs (snd (deliverVisitor s p c ok)) p"

section \<open>Login\<close>

definition loginFail :: "bool \<Rightarrow> sid \<Rightarrow> cid \<Rightarrow> errmsg \<Rightarrow> Server \<Rightarrow> sid option \<times> Server" where
  "loginFail ok i conn msg s =
     (None, closeConn conn
        (snd (sendMsg ok i (SLoginResp \<lparr>lr_OK = False, lr_ServerTime = 0, lr_Error = Some msg\<rparr>) s)))"

text \<open>
  \<^verbatim>\<open>login\<close>: \<open>now\<close> is the clock, \<open>ok\<close> the outcome of the reply, \<open>ord\<close> the iteration
  order over the proxies of the session that is replaced.
\<close>

definition login ::
    "Server \<Rightarrow> cid \<Rightarrow> Login \<Rightarrow> gostring \<Rightarrow> int \<Rightarrow> bool \<Rightarrow> gostring list \<Rightarrow> sid option \<times> Server" where
  "login s conn lg remoteAddr now ok ord =
     (let i = nx_sid s;
          s0 = s\<lparr>hp_session := (hp_session s)(i := newSession (lg_ClientID lg) conn remoteAddr now),
                 nx_sid := i + 1\<rparr>
      in if lg_ClientID lg = [] then loginFail ok i conn EmptyClientID s0
         else if \<not> VerifyLogin (sc_Token (sv_cfg s)) (lg_ClientID lg) (lg_Ts lg) (lg_Hmac lg) (5 * Minute) now
         then loginFail ok i conn Unauthorized s0
         else
           let old = sv_sessions s0 (lg_ClientID lg);
               s1 = s0\<lparr>sv_sessions := (sv_sessions s0)(lg_ClientID lg \<mapsto> i)\<rparr>;
               s2 = (case old of None \<Rightarrow> s1 | Some j \<Rightarrow> CloseSession ord s1 j)
           in case sendMsg ok i
                (SLoginResp \<lparr>lr_OK = True, lr_ServerTime = now div Second, lr_Error = None\<rparr>) s2 of
                (False, s3) \<Rightarrow> (None, CloseSession [] s3 i)
              | (True, s3) \<Rightarrow> (Some i, s3))"

section \<open>The control loop\<close>

text \<open>What one iteration meets: \<open>bind\<close> for a listener it may open, \<open>send\<close> for the reply.\<close>

record ctl_env =
  ev_bind :: "gostring option"
  ev_send :: bool

text \<open>The body of the loop for one frame; \<open>False\<close> is \<^verbatim>\<open>return\<close>.\<close>

definition controlFrame ::
    "json_decoders \<Rightarrow> (gostring \<Rightarrow> gostring) \<Rightarrow> ctl_env \<Rightarrow> byte \<Rightarrow> bytes \<Rightarrow> Server \<Rightarrow> sid \<Rightarrow>
     bool \<times> Server" where
  "controlFrame J ucase e typ payload s i =
     (if typ = TypeNewProxy then
        (case decNewProxy J payload of
           None \<Rightarrow> (True, s)
         | Some np \<Rightarrow>
             (case registerProxy ucase s i np (ev_bind e) of
                (resp, s1) \<Rightarrow> sendMsg (ev_send e) i (SNewProxyResp resp) s1))
      else if typ = TypeCloseProxy then
        (case decCloseProxy J payload of
           None \<Rightarrow> (True, s) | Some cp \<Rightarrow> (True, closeProxy s i (cp_Name cp)))
      else if typ = TypePing then
        (case decPing J payload of
           None \<Rightarrow> (True, s)
         | Some pg \<Rightarrow> sendMsg (ev_send e) i (SPong \<lparr>pong_Ts = ping_Ts pg\<rparr>) s)
      else (True, s))"

datatype ctl_event = CtlReadError ioerr | CtlFrame byte bytes

text \<open>
  \<^verbatim>\<open>controlLoop\<close> over the events its reads meet; the result tells whether it still waits for
  the next frame. Every \<^verbatim>\<open>return\<close> runs the deferred \<^verbatim>\<open>se.Close()\<close>.
\<close>

fun controlLoop ::
    "json_decoders \<Rightarrow> (gostring \<Rightarrow> gostring) \<Rightarrow> gostring list \<Rightarrow> (ctl_event \<times> ctl_env) list \<Rightarrow>
     Server \<Rightarrow> sid \<Rightarrow> bool \<times> Server" where
  "controlLoop J ucase ord [] s i = (True, s)"
| "controlLoop J ucase ord ((CtlReadError _, _) # evs) s i = (False, CloseSession ord s i)"
| "controlLoop J ucase ord ((CtlFrame typ payload, e) # evs) s i =
     (case controlFrame J ucase e typ payload s i of
        (False, s1) \<Rightarrow> (False, CloseSession ord s1 i)
      | (True, s1) \<Rightarrow> controlLoop J ucase ord evs s1 i)"

text \<open>
  \<^verbatim>\<open>handleControlConn\<close> up to the control loop: what the TLS handshake, smux and the first read
  answer is in \<open>conn_env\<close>.
\<close>

record conn_env =
  ce_tls :: "gostring option"
  ce_smux :: "gostring option"
  ce_accept :: "gostring option"
  ce_frame :: "ioerr + byte \<times> bytes"
  ce_now :: int
  ce_send :: bool

definition handleControlConn ::
    "json_decoders \<Rightarrow> conn_env \<Rightarrow> gostring list \<Rightarrow> Server \<Rightarrow> cid \<Rightarrow> gostring \<Rightarrow> sid option \<times> Server" where
  "handleControlConn J ce ord s raw remoteAddr =
     (if sv_tls s \<and> ce_tls ce \<noteq> None then (None, closeConn raw s)
      else if ce_smux ce \<noteq> None then (None, closeConn raw s)
      else if ce_accept ce \<noteq> None then (None, closeConn raw s)
      else case ce_frame ce of
             Inl _ \<Rightarrow> (None, closeConn raw s)
           | Inr (typ, payload) \<Rightarrow>
               if typ \<noteq> TypeLogin then (None, closeConn raw s)
               else (case decLogin J payload of
                       None \<Rightarrow> (None, closeConn raw s)
                     | Some lg \<Rightarrow> login s raw lg remoteAddr (ce_now ce) (ce_send ce) ord))"

section \<open>Data streams\<close>

text \<open>
  The first part of \<^verbatim>\<open>handleDataStream\<close>: the frame that names the proxy, and the lookup
  under the lock. \<open>None\<close> means that the stream is closed.
\<close>

definition streamProxy ::
    "json_decoders \<Rightarrow> Server \<Rightarrow> sid \<Rightarrow> (ioerr + byte \<times> bytes) \<Rightarrow> pid option" where
  "streamProxy J s i frame =
     (case frame of
        Inl _ \<Rightarrow> None
      | Inr (typ, payload) \<Rightarrow>
          if typ \<noteq> TypeStreamMeta then None
          else (case decStreamMeta J payload of
                  None \<Rightarrow> None
                | Some meta \<Rightarrow>
                    if sm_ProxyName meta = [] then None
                    else se_proxies (hp_session s i) (sm_ProxyName meta)))"

text \<open>
  The \<^verbatim>\<open>select\<close>: take the oldest waiting visitor and count the connection, or time out and
  close the stream. The deferred function and the byte counters run when the join is over.
\<close>

definition streamSelect :: "Server \<Rightarrow> sid \<Rightarrow> pid \<Rightarrow> cid \<Rightarrow> cid option \<times> Server" where
  "streamSelect s i p stream =
     (case visitorRecv (hp_proxy s p) of
        None \<Rightarrow> (None, closeConn stream s)
      | Some (v, P) \<Rightarrow>
          (Some v,
           upd_session i (\<lambda>se. se\<lparr>se_activeConns := se_activeConns se + 1\<rparr>)
             (s\<lparr>hp_proxy := (hp_proxy s)(p := P\<lparr>px_active := px_active P + 1\<rparr>)\<rparr>)))"

definition streamDone :: "Server \<Rightarrow> sid \<Rightarrow> pid \<Rightarrow> cid \<Rightarrow> cid \<Rightarrow> nat \<Rightarrow> nat \<Rightarrow> Server" where
  "streamDone s i p v stream out inn =
     upd_session i
       (\<lambda>se. se\<lparr>se_activeConns := se_activeConns se - 1,
                se_bytesOut := se_bytesOut se + of_nat out,
                se_bytesIn := se_bytesIn se + of_nat inn\<rparr>)
       ((upd_proxy p (\<lambda>P. P\<lparr>px_active := px_active P - 1\<rparr>) s)
          \<lparr>os_closed := insert v (insert stream (os_closed s))\<rparr>)"

definition handleDataStream ::
    "json_decoders \<Rightarrow> Server \<Rightarrow> sid \<Rightarrow> cid \<Rightarrow> (ioerr + byte \<times> bytes) \<Rightarrow> cid option \<times> Server" where
  "handleDataStream J s i stream frame =
     (case streamProxy J s i frame of
        None \<Rightarrow> (None, closeConn stream s) | Some p \<Rightarrow> streamSelect s i p stream)"

section \<open>Preservation of the registry invariant\<close>

lemma sendMsg_inv [reg_intros]: "reg_inv s \<Longrightarrow> reg_inv (snd (sendMsg ok i m s))"
  by (auto simp: sendMsg_def intro: reg_inv_session_field)

lemma sendMsg_tables: "same_tables s (snd (sendMsg ok i m s))"
  by (simp add: sendMsg_def same_tables_def same_core_def)

lemma sendMsg_fields [simp]:
  "hp_proxy (snd (sendMsg ok i m s)) = hp_proxy s" "os_closed (snd (sendMsg ok i m s)) = os_closed s"
  "sv_sessions (snd (sendMsg ok i m s)) = sv_sessions s" "nx_sid (snd (sendMsg ok i m s)) = nx_sid s"
  "se_closed (hp_session (snd (sendMsg ok i m s)) j) = se_closed (hp_session s j)"
  "fst (sendMsg ok i m s) = ok"
  by (auto simp: sendMsg_def)

lemma closeConn_inv [reg_intros]: "reg_inv s \<Longrightarrow> reg_inv (closeConn c s)"
  by (simp add: closeConn_def reg_inv_closed)

lemma closeConn_fields [simp]:
  "hp_proxy (closeConn c s) = hp_proxy s" "hp_session (closeConn c s) = hp_session s"
  "os_closed (closeConn c s) = insert c (os_closed s)"
  "sv_sessions (closeConn c s) = sv_sessions s" "nx_sid (closeConn c s) = nx_sid s"
  by (simp_all add: closeConn_def)

text \<open>A proxy whose queue alone has changed.\<close>

lemma reg_inv_requeue:
  assumes "reg_inv s" "same_core P (hp_proxy s p)" "length (px_visitors P) \<le> visitorCap"
  shows "reg_inv (s\<lparr>hp_proxy := (hp_proxy s)(p := P)\<rparr>)"
  by (rule reg_inv_frame [OF assms(1)])
    (use assms in \<open>auto simp: same_tables_def same_core_def reg_inv_queue\<close>)

lemma visitorSend_core:
  "visitorSend c Q = Some P \<Longrightarrow> P = Q\<lparr>px_visitors := px_visitors Q @ [c]\<rparr> \<and>
     length (px_visitors Q) < visitorCap"
  by (auto simp: visitorSend_def split: if_splits)

lemma visitorRecv_core:
  "visitorRecv Q = Some (v, P) \<Longrightarrow> P = Q\<lparr>px_visitors := tl (px_visitors Q)\<rparr> \<and>
     px_visitors Q = v # tl (px_visitors Q)"
  by (auto simp: visitorRecv_def split: list.splits)

lemma visitorRecv_length:
  assumes "reg_inv s" "visitorRecv (hp_proxy s p) = Some (v, P)"
  shows "length (px_visitors P) \<le> visitorCap" "same_core P (hp_proxy s p)"
  using visitorRecv_core [OF assms(2)] reg_inv_queue [OF assms(1), of p]
  by (auto simp: same_core_def)

lemma notifyFailed_inv [reg_intros]: "reg_inv s \<Longrightarrow> reg_inv (notifyFailed s p c)"
  unfolding notifyFailed_def
  by (auto intro!: closeConn_inv reg_inv_requeue visitorRecv_length split: option.splits prod.splits)

lemma deliverVisitor_inv [reg_intros]: "reg_inv s \<Longrightarrow> reg_inv (snd (deliverVisitor s p c ok))"
proof (cases "visitorSend c (hp_proxy s p)")
  case None
  assume "reg_inv s"
  with None show ?thesis by (simp add: deliverVisitor_def closeConn_inv)
next
  case (Some P)
  assume inv: "reg_inv s"
  from visitorSend_core [OF Some] have "reg_inv (s\<lparr>hp_proxy := (hp_proxy s)(p := P)\<rparr>)"
    by (intro reg_inv_requeue [OF inv]) (auto simp: same_core_def)
  then have "reg_inv (snd (sendMsg ok i m (s\<lparr>hp_proxy := (hp_proxy s)(p := P)\<rparr>)))" for i m
    by (rule sendMsg_inv)
  with Some show ?thesis
    by (auto simp: deliverVisitor_def intro: notifyFailed_inv split: prod.splits bool.splits)
      (metis snd_conv notifyFailed_inv)+
qed

lemma proxyAcceptLoop_inv [reg_intros]: "reg_inv s \<Longrightarrow> reg_inv (proxyAcceptLoop cs s p)"
  by (induction cs s p rule: proxyAcceptLoop.induct) (auto intro: deliverVisitor_inv)

text \<open>Allocation of a session object.\<close>

lemma reg_inv_newSession:
  assumes inv: "reg_inv s" and fresh: "se_proxies se = Map.empty" and i: "i = nx_sid s"
    and ss: "\<And>c j. ss c = Some j \<Longrightarrow> sv_sessions s c = Some j \<or> (j = i \<and> se_clientID se = c \<and> \<not> se_closed se)"
  shows "reg_inv (s\<lparr>hp_session := (hp_session s)(i := se), nx_sid := Suc i, sv_sessions := ss\<rparr>)"
proof -
  let ?t = "s\<lparr>hp_session := (hp_session s)(i := se), nx_sid := Suc i, sv_sessions := ss\<rparr>"
  from inv have k: "inv_keys s" by (simp add: reg_inv_def)
  have reg: "registered ?t p \<longleftrightarrow> registered s p" for p by (simp add: registered_def)
  have own: "registered s p \<Longrightarrow> px_session (hp_proxy s p) \<noteq> i" for p
    using registered_owner [OF k, of p] i by auto
  have "inv_keys ?t"
    unfolding inv_keys_def
  proof (intro allI impI)
    fix key p assume "sv_proxies ?t key = Some p"
    with k i show "key = pkey (hp_proxy ?t p) \<and> p < nx_pid ?t \<and> px_session (hp_proxy ?t p) < nx_sid ?t \<and>
        se_clientID (hp_session ?t (px_session (hp_proxy ?t p))) = px_clientID (hp_proxy ?t p)"
      by (fastforce simp: inv_keys_def)
  qed
  moreover have "inv_owner ?t"
    using inv fresh own by (auto simp: reg_inv_def inv_owner_def reg)
  moreover have "inv_sessions ?t"
    using inv ss i by (fastforce simp: reg_inv_def inv_sessions_def)
  moreover have "inv_ranges ?t \<and> inv_ports ?t \<and> inv_hosts ?t \<and> inv_listen ?t \<and> inv_queues ?t"
    using inv by (simp add: reg_inv_def inv_ranges_def inv_ports_def inv_hosts_def inv_listen_def
        inv_queues_def reg portAllowed_def)
  ultimately show ?thesis by (simp add: reg_inv_def)
qed

lemma loginFail_inv [reg_intros]: "reg_inv s \<Longrightarrow> reg_inv (snd (loginFail ok i conn m s))"
  by (auto simp: loginFail_def intro: closeConn_inv sendMsg_inv)

text \<open>The state after the locked part of a successful login: the new session is in the table.\<close>

definition admitted :: "Server \<Rightarrow> cid \<Rightarrow> Login \<Rightarrow> gostring \<Rightarrow> int \<Rightarrow> Server" where
  "admitted s conn lg remoteAddr now =
     s\<lparr>hp_session := (hp_session s)(nx_sid s := newSession (lg_ClientID lg) conn remoteAddr now),
       nx_sid := Suc (nx_sid s), sv_sessions := (sv_sessions s)(lg_ClientID lg \<mapsto> nx_sid s)\<rparr>"

lemma admitted_inv [reg_intros]: "reg_inv s \<Longrightarrow> reg_inv (admitted s conn lg ra now)"
  unfolding admitted_def
  by (intro reg_inv_newSession) (auto simp: newSession_def split: if_splits)

lemma allocated_inv [reg_intros]:
  "reg_inv s \<Longrightarrow> reg_inv (s\<lparr>hp_session := (hp_session s)
      (nx_sid s := newSession c conn ra now), nx_sid := Suc (nx_sid s)\<rparr>)"
  using reg_inv_newSession [of s "newSession c conn ra now" "nx_sid s" "sv_sessions s"]
  by (simp add: newSession_def)

definition loginOK :: "int \<Rightarrow> smsg" where
  "loginOK now = SLoginResp \<lparr>lr_OK = True, lr_ServerTime = now div Second, lr_Error = None\<rparr>"

text \<open>\<^verbatim>\<open>login\<close>, branch by branch.\<close>

lemma login_spec:
  "login s conn lg ra now ok ord =
     (let s0 = s\<lparr>hp_session := (hp_session s)
                  (nx_sid s := newSession (lg_ClientID lg) conn ra now), nx_sid := Suc (nx_sid s)\<rparr>
      in if lg_ClientID lg = [] then loginFail ok (nx_sid s) conn EmptyClientID s0
         else if \<not> VerifyLogin (sc_Token (sv_cfg s)) (lg_ClientID lg) (lg_Ts lg) (lg_Hmac lg) (5 * Minute) now
         then loginFail ok (nx_sid s) conn Unauthorized s0
         else
           let s1 = admitted s conn lg ra now;
               s2 = (case sv_sessions s (lg_ClientID lg) of None \<Rightarrow> s1 | Some j \<Rightarrow> CloseSession ord s1 j);
               s3 = snd (sendMsg ok (nx_sid s) (loginOK now) s2)
           in if ok then (Some (nx_sid s), s3) else (None, CloseSession [] s3 (nx_sid s)))"
  by (simp add: login_def Let_def admitted_def loginOK_def sendMsg_def)

lemma login_inv [reg_intros]: "reg_inv s \<Longrightarrow> reg_inv (snd (login s conn lg ra now ok ord))"
  unfolding login_spec Let_def
  by (auto intro!: loginFail_inv allocated_inv CloseSession_inv sendMsg_inv admitted_inv
      split: option.splits)

lemma controlFrame_inv [reg_intros]:
  assumes "reg_inv s" "i < nx_sid s"
  shows "reg_inv (snd (controlFrame J u e typ payload s i))"
proof -
  have "reg_inv (snd (case registerProxy u s i np b of (resp, s1) \<Rightarrow> sendMsg ok i (m resp) s1))" for np b ok m
    using registerProxy_inv [OF assms, of u np b]
    by (cases "registerProxy u s i np b") (simp add: sendMsg_inv)
  with assms show ?thesis
    by (auto simp: controlFrame_def intro: closeProxy_inv sendMsg_inv split: option.splits)
qed

lemma registerProxy_nx [simp]:
  "nx_sid (snd (registerProxy u s i np b)) = nx_sid s"
  by (auto simp: registerProxy_def registerTCPProxy_spec registerHTTPProxy_spec reg_simps
      split: option.splits)

lemma registerProxy_sessions [simp]:
  "se_closed (hp_session (snd (registerProxy u s i np b)) j) = se_closed (hp_session s j)"
  "sv_sessions (snd (registerProxy u s i np b)) = sv_sessions s"
  by (auto simp: registerProxy_def registerTCPProxy_spec registerHTTPProxy_spec reg_simps
      split: option.splits)

lemma closeProxy_nx [simp]: "nx_sid (closeProxy s i n) = nx_sid s"
  by (auto simp: closeProxy_def reg_simps split: option.splits)

lemma controlFrame_nx [simp]: "nx_sid (snd (controlFrame J u e typ payload s i)) = nx_sid s"
proof -
  have "nx_sid (snd (case registerProxy u s i np b of (resp, s1) \<Rightarrow> sendMsg ok i (m resp) s1)) = nx_sid s"
    for np b ok m
    using registerProxy_nx [of u s i np b] by (cases "registerProxy u s i np b") simp
  then show ?thesis by (auto simp: controlFrame_def split: option.splits)
qed

lemma controlLoop_inv [reg_intros]:
  "reg_inv s \<Longrightarrow> i < nx_sid s \<Longrightarrow> reg_inv (snd (controlLoop J u ord evs s i))"
proof (induction J u ord evs s i rule: controlLoop.induct)
  case (2 J u ord x e evs s i)
  then show ?case by (simp add: CloseSession_inv)
next
  case (3 J u ord ty payload e evs s i)
  obtain b s1 where f: "controlFrame J u e ty payload s i = (b, s1)" by fastforce
  then have "reg_inv s1" "i < nx_sid s1"
    using controlFrame_inv [OF "3"(2,3), of J u e ty payload] controlFrame_nx [of J u e ty payload s i] "3"(3)
    by simp_all
  with "3"(1) [OF f [symmetric]] f show ?case by (cases b) (auto intro: CloseSession_inv)
qed simp

lemma streamSelect_inv [reg_intros]:
  assumes inv: "reg_inv s"
  shows "reg_inv (snd (streamSelect s i p stream))"
proof (cases "visitorRecv (hp_proxy s p)")
  case None
  with inv show ?thesis by (simp add: streamSelect_def closeConn_inv)
next
  case (Some r)
  obtain v P where r: "r = (v, P)" by fastforce
  from visitorRecv_length [OF inv Some [unfolded r]]
  have "reg_inv (s\<lparr>hp_proxy := (hp_proxy s)(p := P\<lparr>px_active := px_active P + 1\<rparr>)\<rparr>)"
    by (intro reg_inv_requeue [OF inv]) (auto simp: same_core_def)
  from reg_inv_session_field [OF this, of "(hp_session s i)\<lparr>se_activeConns := se_activeConns (hp_session s i) + 1\<rparr>" i]
  show ?thesis using Some r by (simp add: streamSelect_def)
qed

lemma streamDone_inv [reg_intros]: "reg_inv s \<Longrightarrow> reg_inv (streamDone s i p v stream out inn)"
proof -
  assume "reg_inv s"
  then have "reg_inv (upd_proxy p (\<lambda>P. P\<lparr>px_active := px_active P - 1\<rparr>) s)"
    by (intro reg_inv_requeue) (auto simp: same_core_def reg_inv_queue)
  then show ?thesis unfolding streamDone_def
    by (intro reg_inv_session_field reg_inv_closed) auto
qed

section \<open>What login does\<close>

lemma admitted_fields:
  "registered (admitted s conn lg ra now) p \<longleftrightarrow> registered s p"
  "hp_proxy (admitted s conn lg ra now) = hp_proxy s"
  "os_closed (admitted s conn lg ra now) = os_closed s"
  by (simp_all add: admitted_def registered_def)

lemma login_success:
  assumes inv: "reg_inv s" and l: "login s conn lg ra now ok ord = (Some i, t)"
    and cov: "\<And>j. sv_sessions s (lg_ClientID lg) = Some j \<Longrightarrow> covers ord s j"
  shows "i = nx_sid s"
    and "lg_ClientID lg \<noteq> []"
    and "VerifyLogin (sc_Token (sv_cfg s)) (lg_ClientID lg) (lg_Ts lg) (lg_Hmac lg) (5 * Minute) now"
    and "sv_sessions t = (sv_sessions s)(lg_ClientID lg \<mapsto> i)"
    and "registered t p \<longleftrightarrow> registered s p \<and>
           sv_sessions s (lg_ClientID lg) \<noteq> Some (px_session (hp_proxy s p))"
    and "sv_sessions s (lg_ClientID lg) = Some j \<Longrightarrow>
           se_closed (hp_session t j) \<and> se_conn (hp_session s j) \<in> os_closed t"
    and "se_sent (hp_session t i) = [loginOK now]"
proof -
  let ?c = "lg_ClientID lg" and ?a = "admitted s conn lg ra now"
  define s2 where "s2 = (case sv_sessions s ?c of None \<Rightarrow> ?a | Some j \<Rightarrow> CloseSession ord ?a j)"
  from l have ok: ok and ne: "?c \<noteq> []"
    and v: "VerifyLogin (sc_Token (sv_cfg s)) ?c (lg_Ts lg) (lg_Hmac lg) (5 * Minute) now"
    and i: "i = nx_sid s" and t: "t = snd (sendMsg True i (loginOK now) s2)"
    by (auto simp: login_spec Let_def s2_def loginFail_def split: if_splits)
  show "i = nx_sid s" by (rule i)
  show "?c \<noteq> []" by (rule ne)
  show "VerifyLogin (sc_Token (sv_cfg s)) ?c (lg_Ts lg) (lg_Hmac lg) (5 * Minute) now" by (rule v)
  have reg_t: "registered t p \<longleftrightarrow> registered s2 p" for p by (simp add: t sendMsg_def registered_def)
  show "sv_sessions t = (sv_sessions s)(?c \<mapsto> i)"
    and "registered t p \<longleftrightarrow> registered s p \<and> sv_sessions s ?c \<noteq> Some (px_session (hp_proxy s p))"
    and "se_sent (hp_session t i) = [loginOK now]"
    and "sv_sessions s ?c = Some j \<Longrightarrow>
           se_closed (hp_session t j) \<and> se_conn (hp_session s j) \<in> os_closed t"
  proof -
    have all: "sv_sessions t = (sv_sessions s)(?c \<mapsto> i) \<and>
      (registered t p \<longleftrightarrow> registered s p \<and> sv_sessions s ?c \<noteq> Some (px_session (hp_proxy s p))) \<and>
      se_sent (hp_session t i) = [loginOK now] \<and>
      (sv_sessions s ?c = Some j \<longrightarrow> se_closed (hp_session t j) \<and> se_conn (hp_session s j) \<in> os_closed t)"
    proof (cases "sv_sessions s ?c")
      case None
      then show ?thesis
        unfolding reg_t by (simp add: t s2_def i admitted_def sendMsg_def newSession_def registered_def)
    next
      case (Some k)
      from inv Some have k: "k < nx_sid s" "\<not> se_closed (hp_session s k)" "se_clientID (hp_session s k) = ?c"
        by (auto simp: reg_inv_def inv_sessions_def)
      have a: "\<not> se_closed (hp_session ?a k)" "covers ord ?a k"
        using k cov [OF Some] by (auto simp: admitted_def covers_def)
      note cl = CloseSession_releases [OF admitted_inv [OF inv] a]
      have s2: "s2 = CloseSession ord ?a k" by (simp add: s2_def Some)
      have ti: "nx_sid s \<noteq> k" using k by simp
      have "sv_sessions t = (sv_sessions s)(?c \<mapsto> i)"
        using k ti by (simp add: t s2 cl fun_eq_iff) (simp add: admitted_def i)
      moreover have "registered t p \<longleftrightarrow> registered s p \<and> sv_sessions s ?c \<noteq> Some (px_session (hp_proxy s p))"
        unfolding reg_t s2 cl admitted_fields using Some by auto
      moreover have "se_sent (hp_session s2 i) = []"
        unfolding s2 cl i by (simp add: admitted_def newSession_def)
      then have "se_sent (hp_session t i) = [loginOK now]"
        by (simp add: t sendMsg_def)
      moreover have "se_closed (hp_session t k)" by (simp add: t s2 cl)
      moreover have "se_conn (hp_session s k) \<in> os_closed t"
        using ti by (simp add: t s2 cl) (simp add: admitted_def)
      ultimately show ?thesis using Some by auto
    qed
    from all show "sv_sessions t = (sv_sessions s)(?c \<mapsto> i)" by blast
    from all show "registered t p \<longleftrightarrow> registered s p \<and> sv_sessions s ?c \<noteq> Some (px_session (hp_proxy s p))"
      by blast
    from all show "se_sent (hp_session t i) = [loginOK now]" by blast
    from all show "sv_sessions s ?c = Some j \<Longrightarrow>
        se_closed (hp_session t j) \<and> se_conn (hp_session s j) \<in> os_closed t" by blast
  qed
qed

section \<open>What the hand-over of a visitor does\<close>

lemma deliverVisitor_full:
  "length (px_visitors (hp_proxy s p)) = visitorCap \<Longrightarrow> deliverVisitor s p c ok = (False, closeConn c s)"
  by (simp add: deliverVisitor_def visitorSend_def)

lemma deliverVisitor_queued:
  fixes c :: cid
  assumes "length (px_visitors (hp_proxy s p)) < visitorCap"
  defines "t \<equiv> snd (deliverVisitor s p c True)" and "i \<equiv> px_session (hp_proxy s p)"
  shows "fst (deliverVisitor s p c True)"
    and "hp_proxy t = (hp_proxy s)(p := (hp_proxy s p)\<lparr>px_visitors := px_visitors (hp_proxy s p) @ [c]\<rparr>)"
    and "se_sent (hp_session t i) =
      se_sent (hp_session s i) @ [SStartWorkConn \<lparr>sw_ProxyName = px_name (hp_proxy s p)\<rparr>]"
    and "os_closed t = os_closed s"
  using assms by (simp_all add: deliverVisitor_def visitorSend_def sendMsg_def)

text \<open>
  After a failed notification the visitor itself is closed, but what is taken from the queue is its
  head: another visitor when one was waiting.
\<close>

lemma deliverVisitor_failed:
  fixes c :: cid
  assumes "length (px_visitors (hp_proxy s p)) < visitorCap"
  defines "t \<equiv> snd (deliverVisitor s p c False)" and "q \<equiv> px_visitors (hp_proxy s p) @ [c]"
  shows "\<not> fst (deliverVisitor s p c False)"
    and "px_visitors (hp_proxy t p) = tl q"
    and "os_closed t = insert c (insert (hd q) (os_closed s))"
  using assms by (simp_all add: deliverVisitor_def visitorSend_def sendMsg_def notifyFailed_def
      visitorRecv_def closeConn_def neq_Nil_conv split: list.splits)

lemma deliverVisitor_frame:
  assumes "deliverVisitor s p c ok = (b, t)"
  shows "registered t q \<longleftrightarrow> registered s q" "same_core (hp_proxy t q) (hp_proxy s q)"
    "sv_sessions t = sv_sessions s" "os_closed s \<subseteq> os_closed t"
    "se_proxies (hp_session t j) = se_proxies (hp_session s j)"
  using assms
  by (auto simp: deliverVisitor_def sendMsg_def notifyFailed_def closeConn_def registered_def
      pkey_def same_core_def visitorSend_def visitorRecv_def split: option.splits if_splits list.splits)

section \<open>Counters of a data stream\<close>

lemma streamSelect_takes:
  assumes "px_visitors (hp_proxy s p) = v # vs"
  shows "fst (streamSelect s i p c) = Some v"
    and "px_visitors (hp_proxy (snd (streamSelect s i p c)) p) = vs"
    and "px_active (hp_proxy (snd (streamSelect s i p c)) p) = px_active (hp_proxy s p) + 1"
    and "se_activeConns (hp_session (snd (streamSelect s i p c)) i) = se_activeConns (hp_session s i) + 1"
  using assms by (simp_all add: streamSelect_def visitorRecv_def)

lemma streamDone_counts:
  shows "px_active (hp_proxy (streamDone s i p v c out inn) p) = px_active (hp_proxy s p) - 1"
    and "se_activeConns (hp_session (streamDone s i p v c out inn) i) = se_activeConns (hp_session s i) - 1"
    and "se_bytesOut (hp_session (streamDone s i p v c out inn) i) = se_bytesOut (hp_session s i) + of_nat out"
    and "se_bytesIn (hp_session (streamDone s i p v c out inn) i) = se_bytesIn (hp_session s i) + of_nat inn"
  by (simp_all add: streamDone_def)

end
