(* ===== verification/ServerSys.thy ===== *)
theory ServerSys
  imports Session
begin

text \<open>
  The server as a concurrent system: one control goroutine per session, the goroutines that bring
  visitors, and the data streams. A step is what runs between two points where another goroutine may
  get in: a critical section of \<^verbatim>\<open>Server.mu\<close>, one write to a control stream, one
  channel operation. The labels are the choices of the environment and of the scheduler.
\<close>

section \<open>State\<close>

text \<open>
  Where the control goroutine of a session stands: about to close the session it replaces, to send
  the login reply, to read, to handle the frame it has read, to send a reply, to run the deferred
  \<^verbatim>\<open>se.Close()\<close>, finished.
\<close>

datatype pc =
    PcKick sid
  | PcWelcome
  | PcRead
  | PcFrame byte bytes
  | PcReply smsg
  | PcClosing
  | PcDone

text \<open>
  \<open>pend\<close>: visitors queued by \<^verbatim>\<open>deliverVisitor\<close> whose notification is not yet written;
  \<open>waiting\<close>: data streams in their \<^verbatim>\<open>select\<close>; \<open>joined\<close>: streams joined with a visitor.
\<close>

record sys =
  srv :: Server
  pcs :: "sid \<rightharpoonup> pc"
  pend :: "(pid \<times> cid) list"
  waiting :: "(sid \<times> pid \<times> cid) list"
  joined :: "(sid \<times> pid \<times> cid \<times> cid) list"

definition sys_init :: "Server \<Rightarrow> sys" where
  "sys_init s = \<lparr>srv = s, pcs = Map.empty, pend = [], waiting = [], joined = []\<rparr>"

section \<open>Handling one frame, without the reply\<close>

definition ctlHandle ::
    "json_decoders \<Rightarrow> (gostring \<Rightarrow> gostring) \<Rightarrow> gostring option \<Rightarrow> byte \<Rightarrow> bytes \<Rightarrow> Server \<Rightarrow> sid \<Rightarrow>
     smsg option \<times> Server" where
  "ctlHandle J ucase bind typ payload s i =
     (if typ = TypeNewProxy then
        (case decNewProxy J payload of
           None \<Rightarrow> (None, s)
         | Some np \<Rightarrow>
             (case registerProxy ucase s i np bind of (resp, s1) \<Rightarrow> (Some (SNewProxyResp resp), s1)))
      else if typ = TypeCloseProxy then
        (case decCloseProxy J payload of
           None \<Rightarrow> (None, s) | Some cp \<Rightarrow> (None, closeProxy s i (cp_Name cp)))
      else if typ = TypePing then
        (case decPing J payload of
           None \<Rightarrow> (None, s) | Some pg \<Rightarrow> (Some (SPong \<lparr>pong_Ts = ping_Ts pg\<rparr>), s))
      else (None, s))"

text \<open>The loop body of \<^verbatim>\<open>controlLoop\<close> is this followed by the write of the reply.\<close>

lemma controlFrame_split:
  "controlFrame J u e typ payload s i =
     (case ctlHandle J u (ev_bind e) typ payload s i of
        (None, s1) \<Rightarrow> (True, s1) | (Some m, s1) \<Rightarrow> sendMsg (ev_send e) i m s1)"
  by (auto simp: controlFrame_def ctlHandle_def split: option.splits prod.splits)

section \<open>Steps\<close>

datatype label =
    LReject cid Login gostring int bool errmsg
  | LAdmit cid Login gostring int
  | LKick sid "gostring list"
  | LWelcome sid int bool
  | LReadError sid
  | LFrame sid byte bytes
  | LHandle sid "gostring option"
  | LReply sid bool
  | LClose sid "gostring list"
  | LShutdown sid "gostring list"
  | LVisitor pid cid
  | LNotify pid cid bool
  | LStream sid cid "ioerr + byte \<times> bytes"
  | LTake sid pid cid
  | LTimeout sid pid cid
  | LDone sid pid cid cid nat nat

definition allocated :: "Server \<Rightarrow> cid \<Rightarrow> Login \<Rightarrow> gostring \<Rightarrow> int \<Rightarrow> Server" where
  "allocated s conn lg remoteAddr now =
     s\<lparr>hp_session := (hp_session s)(nx_sid s := newSession (lg_ClientID lg) conn remoteAddr now),
       nx_sid := Suc (nx_sid s)\<rparr>"

definition loginVerdict :: "Server \<Rightarrow> Login \<Rightarrow> int \<Rightarrow> errmsg option" where
  "loginVerdict s lg now =
     (if lg_ClientID lg = [] then Some EmptyClientID
      else if \<not> VerifyLogin (sc_Token (sv_cfg s)) (lg_ClientID lg) (lg_Ts lg) (lg_Hmac lg) (5 * Minute) now
      then Some Unauthorized else None)"

text \<open>The send part of \<^verbatim>\<open>deliverVisitor\<close>, after the visitor has been queued.\<close>

definition notifyClient :: "Server \<Rightarrow> pid \<Rightarrow> cid \<Rightarrow> bool \<Rightarrow> Server" where
  "notifyClient s p c ok =
     (let P = hp_proxy s p in
      case sendMsg ok (px_session P) (SStartWorkConn \<lparr>sw_ProxyName = px_name P\<rparr>) s of
        (True, s2) \<Rightarrow> s2 | (False, s2) \<Rightarrow> notifyFailed s2 p c)"

definition queueVisitor :: "Server \<Rightarrow> pid \<Rightarrow> cid \<Rightarrow> bool \<times> Server" where
  "queueVisitor s p c =
     (case visitorSend c (hp_proxy s p) of
        None \<Rightarrow> (False, closeConn c s) | Some P \<Rightarrow> (True, s\<lparr>hp_proxy := (hp_proxy s)(p := P)\<rparr>))"

text \<open>The order in which \<^verbatim>\<open>Close\<close> visits the proxies; it visits none when it has run before.\<close>

definition iterates :: "gostring list \<Rightarrow> Server \<Rightarrow> sid \<Rightarrow> bool" where
  "iterates ord s i \<longleftrightarrow> (\<not> se_closed (hp_session s i) \<longrightarrow> covers ord s i)"

text \<open>
  \<open>LShutdown\<close> is one iteration of the loop at the end of \<^verbatim>\<open>Run\<close> over the sessions it
  has copied: the session may have left the table since, so any session there has been is allowed.
  Which sessions these are is the matter of \<open>ServerRun\<close>.
\<close>

inductive sstep ::
    "json_decoders \<Rightarrow> (gostring \<Rightarrow> gostring) \<Rightarrow> sys \<Rightarrow> label \<Rightarrow> sys \<Rightarrow> bool"
  for J :: json_decoders and u :: "gostring \<Rightarrow> gostring" where
  reject:
    "loginVerdict (srv s) lg now = Some m \<Longrightarrow>
     sstep J u s (LReject conn lg ra now ok m)
       (s\<lparr>srv := snd (loginFail ok (nx_sid (srv s)) conn m (allocated (srv s) conn lg ra now)),
          pcs := (pcs s)(nx_sid (srv s) \<mapsto> PcDone)\<rparr>)"
| admit:
    "loginVerdict (srv s) lg now = None \<Longrightarrow>
     sstep J u s (LAdmit conn lg ra now)
       (s\<lparr>srv := admitted (srv s) conn lg ra now,
          pcs := (pcs s)(nx_sid (srv s) \<mapsto>
            (case sv_sessions (srv s) (lg_ClientID lg) of None \<Rightarrow> PcWelcome | Some j \<Rightarrow> PcKick j))\<rparr>)"
| kick:
    "pcs s i = Some (PcKick j) \<Longrightarrow> iterates ord (srv s) j \<Longrightarrow>
     sstep J u s (LKick i ord) (s\<lparr>srv := CloseSession ord (srv s) j, pcs := (pcs s)(i \<mapsto> PcWelcome)\<rparr>)"
| greet:
    "pcs s i = Some PcWelcome \<Longrightarrow>
     sstep J u s (LWelcome i now ok)
       (s\<lparr>srv := snd (sendMsg ok i (loginOK now) (srv s)),
          pcs := (pcs s)(i \<mapsto> if ok then PcRead else PcClosing)\<rparr>)"
| read_error:
    "pcs s i = Some PcRead \<Longrightarrow> sstep J u s (LReadError i) (s\<lparr>pcs := (pcs s)(i \<mapsto> PcClosing)\<rparr>)"
| frame:
    "pcs s i = Some PcRead \<Longrightarrow>
     sstep J u s (LFrame i ty payload) (s\<lparr>pcs := (pcs s)(i \<mapsto> PcFrame ty payload)\<rparr>)"
| handle:
    "pcs s i = Some (PcFrame ty payload) \<Longrightarrow>
     ctlHandle J u bind ty payload (srv s) i = (m, s1) \<Longrightarrow>
     sstep J u s (LHandle i bind)
       (s\<lparr>srv := s1, pcs := (pcs s)(i \<mapsto> (case m of None \<Rightarrow> PcRead | Some r \<Rightarrow> PcReply r))\<rparr>)"
| reply:
    "pcs s i = Some (PcReply m) \<Longrightarrow>
     sstep J u s (LReply i ok)
       (s\<lparr>srv := snd (sendMsg ok i m (srv s)), pcs := (pcs s)(i \<mapsto> if ok then PcRead else PcClosing)\<rparr>)"
| close:
    "pcs s i = Some PcClosing \<Longrightarrow> iterates ord (srv s) i \<Longrightarrow>
     sstep J u s (LClose i ord) (s\<lparr>srv := CloseSession ord (srv s) i, pcs := (pcs s)(i \<mapsto> PcDone)\<rparr>)"
| shutdown:
    "i < nx_sid (srv s) \<Longrightarrow> iterates ord (srv s) i \<Longrightarrow>
     sstep J u s (LShutdown i ord) (s\<lparr>srv := CloseSession ord (srv s) i\<rparr>)"
| visitor:
    "p < nx_pid (srv s) \<Longrightarrow> queueVisitor (srv s) p c = (b, s1) \<Longrightarrow>
     sstep J u s (LVisitor p c) (s\<lparr>srv := s1, pend := (if b then pend s @ [(p, c)] else pend s)\<rparr>)"
| notify:
    "(p, c) \<in> set (pend s) \<Longrightarrow>
     sstep J u s (LNotify p c ok)
       (s\<lparr>srv := notifyClient (srv s) p c ok, pend := remove1 (p, c) (pend s)\<rparr>)"
| stream:
    "i < nx_sid (srv s) \<Longrightarrow>
     sstep J u s (LStream i st fr)
       (case streamProxy J (srv s) i fr of
          None \<Rightarrow> s\<lparr>srv := closeConn st (srv s)\<rparr>
        | Some p \<Rightarrow> s\<lparr>waiting := waiting s @ [(i, p, st)]\<rparr>)"
| take:
    "(i, p, st) \<in> set (waiting s) \<Longrightarrow> streamSelect (srv s) i p st = (Some v, s1) \<Longrightarrow>
     sstep J u s (LTake i p st)
       (s\<lparr>srv := s1, waiting := remove1 (i, p, st) (waiting s), joined := joined s @ [(i, p, v, st)]\<rparr>)"
| timeout:
    "(i, p, st) \<in> set (waiting s) \<Longrightarrow>
     sstep J u s (LTimeout i p st)
       (s\<lparr>srv := closeConn st (srv s), waiting := remove1 (i, p, st) (waiting s)\<rparr>)"
| finish:
    "(i, p, v, st) \<in> set (joined s) \<Longrightarrow>
     sstep J u s (LDone i p v st out inn)
       (s\<lparr>srv := streamDone (srv s) i p v st out inn, joined := remove1 (i, p, v, st) (joined s)\<rparr>)"

inductive_cases sstep_cases: "sstep J u s l t"

text \<open>The two halves of \<^verbatim>\<open>deliverVisitor\<close> in sequence are the whole of it.\<close>

lemma deliverVisitor_split:
  "deliverVisitor s p c ok =
     (case queueVisitor s p c of
        (False, s1) \<Rightarrow> (False, s1) | (True, s1) \<Rightarrow> (ok, notifyClient s1 p c ok))"
  by (auto simp: deliverVisitor_def queueVisitor_def notifyClient_def sendMsg_def visitorSend_def Let_def
      split: option.splits)

text \<open>So are admission, the close of the old session and the reply the whole of \<^verbatim>\<open>login\<close>.\<close>

lemma login_split:
  "login s conn lg ra now ok ord =
     (case loginVerdict s lg now of
        Some m \<Rightarrow> loginFail ok (nx_sid s) conn m (allocated s conn lg ra now)
      | None \<Rightarrow>
          let s1 = admitted s conn lg ra now;
              s2 = (case sv_sessions s (lg_ClientID lg) of None \<Rightarrow> s1 | Some j \<Rightarrow> CloseSession ord s1 j);
              s3 = snd (sendMsg ok (nx_sid s) (loginOK now) s2)
          in if ok then (Some (nx_sid s), s3) else (None, CloseSession [] s3 (nx_sid s)))"
  by (simp add: login_spec loginVerdict_def allocated_def Let_def)

end
