(* ===== verification/Wire.thy ===== *)
theory Wire
  imports Messages ClientSys ServerSys
begin

text \<open>
  The messages of \<^verbatim>\<open>proto.go\<close> between the two programs: what the writer of the client and
  \<^verbatim>\<open>sendMsg\<close> of the server put into a frame, and what the peer's decoders make of it. The
  decoders that the models of client and server are parameterised with are instantiated here.
\<close>

section \<open>Frames of the client\<close>

definition goDecoders :: json_decoders where
  "goDecoders = \<lparr>decLogin = goLogin, decNewProxy = goNewProxy, decCloseProxy = goCloseProxy,
     decPing = goPing, decStreamMeta = goStreamMeta\<rparr>"

definition goClientDecoders :: client_decoders where
  "goClientDecoders = \<lparr>decLoginResp = goLoginResp, decNewProxyResp = goNewProxyResp,
     decStartWorkConn = goStartWorkConn\<rparr>"

fun cmsgType :: "cmsg \<Rightarrow> byte" where
  "cmsgType (CNewProxy _) = TypeNewProxy"
| "cmsgType (CCloseProxy _) = TypeCloseProxy"
| "cmsgType (CPing _) = TypePing"

fun encCMsg :: "cmsg \<Rightarrow> bytes" where
  "encCMsg (CNewProxy m) = encNewProxy m"
| "encCMsg (CCloseProxy m) = encCloseProxy m"
| "encCMsg (CPing m) = encPing m"

text \<open>The integers of the message are those of Go's types.\<close>

fun fitsCMsg :: "cmsg \<Rightarrow> bool" where
  "fitsCMsg (CNewProxy m) \<longleftrightarrow> in_int64 (np_RemotePort m) \<and> in_int64 (np_ReqID m)"
| "fitsCMsg (CCloseProxy _) \<longleftrightarrow> True"
| "fitsCMsg (CPing m) \<longleftrightarrow> in_int64 (ping_Ts m)"

text \<open>What the control loop of the server is to do with a message of its client.\<close>

fun serveCMsg ::
    "(gostring \<Rightarrow> gostring) \<Rightarrow> gostring option \<Rightarrow> cmsg \<Rightarrow> Server \<Rightarrow> sid \<Rightarrow> smsg option \<times> Server" where
  "serveCMsg u bind (CNewProxy m) s i =
     (case registerProxy u s i (sentNewProxy m) bind of (resp, t) \<Rightarrow> (Some (SNewProxyResp resp), t))"
| "serveCMsg u bind (CCloseProxy m) s i = (None, closeProxy s i (toValid (cp_Name m)))"
| "serveCMsg u bind (CPing m) s i = (Some (SPong \<lparr>pong_Ts = ping_Ts m\<rparr>), s)"

lemma ctlHandle_message:
  "fitsCMsg m \<Longrightarrow> ctlHandle goDecoders u bind (cmsgType m) (encCMsg m) s i = serveCMsg u bind m s i"
  by (cases m) (simp_all add: ctlHandle_def goDecoders_def frame_types goNewProxy_enc
      cCloseProxy.decoded cPing.decoded sentCloseProxy_def)

section \<open>The login of a client\<close>

lemma hex_ascii: "is_ascii (hexEncode bs)"
proof (induction bs)
  case (Cons b bs)
  have "(of_char (hex_digit n) :: nat) < 0x80" if "n < 16" for n
    using that by (auto simp: hex_digit_def)
  moreover have "unat b div 16 < 16" using unsigned_less [of b, where ?'a = nat] by simp
  ultimately have "is_ascii (hex_byte b)" by (simp add: hex_byte_def)
  with Cons show ?case by (simp add: hexEncode_def is_ascii_def)
qed (simp add: hexEncode_def)

lemma sent_clientLogin:
  "valid_utf8 (cc_ClientID cfg) \<Longrightarrow> sentLogin (clientLogin cfg ts) = clientLogin cfg ts"
  by (simp add: sentLogin_def clientLogin_def Version_def valid_ascii HmacLogin_def hex_ascii)

lemma decoded_clientLogin:
  "valid_utf8 (cc_ClientID cfg) \<Longrightarrow> in_int64 ts \<Longrightarrow>
     goLogin (encLogin (clientLogin cfg ts)) = Some (clientLogin cfg ts)"
  by (subst cLogin.decoded) (simp_all only: sent_clientLogin, simp add: clientLogin_def)

section \<open>Frames of the server\<close>

fun smsgType :: "smsg \<Rightarrow> byte" where
  "smsgType (SLoginResp _) = TypeLoginResp"
| "smsgType (SNewProxyResp _) = TypeNewProxyResp"
| "smsgType (SStartWorkConn _) = TypeStartWorkConn"
| "smsgType (SPong _) = TypePong"

fun encSMsg :: "(gostring \<Rightarrow> gostring) \<Rightarrow> smsg \<Rightarrow> bytes" where
  "encSMsg quoted (SLoginResp m) = encLoginResp quoted m"
| "encSMsg quoted (SNewProxyResp m) = encNewProxyResp quoted m"
| "encSMsg quoted (SStartWorkConn m) = encStartWorkConn m"
| "encSMsg quoted (SPong m) = encPong m"

fun fitsSMsg :: "smsg \<Rightarrow> bool" where
  "fitsSMsg (SLoginResp m) \<longleftrightarrow> in_int64 (lr_ServerTime m)"
| "fitsSMsg (SNewProxyResp m) \<longleftrightarrow> in_int64 (nr_RemotePort m) \<and> in_int64 (nr_ReqID m)"
| "fitsSMsg (SStartWorkConn _) \<longleftrightarrow> True"
| "fitsSMsg (SPong m) \<longleftrightarrow> in_int64 (pong_Ts m)"

text \<open>What the control loop of the client is to do with a message of the server.\<close>

fun takeSMsg :: "(gostring \<Rightarrow> gostring) \<Rightarrow> Client \<Rightarrow> smsg \<Rightarrow> ctl_action" where
  "takeSMsg quoted c (SLoginResp m) = CtlNothing"
| "takeSMsg quoted c (SNewProxyResp m) = deliverPending c (sentNewProxyResp quoted m)"
| "takeSMsg quoted c (SStartWorkConn m) =
     (if sw_ProxyName m = [] then CtlNothing else CtlWork (toValid (sw_ProxyName m)))"
| "takeSMsg quoted c (SPong m) = CtlNothing"

lemma clientFrame_message:
  "fitsSMsg m \<Longrightarrow> clientFrame goClientDecoders c (smsgType m) (encSMsg quoted m) = takeSMsg quoted c m"
  by (cases m) (simp_all add: clientFrame_def goClientDecoders_def frame_types goNewProxyResp_enc
      cStartWorkConn.decoded sentStartWorkConn_def)

lemma readLoginReply_message:
  "in_int64 (lr_ServerTime m) \<Longrightarrow>
     readLoginReply goClientDecoders (Inr (TypeLoginResp, encLoginResp quoted m)) =
       (if lr_OK m then None else Some (LoginRefused (sentError quoted (lr_Error m))))"
  by (simp add: readLoginReply_def goClientDecoders_def cLoginResp.decoded sentLoginResp_def)

section \<open>Requests of the client are what their type says\<close>

definition well_typed :: "writeReq \<Rightarrow> bool" where
  "well_typed r \<longleftrightarrow> wq_typ r = cmsgType (wq_msg r) \<and> fitsCMsg (wq_msg r) \<and>
     wq_reqID r = (case wq_msg r of CNewProxy m \<Rightarrow> np_ReqID m | _ \<Rightarrow> 0)"

definition ports_fit :: "(gostring \<rightharpoonup> ProxyCfg) \<Rightarrow> bool" where
  "ports_fit m \<longleftrightarrow> (\<forall>n p. m n = Some p \<longrightarrow> in_int64 (pc_RemotePort p))"

definition config_fits :: "ClientCfg \<Rightarrow> bool" where
  "config_fits cfg \<longleftrightarrow> (\<forall>p \<in> set (cc_Proxies cfg). in_int64 (pc_RemotePort p))"

fun task_fits :: "task \<Rightarrow> bool" where
  "task_fits (TRegister p) \<longleftrightarrow> in_int64 (pc_RemotePort p)"
| "task_fits (TClose _) \<longleftrightarrow> True"
| "task_fits (TDiff oldM newM) \<longleftrightarrow> ports_fit newM"

fun rpc_fits :: "rpc \<Rightarrow> bool" where
  "rpc_fits (RSend _ r _ p) \<longleftrightarrow> in_int64 r \<and> in_int64 (pc_RemotePort p)"
| "rpc_fits _ \<longleftrightarrow> True"

text \<open>Labels whose integers are values of Go's types.\<close>

fun go_label :: "clabel \<Rightarrow> bool" where
  "go_label (CTick _ now) \<longleftrightarrow> in_int64 now"
| "go_label (CReload (Inr cfg)) \<longleftrightarrow> config_fits cfg"
| "go_label _ \<longleftrightarrow> True"

definition go_cstep ::
    "client_decoders \<Rightarrow> (gostring \<Rightarrow> gostring) \<Rightarrow> csys \<Rightarrow> clabel \<Rightarrow> csys \<Rightarrow> bool" where
  "go_cstep J u s l t \<longleftrightarrow> cstep J u s l t \<and> go_label l"

definition go_start :: "csys \<Rightarrow> bool" where
  "go_start s \<longleftrightarrow> (\<exists>cfg. config_fits cfg \<and> s = csys_init cfg)"

definition chans_typed :: "Client \<Rightarrow> bool" where
  "chans_typed c \<longleftrightarrow> (\<forall>k. \<forall>r \<in> set (ch_buf (hp_chan c k)). well_typed r)"

definition caller_fits :: "caller \<Rightarrow> bool" where
  "caller_fits a \<longleftrightarrow> (\<forall>t \<in> set (ca_tasks a). task_fits t) \<and> rpc_fits (ca_pc a)"

definition typed :: "csys \<Rightarrow> bool" where
  "typed s \<longleftrightarrow> chans_typed (cli s) \<and> ports_fit (cl_proxies (cli s)) \<and>
     (\<forall>k n. conns s k = Some n \<longrightarrow> (\<forall>r \<in> set (cn_wire n). well_typed r)) \<and>
     (\<forall>g. caller_fits (callers s g))"

lemma buildProxyMap_from: "buildProxyMap ps m n = Some p \<Longrightarrow> p \<in> set ps \<or> m n = Some p"
  by (induction ps arbitrary: m) (fastforce split: if_splits)+

lemma buildProxyMap_fits:
  "\<forall>p \<in> set ps. in_int64 (pc_RemotePort p) \<Longrightarrow> ports_fit (buildProxyMap ps Map.empty)"
  using buildProxyMap_from [of ps Map.empty] by (auto simp: ports_fit_def)

lemma newTasks_fit: "ports_fit newM \<Longrightarrow> t \<in> set (newTasks oldM newM ns) \<Longrightarrow> task_fits t"
  by (induction ns) (auto simp: ports_fit_def split: option.splits if_splits)

lemma reloadTasks_fit: "t \<in> set (reloadTasks oldM newM ns os) \<Longrightarrow> ports_fit newM \<Longrightarrow> task_fits t"
  by (auto simp: reloadTasks_def oldTasks_set dest: newTasks_fit)

lemma well_typed_requests [simp]:
  "in_int64 r \<Longrightarrow> in_int64 (pc_RemotePort p) \<Longrightarrow> well_typed (newProxyReq p r)"
  "well_typed (closeProxyReq n)"
  "in_int64 now \<Longrightarrow> well_typed \<lparr>wq_typ = TypePing, wq_msg = CPing \<lparr>ping_Ts = now\<rparr>, wq_reqID = 0\<rparr>"
  by (simp_all add: well_typed_def newProxyReq_def newProxyMsg_def closeProxyReq_def)

lemma chans_typed_send:
  "chans_typed c \<Longrightarrow> chanSend r (hp_chan c k) = Sent q \<Longrightarrow> well_typed r \<Longrightarrow> chans_typed (upd_chan k q c)"
  by (auto simp: chans_typed_def chanSend_def writeSend_def split: if_splits)

lemma chans_typed_upds [simp]:
  "chans_typed (c\<lparr>cl_pending := x\<rparr>) = chans_typed c" "chans_typed (c\<lparr>hp_reply := y\<rparr>) = chans_typed c"
  "chans_typed (c\<lparr>nx_reply := n\<rparr>) = chans_typed c" "chans_typed (c\<lparr>cl_reqSeq := i\<rparr>) = chans_typed c"
  by (simp_all add: chans_typed_def)

lemma callerStep_typed:
  assumes "callerStep ev c a = Some (CallOK c1 a1)" "chans_typed c" "caller_fits a"
  shows "chans_typed c1 \<and> caller_fits a1"
  using assms
  by (auto simp: callerStep_def beginTask_def regBegin_def nextReqID_def regLeave_def caller_fits_def Let_def
      dest: reloadTasks_fit intro!: chans_typed_send
      split: rpc.splits call_event.splits list.splits task.splits option.splits send_result.splits
        prod.splits if_splits)

lemma pingTick_typed:
  "pingTick now k c = Some c1 \<Longrightarrow> chans_typed c \<Longrightarrow> in_int64 now \<Longrightarrow> chans_typed c1"
  by (auto simp: pingTick_def intro!: chans_typed_send split: send_result.splits)

lemma connect_typed:
  assumes "connect J u e cfg c = (r, c1)" "chans_typed c"
  shows "chans_typed c1 \<and> cl_proxies c1 = cl_proxies c"
proof -
  have "cl_proxies c1 = cl_proxies c" using connect_frame(4) [of J u e cfg c] assms(1) by simp
  moreover have "chans_typed c1"
    using assms(1) by (cases rule: connect_cases [of J u e cfg c]) (use assms(2) in \<open>auto simp: chans_typed_def\<close>)
  ultimately show ?thesis by simp
qed

lemma go_cstep_typed:
  assumes "typed s" "go_cstep J u s l t"
  shows "typed t"
proof -
  from assms(2) have st: "cstep J u s l t" and lab: "go_label l" by (simp_all add: go_cstep_def)
  from assms(1) have ty: "chans_typed (cli s)" "ports_fit (cl_proxies (cli s))"
    "\<And>k n r. conns s k = Some n \<Longrightarrow> r \<in> set (cn_wire n) \<Longrightarrow> well_typed r" "\<And>g. caller_fits (callers s g)"
    by (auto simp: typed_def)
  show ?thesis
    using st
  proof (cases rule: cstep.cases)
    case (c_fail cfg e x c1)
    with connect_typed [OF c_fail(5) ty(1)] ty show ?thesis by (auto simp: typed_def)
  next
    case (c_connect cfg e k c1)
    with connect_typed [OF c_connect(5) ty(1)] ty show ?thesis by (auto simp: typed_def)
  next
    case (c_list k ord)
    have "task_fits x" if "x \<in> set (map TRegister (proxyList ord (cli s)))" for x
      using that ty(2) by (auto simp: proxyList_def ports_fit_def List.map_filter_def)
    with c_list ty show ?thesis by (auto simp: typed_def caller_fits_def)
  next
    case (c_close k n x)
    with ty show ?thesis by (auto simp: typed_def chans_typed_def)
  next
    case (c_write k n r q ok)
    then have q: "ch_buf (hp_chan (cli s) k) = r # ch_buf q" by (auto simp: writeRecv_def split: list.splits)
    with ty(1) have "well_typed r" "\<forall>r \<in> set (ch_buf q). well_typed r"
      unfolding chans_typed_def by (metis list.set_intros)+
    with c_write ty show ?thesis by (auto simp: typed_def chans_typed_def)
  next
    case (c_tick k n now c1)
    with lab have "in_int64 now" by simp
    from pingTick_typed [OF c_tick(6) ty(1) this] c_tick(6) c_tick ty show ?thesis
      by (auto simp: typed_def pingTick_def split: send_result.splits)
  next
    case (c_call g ev c1 a1)
    have "cl_proxies c1 = cl_proxies (cli s)"
      using c_call(5)
      by (auto simp: callerStep_def beginTask_def regBegin_def nextReqID_def regLeave_def Let_def
          split: rpc.splits call_event.splits list.splits task.splits option.splits send_result.splits
            prod.splits if_splits)
    with callerStep_typed [OF c_call(5) ty(1,4)] c_call ty show ?thesis by (auto simp: typed_def)
  next
    case (c_reload loaded ts c1)
    have "chans_typed c1 \<and> ports_fit (cl_proxies c1) \<and> (\<forall>t \<in> set ts. task_fits t)"
      using c_reload(6) lab c_reload(1) ty
      by (auto simp: reloadConfig_def Let_def config_fits_def chans_typed_def intro!: buildProxyMap_fits
          split: sum.splits)
    with c_reload ty show ?thesis by (auto simp: typed_def caller_fits_def)
  next
    case (c_clear k)
    with ty show ?thesis by (auto simp: typed_def chans_typed_def)
  qed (use ty in \<open>auto simp: typed_def chans_typed_def split: ctl_action.splits if_splits\<close>)
qed

lemma typed_init: "config_fits cfg \<Longrightarrow> typed (csys_init cfg)"
  by (auto simp: config_fits_def typed_def chans_typed_def csys_init_def NewClient_def caller_fits_def
      idle_caller_def intro!: buildProxyMap_fits)

interpretation typing: invariant_system go_start "go_cstep J u" typed for J u
proof
  show "go_start s \<Longrightarrow> typed s" for s by (auto simp: go_start_def typed_init)
qed (rule go_cstep_typed)

end
