(* ===== verification/ClientInv.thy ===== *)
theory ClientInv
  imports ClientSys
begin

text \<open>
  Invariants of the concurrent client: every reply channel belongs to one request, the stages of
  \<^verbatim>\<open>runOnce\<close> and of its control loop exclude each other, channels stay within their capacity
  and keep their order.
\<close>

section \<open>What a request step does\<close>

text \<open>The request number and the reply channel a goroutine is waiting on.\<close>

definition expects :: "caller \<Rightarrow> (int \<times> rid) option" where
  "expects a =
     (case ca_pc a of RSend k r ch p \<Rightarrow> Some (r, ch) | RWait r ch p \<Rightarrow> Some (r, ch) | _ \<Rightarrow> None)"

text \<open>A request step allocates the next reply channel, or keeps to what it has.\<close>

definition opens_request :: "Client \<Rightarrow> caller \<Rightarrow> Client \<Rightarrow> caller \<Rightarrow> bool" where
  "opens_request c a c1 a1 \<longleftrightarrow>
     (\<exists>r. expects a1 = Some (r, nx_reply c) \<and>
          cl_pending c1 = (cl_pending c)(r \<mapsto> nx_reply c) \<and>
          hp_reply c1 = (hp_reply c)(nx_reply c := []) \<and>
          nx_reply c1 = Suc (nx_reply c))"

definition continues_request :: "Client \<Rightarrow> caller \<Rightarrow> Client \<Rightarrow> caller \<Rightarrow> bool" where
  "continues_request c a c1 a1 \<longleftrightarrow>
     (expects a1 = expects a \<or> expects a1 = None) \<and> cl_pending c1 \<subseteq>\<^sub>m cl_pending c \<and>
     (\<forall>ch. set (hp_reply c1 ch) \<subseteq> set (hp_reply c ch)) \<and> nx_reply c1 = nx_reply c"

lemmas request_defs = opens_request_def continues_request_def expects_def

lemma map_le_refl_upd [simp]: "m(k := None) \<subseteq>\<^sub>m m"
  by (simp add: map_le_def)

lemma map_le_Some: "m \<subseteq>\<^sub>m m' \<Longrightarrow> m k = Some v \<Longrightarrow> m' k = Some v"
  by (auto simp: map_le_def dom_def)

lemma callerStep_request:
  assumes "callerStep ev c a = Some (CallOK c1 a1)"
  shows "opens_request c a c1 a1 \<or> continues_request c a c1 a1"
  using assms
  by (auto simp: callerStep_def beginTask_def regBegin_def nextReqID_def regLeave_def replyRecv_def
      Let_def request_defs
      split: rpc.splits call_event.splits list.splits task.splits option.splits send_result.splits
        prod.splits if_splits)

text \<open>Its effect on the rest of the client: at most one message appended to an open channel.\<close>

definition sends_on :: "Client \<Rightarrow> Client \<Rightarrow> bool" where
  "sends_on c c1 \<longleftrightarrow> hp_chan c1 = hp_chan c \<or>
     (\<exists>k r q. chanSend r (hp_chan c k) = Sent q \<and> hp_chan c1 = (hp_chan c)(k := q))"

definition same_session :: "Client \<Rightarrow> Client \<Rightarrow> bool" where
  "same_session c c1 \<longleftrightarrow>
     cl_session c1 = cl_session c \<and> cl_writeCh c1 = cl_writeCh c \<and> nx_chan c1 = nx_chan c"

lemma sends_onI:
  "hp_chan c1 = hp_chan c \<Longrightarrow> sends_on c c1"
  "chanSend r (hp_chan c k) = Sent q \<Longrightarrow> hp_chan c1 = (hp_chan c)(k := q) \<Longrightarrow> sends_on c c1"
  unfolding sends_on_def by blast+

lemma callerStep_sends:
  assumes "callerStep ev c a = Some (CallOK c1 a1)"
  shows "sends_on c c1 \<and> same_session c c1 \<and> cl_cfg c1 = cl_cfg c \<and> cl_proxies c1 = cl_proxies c \<and>
    os_conns c1 = os_conns c"
  using assms
  by (auto simp: callerStep_def beginTask_def regBegin_def nextReqID_def regLeave_def replyRecv_def
      Let_def same_session_def intro: sends_onI
      split: rpc.splits call_event.splits list.splits task.splits option.splits send_result.splits
        prod.splits if_splits)

lemma pingTick_effect:
  assumes "pingTick now k c = Some c1"
  shows "sends_on c c1 \<and> same_session c c1 \<and> cl_pending c1 = cl_pending c \<and>
    hp_reply c1 = hp_reply c \<and> nx_reply c1 = nx_reply c"
  using assms
  by (auto simp: pingTick_def same_session_def intro: sends_onI split: send_result.splits)

lemma chanSend_Sent:
  "chanSend r ch = Sent q \<longleftrightarrow> \<not> ch_closed ch \<and> writeSend r ch = Some q"
  by (auto simp: chanSend_def split: option.splits)

lemma writeSend_some:
  "writeSend r ch = Some q \<longleftrightarrow> length (ch_buf ch) < writeCap \<and> q = ch\<lparr>ch_buf := ch_buf ch @ [r]\<rparr>"
  by (auto simp: writeSend_def)

lemma writeRecv_some:
  "writeRecv ch = Some (r, q) \<longleftrightarrow> ch_buf ch = r # ch_buf q \<and> ch_closed q = ch_closed ch"
  by (auto simp: writeRecv_def split: list.splits)

section \<open>Replies reach the request they answer\<close>

text \<open>
  Everything that leads to the reply channel \<open>ch\<close> carries the number \<open>r\<close>: what is in it, the
  entries of the pending table that point to it, and a response a control loop is about to put
  into it.
\<close>

definition reply_owned :: "Client \<Rightarrow> (kid \<rightharpoonup> cconn) \<Rightarrow> rid \<Rightarrow> int \<Rightarrow> bool" where
  "reply_owned c cns ch r \<longleftrightarrow>
     (\<forall>x \<in> set (hp_reply c ch). nr_ReqID x = r) \<and>
     (\<forall>r'. cl_pending c r' = Some ch \<longrightarrow> r' = r) \<and>
     (\<forall>k n x. cns k = Some n \<longrightarrow> cn_ctl n = CtlBlocked ch x \<longrightarrow> nr_ReqID x = r)"

definition reply_fresh :: "Client \<Rightarrow> (kid \<rightharpoonup> cconn) \<Rightarrow> bool" where
  "reply_fresh c cns \<longleftrightarrow>
     (\<forall>r ch. cl_pending c r = Some ch \<longrightarrow> ch < nx_reply c) \<and>
     (\<forall>k n ch x. cns k = Some n \<longrightarrow> cn_ctl n = CtlBlocked ch x \<longrightarrow> ch < nx_reply c)"

definition routed :: "csys \<Rightarrow> bool" where
  "routed s \<longleftrightarrow>
     reply_fresh (cli s) (conns s) \<and>
     (\<forall>g r ch. expects (callers s g) = Some (r, ch) \<longrightarrow>
        ch < nx_reply (cli s) \<and> reply_owned (cli s) (conns s) ch r)"

text \<open>The tables may lose entries and the channels responses; the control loops may move on.\<close>

definition ctl_less :: "(kid \<rightharpoonup> cconn) \<Rightarrow> (kid \<rightharpoonup> cconn) \<Rightarrow> bool" where
  "ctl_less cns1 cns \<longleftrightarrow>
     (\<forall>k n ch x. cns1 k = Some n \<longrightarrow> cn_ctl n = CtlBlocked ch x \<longrightarrow>
        (\<exists>n'. cns k = Some n' \<and> cn_ctl n' = CtlBlocked ch x))"

lemma ctl_less_refl [simp]: "ctl_less cns cns"
  by (simp add: ctl_less_def)

lemma ctl_less_upd:
  "cns k = Some n \<Longrightarrow> (\<And>ch x. cn_ctl n1 = CtlBlocked ch x \<Longrightarrow> cn_ctl n = CtlBlocked ch x) \<Longrightarrow>
     ctl_less (cns(k \<mapsto> n1)) cns"
  by (auto simp: ctl_less_def)

lemma ctl_less_new: "(\<And>ch x. cn_ctl n1 \<noteq> CtlBlocked ch x) \<Longrightarrow> ctl_less (cns(k \<mapsto> n1)) cns"
  by (auto simp: ctl_less_def)

lemma reply_owned_mono:
  assumes "reply_owned c cns ch r" "cl_pending c1 \<subseteq>\<^sub>m cl_pending c"
    "set (hp_reply c1 ch) \<subseteq> set (hp_reply c ch)" "ctl_less cns1 cns"
  shows "reply_owned c1 cns1 ch r"
  unfolding reply_owned_def
proof (intro conjI allI impI ballI)
  fix x assume "x \<in> set (hp_reply c1 ch)"
  with assms(1,3) show "nr_ReqID x = r" by (auto simp: reply_owned_def)
next
  fix r' assume "cl_pending c1 r' = Some ch"
  then have "cl_pending c r' = Some ch" by (rule map_le_Some [OF assms(2)])
  with assms(1) show "r' = r" by (simp add: reply_owned_def)
next
  fix k n x assume "cns1 k = Some n" "cn_ctl n = CtlBlocked ch x"
  then obtain n' where "cns k = Some n'" "cn_ctl n' = CtlBlocked ch x"
    using assms(4) unfolding ctl_less_def by blast
  with assms(1) show "nr_ReqID x = r" unfolding reply_owned_def by blast
qed

lemma reply_fresh_mono:
  assumes "reply_fresh c cns" "cl_pending c1 \<subseteq>\<^sub>m cl_pending c" "nx_reply c \<le> nx_reply c1"
    "ctl_less cns1 cns"
  shows "reply_fresh c1 cns1"
  unfolding reply_fresh_def
proof (intro conjI allI impI)
  fix r ch assume "cl_pending c1 r = Some ch"
  then have "cl_pending c r = Some ch" by (rule map_le_Some [OF assms(2)])
  with assms(1) have "ch < nx_reply c" by (simp add: reply_fresh_def)
  then show "ch < nx_reply c1" using assms(3) by simp
next
  fix k n ch x assume "cns1 k = Some n" "cn_ctl n = CtlBlocked ch x"
  then obtain n' where "cns k = Some n'" "cn_ctl n' = CtlBlocked ch x"
    using assms(4) unfolding ctl_less_def by blast
  with assms(1) have "ch < nx_reply c" unfolding reply_fresh_def by blast
  then show "ch < nx_reply c1" using assms(3) by simp
qed

text \<open>A step that does not touch the requests.\<close>

lemma routed_frame:
  assumes inv: "routed s" and p: "cl_pending (cli t) \<subseteq>\<^sub>m cl_pending (cli s)"
    and h: "\<And>ch. set (hp_reply (cli t) ch) \<subseteq> set (hp_reply (cli s) ch)"
    and n: "nx_reply (cli t) = nx_reply (cli s)" and c: "ctl_less (conns t) (conns s)"
    and e: "\<And>g. expects (callers t g) = expects (callers s g) \<or> expects (callers t g) = None"
  shows "routed t"
  unfolding routed_def
proof (intro conjI allI impI)
  from inv have f: "reply_fresh (cli s) (conns s)" by (simp add: routed_def)
  show "reply_fresh (cli t) (conns t)" by (rule reply_fresh_mono [OF f p _ c]) (simp add: n)
next
  fix g r ch assume "expects (callers t g) = Some (r, ch)"
  with e [of g] have "expects (callers s g) = Some (r, ch)" by auto
  with inv have o: "ch < nx_reply (cli s)" "reply_owned (cli s) (conns s) ch r"
    by (auto simp: routed_def)
  from o(1) n show "ch < nx_reply (cli t)" by simp
  show "reply_owned (cli t) (conns t) ch r" by (rule reply_owned_mono [OF o(2) p h c])
qed

text \<open>A request begins: its channel is new, so nothing leads to it but its own entry.\<close>

lemma routed_open:
  assumes inv: "routed s" and o: "opens_request (cli s) (callers s g) c1 a1"
  shows "routed (s\<lparr>cli := c1, callers := (callers s)(g := a1)\<rparr>)"
proof -
  let ?c = "cli s" and ?nx = "nx_reply (cli s)"
  from o obtain r where r: "expects a1 = Some (r, ?nx)"
    "cl_pending c1 = (cl_pending ?c)(r \<mapsto> ?nx)" "hp_reply c1 = (hp_reply ?c)(?nx := [])"
    "nx_reply c1 = Suc ?nx"
    by (auto simp: opens_request_def)
  from inv have f: "reply_fresh ?c (conns s)"
    and w: "\<And>g r ch. expects (callers s g) = Some (r, ch) \<Longrightarrow>
        ch < ?nx \<and> reply_owned ?c (conns s) ch r"
    by (auto simp: routed_def)
  have "reply_fresh c1 (conns s)"
    using f r unfolding reply_fresh_def by (auto split: if_splits intro: less_SucI)
  moreover have "reply_owned c1 (conns s) ?nx r"
  proof -
    have "\<not> (conns s k = Some n \<and> cn_ctl n = CtlBlocked ?nx x)" for k n x
      using f unfolding reply_fresh_def by blast
    moreover have "cl_pending (cli s) q \<noteq> Some ?nx" for q
      using f unfolding reply_fresh_def by blast
    ultimately show ?thesis using r unfolding reply_owned_def by (auto split: if_splits)
  qed
  moreover have "reply_owned c1 (conns s) ch q" if "reply_owned ?c (conns s) ch q" "ch < ?nx" for ch q
    using that r unfolding reply_owned_def by (auto split: if_splits)
  ultimately show ?thesis
    using w r by (auto simp: routed_def intro: less_SucI)
qed

text \<open>A response moves from the pending table to the control loop, and from there to its channel.\<close>

lemma routed_accept:
  assumes inv: "routed s" and k: "conns s k = Some n" "cl_pending (cli s) (nr_ReqID x) = Some ch"
  shows "routed (s\<lparr>conns := (conns s)(k \<mapsto> n\<lparr>cn_ctl := CtlBlocked ch x\<rparr>)\<rparr>)"
proof -
  let ?t = "s\<lparr>conns := (conns s)(k \<mapsto> n\<lparr>cn_ctl := CtlBlocked ch x\<rparr>)\<rparr>"
  have "reply_fresh (cli s) (conns ?t)"
    using inv k unfolding routed_def reply_fresh_def by (auto split: if_splits)
  moreover have "reply_owned (cli s) (conns ?t) c r" if "reply_owned (cli s) (conns s) c r" for c r
    using that k unfolding reply_owned_def by (auto split: if_splits)
  ultimately show ?thesis using inv by (simp add: routed_def)
qed

lemma routed_deliver:
  assumes inv: "routed s" and k: "conns s k = Some n" "cn_ctl n = CtlBlocked ch x"
    and q: "q = hp_reply (cli s) ch @ [x]"
  shows "routed (s\<lparr>cli := (cli s)\<lparr>hp_reply := (hp_reply (cli s))(ch := q)\<rparr>,
      conns := (conns s)(k \<mapsto> n\<lparr>cn_ctl := CtlRead\<rparr>)\<rparr>)" (is "routed ?t")
proof -
  have l: "ctl_less (conns ?t) (conns s)" by (simp add: ctl_less_new)
  from inv have f: "reply_fresh (cli s) (conns s)" by (simp add: routed_def)
  have "reply_fresh (cli ?t) (conns ?t)"
    by (rule reply_fresh_mono [OF f _ _ l]) simp_all
  moreover have "reply_owned (cli ?t) (conns ?t) c r" if o: "reply_owned (cli s) (conns s) c r" for c r
  proof -
    from o k have "c = ch \<Longrightarrow> nr_ReqID x = r" by (auto simp: reply_owned_def)
    moreover have "reply_owned (cli s) (conns ?t) c r"
      by (rule reply_owned_mono [OF o _ _ l]) simp_all
    ultimately show ?thesis using q by (auto simp: reply_owned_def split: if_splits)
  qed
  ultimately show ?thesis using inv by (simp add: routed_def)
qed

lemma replySend_some: "replySend x q = Some q' \<Longrightarrow> q' = q @ [x] \<and> q = []"
  by (auto simp: replySend_def split: if_splits)

lemma deliver_only:
  "clientFrame J c ty payload = CtlDeliver ch x \<Longrightarrow> cl_pending c (nr_ReqID x) = Some ch"
  by (auto simp: clientFrame_def deliverPending_def split: if_splits option.splits)

lemma expects_upd [simp]: "expects (a\<lparr>ca_tasks := ts\<rparr>) = expects a"
  by (simp add: expects_def)

lemma reloadConfig_frame:
  assumes "reloadConfig l c = (ts, c1)"
  shows "cl_pending c1 = cl_pending c" "hp_reply c1 = hp_reply c" "nx_reply c1 = nx_reply c"
    "hp_chan c1 = hp_chan c" "same_session c c1" "os_conns c1 = os_conns c"
  using assms by (auto simp: reloadConfig_def same_session_def Let_def split: sum.splits)

lemma expects_tasks [simp]: "expects ((callers s g)\<lparr>ca_tasks := ts\<rparr>) = expects (callers s g)"
  by (rule expects_upd)

lemma connect_requests:
  "connect J u e cfg c = (r, c1) \<Longrightarrow>
     cl_pending c1 = cl_pending c \<and> hp_reply c1 = hp_reply c \<and> nx_reply c1 = nx_reply c"
  using connect_frame [of J u e cfg c] by auto

lemma routed_step:
  assumes inv: "routed s" and st: "cstep J u s l t"
  shows "routed t"
  using st
proof (cases rule: cstep.cases)
  case (c_fail cfg e x c1)
  from connect_requests [OF c_fail(5)] c_fail show ?thesis by (intro routed_frame [OF inv]) auto
next
  case (c_connect cfg e k c1)
  from connect_requests [OF c_connect(5)] c_connect show ?thesis by (intro routed_frame [OF inv]) (auto intro: ctl_less_new)
next
  case (c_frame k n ty payload act)
  show ?thesis
  proof (cases act)
    case CtlNothing
    with c_frame inv show ?thesis by simp
  next
    case (CtlWork name)
    with c_frame show ?thesis by (intro routed_frame [OF inv]) auto
  next
    case (CtlDeliver ch x)
    with c_frame have "cl_pending (cli s) (nr_ReqID x) = Some ch" by (intro deliver_only) auto
    from routed_accept [OF inv c_frame(4) this] CtlDeliver c_frame show ?thesis by simp
  qed
next
  case (c_deliver k n ch x q)
  then have "q = hp_reply (cli s) ch @ [x]" by (auto dest: replySend_some)
  from routed_deliver [OF inv _ _ this] c_deliver show ?thesis by simp
next
  case (c_tick k n now c1)
  from pingTick_effect [OF c_tick(6)] c_tick show ?thesis by (intro routed_frame [OF inv]) auto
next
  case (c_call g ev c1 a1)
  from callerStep_request [OF c_call(5)] show ?thesis
  proof
    assume "opens_request (cli s) (callers s g) c1 a1"
    from routed_open [OF inv this] c_call show ?thesis by simp
  next
    assume "continues_request (cli s) (callers s g) c1 a1"
    with c_call show ?thesis
      by (intro routed_frame [OF inv]) (auto simp: continues_request_def)
  qed
next
  case (c_reload loaded ts c1)
  from reloadConfig_frame [OF c_reload(6)] c_reload show ?thesis
    by (intro routed_frame [OF inv]) auto
next
  case (c_clear k)
  then show ?thesis by (intro routed_frame [OF inv]) auto
qed (intro routed_frame [OF inv], auto intro!: ctl_less_upd split: if_splits)+

section \<open>The stages of a connection\<close>

definition stage_of :: "mainpc \<Rightarrow> kid option" where
  "stage_of m =
     (case m of MList k \<Rightarrow> Some k | MTasks k \<Rightarrow> Some k | MAwait k \<Rightarrow> Some k
      | MStop k \<Rightarrow> Some k | MClear k \<Rightarrow> Some k | _ \<Rightarrow> None)"

definition live_of :: "mainpc \<Rightarrow> kid option" where
  "live_of m = (case m of MList k \<Rightarrow> Some k | MTasks k \<Rightarrow> Some k | MAwait k \<Rightarrow> Some k | _ \<Rightarrow> None)"

text \<open>The channel a request goroutine has picked up.\<close>

definition uses_chan :: "caller \<Rightarrow> kid option" where
  "uses_chan a = (case ca_pc a of RSend k r ch p \<Rightarrow> Some k | RClose k n \<Rightarrow> Some k | _ \<Rightarrow> None)"

text \<open>
  One connection against the stage of \<^verbatim>\<open>Run\<close>: its channel is open exactly while \<^verbatim>\<open>Run\<close>
  has not seen its control loop end, and its pinger is told to stop only after that.
\<close>

definition conn_stage :: "mainpc \<Rightarrow> kid \<Rightarrow> wchan \<Rightarrow> cconn \<Rightarrow> bool" where
  "conn_stage m k ch n \<longleftrightarrow>
     (ch_closed ch \<longleftrightarrow> live_of m \<noteq> Some k) \<and>
     (ch_closed ch \<longrightarrow> (\<exists>x. cn_ctl n = CtlEnded x)) \<and>
     (cn_stop n \<longrightarrow> ch_closed ch) \<and> length (ch_buf ch) \<le> writeCap"

definition staged :: "csys \<Rightarrow> bool" where
  "staged s \<longleftrightarrow>
     cl_session (cli s) = stage_of (mpc s) \<and> cl_writeCh (cli s) = stage_of (mpc s) \<and>
     (\<forall>k. stage_of (mpc s) = Some k \<longrightarrow> k < nx_chan (cli s)) \<and>
     (\<forall>k. (\<exists>n. conns s k = Some n) \<longleftrightarrow> k < nx_chan (cli s)) \<and>
     (\<forall>k n. conns s k = Some n \<longrightarrow> conn_stage (mpc s) k (hp_chan (cli s) k) n) \<and>
     (\<forall>g k. uses_chan (callers s g) = Some k \<longrightarrow> k < nx_chan (cli s))"

lemma staged_init: "staged (csys_init cfg)"
  by (simp add: staged_def csys_init_def NewClient_def stage_of_def uses_chan_def idle_caller_def)

lemma routed_init: "routed (csys_init cfg)"
  by (simp add: routed_def reply_fresh_def csys_init_def NewClient_def expects_def idle_caller_def)

lemma callerStep_uses:
  assumes "callerStep ev c a = Some (CallOK c1 a1)" "uses_chan a1 = Some k"
  shows "uses_chan a = Some k \<or> cl_writeCh c = Some k"
  using assms
  by (auto simp: callerStep_def beginTask_def regBegin_def nextReqID_def uses_chan_def Let_def
      split: rpc.splits call_event.splits list.splits task.splits option.splits send_result.splits
        prod.splits if_splits)

text \<open>A step that keeps the stage and at most appends to one open channel.\<close>

lemma staged_send:
  assumes inv: "staged s" and e: "sends_on (cli s) c1" "same_session (cli s) c1"
    and m: "mpc t = mpc s" "conns t = conns s" "cli t = c1"
    and g: "\<And>g k. uses_chan (callers t g) = Some k \<Longrightarrow>
      uses_chan (callers s g) = Some k \<or> cl_writeCh (cli s) = Some k"
  shows "staged t"
proof -
  have ses: "cl_session c1 = cl_session (cli s)" "cl_writeCh c1 = cl_writeCh (cli s)"
    "nx_chan c1 = nx_chan (cli s)"
    using e(2) by (auto simp: same_session_def)
  have cs: "conn_stage (mpc s) k (hp_chan c1 k) n" if "conns s k = Some n" for k n
  proof -
    from that inv have o: "conn_stage (mpc s) k (hp_chan (cli s) k) n" by (simp add: staged_def)
    from e(1) show ?thesis
      unfolding sends_on_def
    proof
      assume "\<exists>j r q. chanSend r (hp_chan (cli s) j) = Sent q \<and> hp_chan c1 = (hp_chan (cli s))(j := q)"
      with o show ?thesis
        by (auto simp: conn_stage_def chanSend_Sent writeSend_some split: if_splits)
    qed (use o in simp)
  qed
  have "k < nx_chan (cli s)" if "uses_chan (callers t g) = Some k" for g k
    using g [OF that] inv by (auto simp: staged_def)
  with inv ses m cs show ?thesis by (simp add: staged_def)
qed

text \<open>A step of one connection that leaves the client alone or shortens the channel.\<close>

lemma staged_conn:
  assumes inv: "staged s" and k: "conns s k = Some n"
    and t: "mpc t = mpc s" "conns t = (conns s)(k \<mapsto> n1)" "callers t = callers s"
      "same_session (cli s) (cli t)" "\<And>j. j \<noteq> k \<Longrightarrow> hp_chan (cli t) j = hp_chan (cli s) j"
      "ch_closed (hp_chan (cli t) k) = ch_closed (hp_chan (cli s) k)"
      "length (ch_buf (hp_chan (cli t) k)) \<le> length (ch_buf (hp_chan (cli s) k))"
    and n: "cn_stop n1 = cn_stop n" "\<And>x. cn_ctl n = CtlEnded x \<Longrightarrow> \<exists>y. cn_ctl n1 = CtlEnded y"
  shows "staged t"
proof -
  from inv k have o: "conn_stage (mpc s) k (hp_chan (cli s) k) n" by (simp add: staged_def)
  with t n have "conn_stage (mpc s) k (hp_chan (cli t) k) n1"
    unfolding conn_stage_def by fastforce
  moreover from inv k have "k < nx_chan (cli s)" unfolding staged_def by blast
  ultimately show ?thesis
    using inv t unfolding staged_def same_session_def by auto
qed

lemma same_session_refl [simp]: "same_session c c"
  by (simp add: same_session_def)

lemma connect_OK:
  assumes "connect J u e cfg c = (Inr k, c1)"
  shows "k = nx_chan c" "cl_session c1 = Some k" "cl_writeCh c1 = Some k" "nx_chan c1 = Suc k"
    "hp_chan c1 = (hp_chan c)(k := \<lparr>ch_buf = [], ch_closed = False\<rparr>)"
  by (rule connect_cases [of J u e cfg c], use assms in simp_all)+

lemma connect_failed:
  assumes "connect J u e cfg c = (Inl x, c1)"
  shows "cl_session c1 = None" "cl_writeCh c1 = None" "nx_chan c1 = nx_chan c" "hp_chan c1 = hp_chan c"
  by (rule connect_cases [of J u e cfg c], use assms in simp_all)+

lemmas stage_simps = stage_of_def live_of_def

text \<open>A new connection, the end of the old one.\<close>

lemma staged_connect:
  assumes inv: "staged s" and m: "mpc s = MDial cfg" and c: "connect J u e cfg (cli s) = (Inr k, c1)"
    and n: "n = \<lparr>cn_ctl = CtlRead, cn_writer = True, cn_wire = [], cn_ping = True, cn_stop = False\<rparr>"
  shows "staged (s\<lparr>cli := c1, mpc := MList k, conns := (conns s)(k \<mapsto> n)\<rparr>)"
proof -
  note k = connect_OK [OF c]
  have new: "conn_stage (MList k) k (hp_chan c1 k) n"
    by (simp add: conn_stage_def k(5) n live_of_def)
  have old: "conn_stage (MList k) j (hp_chan c1 j) n'" if "conns s j = Some n'" "j \<noteq> k" for j n'
    using inv that m by (auto simp: staged_def conn_stage_def k(5) stage_simps)
  have ex: "(\<exists>n'. conns s j = Some n') \<longleftrightarrow> j < k" for j
    using inv by (simp add: staged_def k(1))
  have uses: "j < k" if "uses_chan (callers s g) = Some j" for g j
    using inv that by (auto simp: staged_def k(1))
  show ?thesis
    using new old ex uses k(2-4) unfolding staged_def
    by (auto simp: stage_of_def less_Suc_eq)
qed

lemma staged_close:
  assumes inv: "staged s" and m: "mpc s = MAwait k"
    and n: "conns s k = Some n" "cn_ctl n = CtlEnded x"
  shows "staged (s\<lparr>cli := upd_chan k ((hp_chan (cli s) k)\<lparr>ch_closed := True\<rparr>) (cli s), mpc := MStop k\<rparr>)"
  using inv m n by (auto simp: staged_def conn_stage_def stage_simps)

lemma staged_stop:
  assumes inv: "staged s" and m: "mpc s = MStop k" and n: "conns s k = Some n"
  shows "staged (s\<lparr>mpc := MClear k, conns := (conns s)(k \<mapsto> n\<lparr>cn_stop := True\<rparr>)\<rparr>)"
proof -
  have "conn_stage (MClear k) j (hp_chan (cli s) j) n'"
    if "((conns s)(k \<mapsto> n\<lparr>cn_stop := True\<rparr>)) j = Some n'" for j n'
    using inv m n that by (auto simp: staged_def conn_stage_def stage_simps split: if_splits)
  moreover have "(\<exists>n'. ((conns s)(k \<mapsto> n\<lparr>cn_stop := True\<rparr>)) j = Some n') \<longleftrightarrow> (\<exists>n'. conns s j = Some n')" for j
    using n by auto
  ultimately show ?thesis
    using inv m by (simp add: staged_def stage_simps)
qed

text \<open>A change of stage that keeps the live connection and the client as it is.\<close>

lemma staged_stage:
  assumes inv: "staged s" and m: "stage_of m = stage_of (mpc s)" "live_of m = live_of (mpc s)"
    and u: "\<And>g. uses_chan (cs g) = uses_chan (callers s g)"
  shows "staged (s\<lparr>mpc := m, callers := cs\<rparr>)"
proof -
  from m(2) have "conn_stage m = conn_stage (mpc s)" by (simp add: conn_stage_def fun_eq_iff)
  with inv m(1) u show ?thesis by (simp add: staged_def)
qed

lemma uses_tasks [simp]: "uses_chan (a\<lparr>ca_tasks := ts\<rparr>) = uses_chan a"
  by (simp add: uses_chan_def)

lemma upd_self [simp]: "s\<lparr>mpc := m, callers := callers s\<rparr> = s\<lparr>mpc := m\<rparr>"
  by simp

lemma staged_step:
  assumes inv: "staged s" and st: "cstep J u s l t"
  shows "staged t"
  using st
proof (cases rule: cstep.cases)
  case c_cancel
  with inv show ?thesis by (simp add: staged_def)
next
  case c_return
  with staged_stage [OF inv, of MReturned "callers s"] show ?thesis by (simp add: stage_simps)
next
  case c_attempt
  with staged_stage [OF inv, of "MDial (cl_cfg (cli s))" "callers s"] show ?thesis
    by (simp add: stage_simps)
next
  case (c_fail cfg e x c1)
  have "conn_stage MIdle = conn_stage (mpc s)"
    using c_fail(4) by (simp add: conn_stage_def live_of_def fun_eq_iff)
  with inv c_fail connect_failed [OF c_fail(5)] show ?thesis
    by (simp add: staged_def stage_of_def)
next
  case (c_connect cfg e k c1)
  from staged_connect [OF inv c_connect(4,5) refl] c_connect(2) show ?thesis by simp
next
  case (c_list k ord)
  from staged_stage [OF inv, of "MTasks k" "(callers s)(Main := (callers s Main)
      \<lparr>ca_tasks := List.map TRegister (proxyList ord (cli s))\<rparr>)"] c_list
  show ?thesis by (simp add: stage_simps)
next
  case (c_registered k)
  with staged_stage [OF inv, of "MAwait k" "callers s"] show ?thesis by (simp add: stage_simps)
next
  case (c_close k n x)
  from staged_close [OF inv c_close(4-6)] c_close(2) show ?thesis by simp
next
  case (c_stop k n)
  from staged_stop [OF inv c_stop(4,5)] c_stop(2) show ?thesis by simp
next
  case (c_clear k)
  have "conn_stage MIdle = conn_stage (mpc s)"
    using c_clear(4) by (simp add: conn_stage_def live_of_def fun_eq_iff)
  with inv c_clear show ?thesis by (simp add: staged_def stage_of_def)
next
  case (c_frame k n ty payload act)
  show ?thesis
  proof (cases act)
    case CtlNothing
    with c_frame inv show ?thesis by simp
  next
    case (CtlWork name)
    with c_frame inv show ?thesis by (simp add: staged_def)
  next
    case (CtlDeliver ch x)
    with c_frame show ?thesis
      by (intro staged_conn [OF inv c_frame(4), where ?n1.0 = "n\<lparr>cn_ctl := CtlBlocked ch x\<rparr>"]) auto
  qed
next
  case (c_deliver k n ch x q)
  then show ?thesis by (intro staged_conn [OF inv c_deliver(4), where ?n1.0 = "n\<lparr>cn_ctl := CtlRead\<rparr>"]) (auto simp: same_session_def)
next
  case (c_readerr k n x)
  then show ?thesis by (intro staged_conn [OF inv c_readerr(4), where ?n1.0 = "n\<lparr>cn_ctl := CtlEnded x\<rparr>"]) auto
next
  case (c_write k n r q ok)
  then show ?thesis
    by (intro staged_conn [OF inv c_write(4), where ?n1.0 = "if ok then n\<lparr>cn_wire := cn_wire n @ [r]\<rparr> else n\<lparr>cn_writer := False\<rparr>"]) (auto simp: writeRecv_some same_session_def)
next
  case (c_writer_end k n)
  then show ?thesis by (intro staged_conn [OF inv c_writer_end(4), where ?n1.0 = "n\<lparr>cn_writer := False\<rparr>"]) auto
next
  case (c_tick k n now c1)
  from pingTick_effect [OF c_tick(6)] c_tick show ?thesis
    by (intro staged_send [OF inv, of c1]) auto
next
  case (c_tick_panic k n now)
  with inv show ?thesis by (simp add: staged_def)
next
  case (c_ping_end k n)
  then show ?thesis by (intro staged_conn [OF inv c_ping_end(4), where ?n1.0 = "n\<lparr>cn_ping := False\<rparr>"]) auto
next
  case (c_call g ev c1 a1)
  from callerStep_sends [OF c_call(5)] callerStep_uses [OF c_call(5)] c_call show ?thesis
    by (intro staged_send [OF inv, of c1]) (auto split: if_splits)
next
  case (c_call_panic g ev)
  with inv show ?thesis by (simp add: staged_def)
next
  case (c_reload loaded ts c1)
  from reloadConfig_frame [OF c_reload(6)] c_reload show ?thesis
    by (intro staged_send [OF inv, of c1]) (auto simp: sends_on_def split: if_splits)
next
  case (c_work name e st closed)
  with inv show ?thesis by (simp add: staged_def)
qed

interpretation client_routing: invariant_system "\<lambda>s. s = csys_init cfg" "cstep J u" routed for cfg J u
proof
  show "s = csys_init cfg \<Longrightarrow> routed s" for s by (simp add: routed_init)
qed (rule routed_step)

interpretation client_stages: invariant_system "\<lambda>s. s = csys_init cfg" "cstep J u" staged for cfg J u
proof
  show "s = csys_init cfg \<Longrightarrow> staged s" for s by (simp add: staged_init)
qed (rule staged_step)

section \<open>Consequences\<close>

definition loop_runs :: "cconn \<Rightarrow> bool" where
  "loop_runs n \<longleftrightarrow> (case cn_ctl n of CtlEnded _ \<Rightarrow> False | _ \<Rightarrow> True)"

lemma not_loop_runs: "\<not> loop_runs n \<longleftrightarrow> (\<exists>x. cn_ctl n = CtlEnded x)"
  by (simp add: loop_runs_def split: ctlpc.splits)

text \<open>Only the connection \<^verbatim>\<open>Run\<close> is serving has a control loop that still runs.\<close>

lemma one_live_loop:
  assumes "staged s" "conns s k = Some n" "loop_runs n"
  shows "live_of (mpc s) = Some k \<and> \<not> ch_closed (hp_chan (cli s) k)"
proof -
  from assms(1,2) have "conn_stage (mpc s) k (hp_chan (cli s) k) n" by (simp add: staged_def)
  with assms(3) show ?thesis unfolding conn_stage_def by (metis not_loop_runs)
qed

text \<open>A panic comes from a send on the channel of a connection whose control loop has ended.\<close>

lemma callerStep_panic:
  "callerStep ev c a = Some CallPanic \<Longrightarrow> \<exists>k. uses_chan a = Some k \<and> ch_closed (hp_chan c k)"
  by (auto simp: callerStep_def beginTask_def regBegin_def chanSend_def uses_chan_def
      split: rpc.splits call_event.splits list.splits task.splits option.splits send_result.splits
        prod.splits if_splits)

lemma pingTick_panic: "pingTick now k c = None \<Longrightarrow> ch_closed (hp_chan c k)"
  by (auto simp: pingTick_def chanSend_def split: send_result.splits if_splits option.splits)

lemma panic_after_end:
  assumes inv: "staged s" and st: "cstep J u s l t" and p: "\<not> panicked s" "panicked t"
  shows "\<exists>k n x. (l = CTickPanic k \<or> (\<exists>g. l = CCallPanic g \<and> uses_chan (callers s g) = Some k)) \<and>
    conns s k = Some n \<and> cn_ctl n = CtlEnded x \<and> ch_closed (hp_chan (cli s) k)"
proof -
  have "\<exists>k n. (l = CTickPanic k \<or> (\<exists>g. l = CCallPanic g \<and> uses_chan (callers s g) = Some k)) \<and>
      conns s k = Some n \<and> ch_closed (hp_chan (cli s) k)"
    using st
  proof (cases rule: cstep.cases)
    case (c_tick_panic k n now)
    then show ?thesis using pingTick_panic by blast
  next
    case (c_call_panic g ev)
    then obtain k where k: "uses_chan (callers s g) = Some k" "ch_closed (hp_chan (cli s) k)"
      using callerStep_panic by blast
    with inv have "\<exists>n. conns s k = Some n" by (simp add: staged_def)
    with k c_call_panic(1) show ?thesis by blast
  qed (use p in \<open>auto split: ctl_action.splits\<close>)
  then obtain k n where k: "l = CTickPanic k \<or> (\<exists>g. l = CCallPanic g \<and> uses_chan (callers s g) = Some k)"
    "conns s k = Some n" "ch_closed (hp_chan (cli s) k)" by blast
  with inv have "conn_stage (mpc s) k (hp_chan (cli s) k) n" by (simp add: staged_def)
  with k show ?thesis unfolding conn_stage_def by blast
qed

text \<open>
  The control loop has ended and the pinger has not been told: closing the channel and the next tick
  take the process down.
\<close>

lemma end_can_panic:
  assumes "\<not> panicked s" "mpc s = MAwait k" "conns s k = Some n" "cn_ctl n = CtlEnded x" "cn_ping n"
  shows "\<exists>m t. cstep J u s (CCloseWrite x) m \<and> cstep J u m (CTickPanic k) t \<and>
    \<not> panicked m \<and> panicked t"
proof -
  let ?m = "s\<lparr>cli := upd_chan k ((hp_chan (cli s) k)\<lparr>ch_closed := True\<rparr>) (cli s), mpc := MStop k\<rparr>"
  have "cstep J u s (CCloseWrite x) ?m" using assms(1-4) by (rule c_close)
  moreover have "cstep J u ?m (CTickPanic k) (?m\<lparr>panicked := True\<rparr>)"
    by (rule c_tick_panic [where now = 0 and n = n])
      (use assms in \<open>simp_all add: pingTick_def chanSend_def\<close>)
  ultimately show ?thesis using assms(1) by (intro exI [of _ ?m] exI [of _ "?m\<lparr>panicked := True\<rparr>"]) simp
qed

text \<open>
  While the control loop of its connection has not ended, \<^verbatim>\<open>Run\<close> does not get past that
  connection, whether the context is cancelled or not.
\<close>

lemma serving_step:
  assumes "cstep J u s l t" "live_of (mpc s) = Some k" "\<And>x. l \<noteq> CReadError k x"
    and "conns s k = Some n" "loop_runs n"
  shows "live_of (mpc t) = Some k \<and> (\<exists>n'. conns t k = Some n' \<and> loop_runs n')"
  using assms
  by (cases rule: cstep.cases)
    (auto simp: live_of_def loop_runs_def split: ctl_action.splits if_splits mainpc.splits)

lemma serving_run:
  assumes "run (cstep J u) s ls t" "live_of (mpc s) = Some k" "\<And>x. CReadError k x \<notin> set ls"
    and "conns s k = Some n" "loop_runs n"
  shows "live_of (mpc t) = Some k \<and> (\<exists>n'. conns t k = Some n' \<and> loop_runs n')"
  using assms
proof (induction arbitrary: n rule: run.induct)
  case (run_cons s l m ls t)
  from run_cons.prems(2) have "l \<noteq> CReadError k x" for x by (auto simp: eq_commute)
  from serving_step [OF run_cons.hyps(1) run_cons.prems(1) this run_cons.prems(3,4)]
  obtain n' where n': "live_of (mpc m) = Some k" "conns m k = Some n'" "loop_runs n'" by blast
  show ?case by (rule run_cons.IH [OF n'(1) _ n'(2,3)]) (use run_cons.prems(2) in auto)
qed blast

section \<open>The writer\<close>

text \<open>
  \<^verbatim>\<open>writerLoop\<close> over what is in its channel; \<open>oks\<close> are the results of
  \<^verbatim>\<open>WriteMessage\<close>. The messages written, the rest of the channel, and whether the loop has
  returned: after a failed write, or when the channel is empty and closed.
\<close>

fun writerLoop :: "bool list \<Rightarrow> wchan \<Rightarrow> writeReq list \<times> wchan \<times> bool" where
  "writerLoop oks ch =
     (case writeRecv ch of
        None \<Rightarrow> ([], ch, ch_closed ch)
      | Some (req, ch1) \<Rightarrow>
          (case oks of
             [] \<Rightarrow> ([], ch, False)
           | ok # oks1 \<Rightarrow>
               if \<not> ok then ([], ch1, True)
               else (case writerLoop oks1 ch1 of (sent, ch2, r) \<Rightarrow> (req # sent, ch2, r))))"

declare writerLoop.simps [simp del]

text \<open>The steps of the writer in the system are the iterations of this loop.\<close>

definition writer_reaches ::
    "client_decoders \<Rightarrow> (gostring \<Rightarrow> gostring) \<Rightarrow> csys \<Rightarrow> kid \<Rightarrow> cconn \<Rightarrow> writeReq list \<times> wchan \<times> bool \<Rightarrow> bool" where
  "writer_reaches J u s k n res \<longleftrightarrow>
     (\<exists>ls t n'. run (cstep J u) s ls t \<and> hp_chan (cli t) k = fst (snd res) \<and> conns t k = Some n' \<and>
        cn_wire n' = cn_wire n @ fst res \<and> cn_writer n' = (\<not> snd (snd res)))"

lemma writer_reaches_step:
  assumes "cstep J u s l m" "writer_reaches J u m k n1 (sent, ch, r)" "cn_wire n1 = cn_wire n @ now"
  shows "writer_reaches J u s k n (now @ sent, ch, r)"
proof -
  from assms(2) obtain ls t n' where "run (cstep J u) m ls t" "hp_chan (cli t) k = ch" "conns t k = Some n'"
    "cn_wire n' = cn_wire n1 @ sent" "cn_writer n' = (\<not> r)" by (auto simp: writer_reaches_def)
  with run_cons [of "cstep J u", OF assms(1)] assms(3) show ?thesis
    unfolding writer_reaches_def by (intro exI [of _ "l # ls"] exI [of _ t] exI [of _ n']) simp
qed

lemma writer_reaches_here:
  "conns s k = Some n \<Longrightarrow> cn_writer n = (\<not> r) \<Longrightarrow> writer_reaches J u s k n ([], hp_chan (cli s) k, r)"
  unfolding writer_reaches_def
  by (intro exI [of _ "[]"] exI [of _ s] exI [of _ n]) (simp add: run_nil)

lemma writerLoop_idle: "writeRecv ch = None \<Longrightarrow> writerLoop oks ch = ([], ch, ch_closed ch)"
  by (simp add: writerLoop.simps [of oks])

lemma writer_reaches_idle:
  assumes "\<not> panicked s" "conns s k = Some n" "cn_writer n" "writeRecv (hp_chan (cli s) k) = None"
  shows "writer_reaches J u s k n ([], hp_chan (cli s) k, ch_closed (hp_chan (cli s) k))"
proof (cases "ch_closed (hp_chan (cli s) k)")
  case True
  let ?n = "n\<lparr>cn_writer := False\<rparr>"
  let ?t = "s\<lparr>conns := (conns s)(k \<mapsto> ?n)\<rparr>"
  have "cstep J u s (CWriterEnd k) ?t" using assms True by (intro c_writer_end)
  moreover have "writer_reaches J u ?t k ?n ([], hp_chan (cli ?t) k, True)"
    by (rule writer_reaches_here) simp_all
  ultimately show ?thesis using writer_reaches_step [where n = n and now = "[]"] True by fastforce
next
  case False
  with writer_reaches_here [OF assms(2)] assms(3) show ?thesis by simp
qed

lemma writerLoop_run:
  assumes "\<not> panicked s" "conns s k = Some n" "cn_writer n"
  shows "writer_reaches J u s k n (writerLoop oks (hp_chan (cli s) k))"
  using assms
proof (induction oks arbitrary: s n)
  case Nil
  then show ?case
  proof (cases "writeRecv (hp_chan (cli s) k)")
    case None
    with Nil show ?thesis by (simp add: writerLoop_idle writer_reaches_idle)
  next
    case (Some x)
    with Nil writer_reaches_here [of s k n False] show ?thesis
      by (cases x) (simp add: writerLoop.simps [of "[]"])
  qed
next
  case (Cons ok oks)
  show ?case
  proof (cases "writeRecv (hp_chan (cli s) k)")
    case None
    with Cons.prems show ?thesis by (simp add: writerLoop_idle writer_reaches_idle)
  next
    case (Some x)
    then obtain req q where q: "writeRecv (hp_chan (cli s) k) = Some (req, q)" by (cases x) simp
    define n1 where "n1 = (if ok then n\<lparr>cn_wire := cn_wire n @ [req]\<rparr> else n\<lparr>cn_writer := False\<rparr>)"
    define m where "m = s\<lparr>cli := upd_chan k q (cli s), conns := (conns s)(k \<mapsto> n1)\<rparr>"
    have st: "cstep J u s (CWrite k ok) m"
      unfolding m_def n1_def using Cons.prems q by (rule c_write)
    have m: "\<not> panicked m" "conns m k = Some n1" "hp_chan (cli m) k = q"
      using Cons.prems(1) by (simp_all add: m_def)
    have wr: "writer_reaches J u m k n1 (if ok then writerLoop oks q else ([], q, True))"
      using Cons.IH [OF m(1,2)] writer_reaches_here [OF m(2), of True J u] m(3) Cons.prems(3)
      by (cases ok) (simp_all add: n1_def)
    have "writerLoop (ok # oks) (hp_chan (cli s) k) =
        (if ok then (case writerLoop oks q of (sent, ch2, r) \<Rightarrow> (req # sent, ch2, r)) else ([], q, True))"
      by (simp add: writerLoop.simps [of "ok # oks"] q)
    with writer_reaches_step [OF st, where n = n and now = "if ok then [req] else []"] wr show ?thesis
      by (cases "writerLoop oks q") (simp add: n1_def split: if_splits)
  qed
qed

section \<open>Order on the wire\<close>

text \<open>What has been written on a connection, followed by what waits to be written.\<close>

definition history :: "csys \<Rightarrow> kid \<Rightarrow> writeReq list" where
  "history s k =
     (case conns s k of None \<Rightarrow> [] | Some n \<Rightarrow> cn_wire n @ ch_buf (hp_chan (cli s) k))"

definition writing :: "csys \<Rightarrow> kid \<Rightarrow> bool" where
  "writing s k \<longleftrightarrow> (\<exists>n. conns s k = Some n \<and> cn_writer n)"

definition grows :: "csys \<Rightarrow> csys \<Rightarrow> kid \<Rightarrow> bool" where
  "grows s t k \<longleftrightarrow> (writing t k \<longrightarrow> writing s k \<and> (\<exists>xs. history t k = history s k @ xs))"

lemma grows_same:
  assumes "\<And>n. conns t k = Some n \<Longrightarrow> \<exists>n'. conns s k = Some n' \<and> cn_writer n' = cn_writer n \<and> cn_wire n' = cn_wire n"
    "ch_buf (hp_chan (cli t) k) = ch_buf (hp_chan (cli s) k)"
  shows "grows s t k"
proof (cases "conns t k")
  case (Some n)
  with assms(1) [of n] assms(2) show ?thesis
    by (auto simp: grows_def writing_def history_def)
qed (simp add: grows_def writing_def)

lemma grows_send:
  assumes "sends_on (cli s) (cli t)" "conns t = conns s"
  shows "grows s t k"
  using assms(1) unfolding sends_on_def
proof
  assume "hp_chan (cli t) = hp_chan (cli s)"
  with assms(2) show ?thesis by (intro grows_same) auto
next
  assume "\<exists>j r q. chanSend r (hp_chan (cli s) j) = Sent q \<and> hp_chan (cli t) = (hp_chan (cli s))(j := q)"
  then obtain j r q where q: "writeSend r (hp_chan (cli s) j) = Some q"
    "hp_chan (cli t) = (hp_chan (cli s))(j := q)" by (auto simp: chanSend_Sent)
  show ?thesis
  proof (cases "j = k")
    case True
    with q assms(2) show ?thesis
      by (auto simp: grows_def writing_def history_def writeSend_some)
  next
    case False
    with q assms(2) show ?thesis by (intro grows_same) auto
  qed
qed

lemma grows_write:
  assumes "conns s j = Some n" "writeRecv (hp_chan (cli s) j) = Some (r, q)" "cn_writer n"
    and t: "t = s\<lparr>cli := upd_chan j q (cli s), conns := (conns s)(j \<mapsto>
      (if ok then n\<lparr>cn_wire := cn_wire n @ [r]\<rparr> else n\<lparr>cn_writer := False\<rparr>))\<rparr>"
  shows "grows s t k"
proof (cases "j = k")
  case True
  with assms show ?thesis by (auto simp: grows_def writing_def history_def writeRecv_some)
next
  case False
  with t show ?thesis by (intro grows_same) auto
qed

lemma step_grows:
  assumes inv: "staged s" and k: "k < nx_chan (cli s)" and st: "cstep J u s l t"
  shows "grows s t k"
  using st
proof (cases rule: cstep.cases)
  case (c_fail cfg e x c1)
  with connect_failed [OF c_fail(5)] show ?thesis by (intro grows_same) auto
next
  case (c_connect cfg e j c1)
  with connect_OK [OF c_connect(5)] k show ?thesis by (intro grows_same) (auto split: if_splits)
next
  case (c_write j n r q ok)
  then show ?thesis by (intro grows_write) auto
next
  case (c_tick j n now c1)
  with pingTick_effect [OF c_tick(6)] show ?thesis by (intro grows_send) auto
next
  case (c_call g ev c1 a1)
  with callerStep_sends [OF c_call(5)] show ?thesis by (intro grows_send) auto
next
  case (c_reload loaded ts c1)
  with reloadConfig_frame [OF c_reload(6)] show ?thesis by (intro grows_same) auto
next
  case (c_frame j n ty payload act)
  then show ?thesis by (intro grows_same) (auto split: ctl_action.splits if_splits)
next
  case (c_writer_end j n)
  then show ?thesis
    by (cases "j = k") (auto simp: grows_def writing_def history_def)
qed (intro grows_same, auto split: if_splits)+

lemma step_nx_chan:
  assumes "cstep J u s l t"
  shows "nx_chan (cli s) \<le> nx_chan (cli t)"
  using assms
proof (cases rule: cstep.cases)
  case (c_fail cfg e x c1)
  with connect_failed [OF c_fail(5)] show ?thesis by simp
next
  case (c_connect cfg e j c1)
  with connect_OK [OF c_connect(5)] show ?thesis by simp
next
  case (c_tick j n now c1)
  with pingTick_effect [OF c_tick(6)] show ?thesis by (simp add: same_session_def)
next
  case (c_call g ev c1 a1)
  with callerStep_sends [OF c_call(5)] show ?thesis by (simp add: same_session_def)
next
  case (c_reload loaded ts c1)
  with reloadConfig_frame [OF c_reload(6)] show ?thesis by (simp add: same_session_def)
qed (auto split: ctl_action.splits)

lemma run_grows:
  assumes "run (cstep J u) s ls t" "staged s" "k < nx_chan (cli s)"
  shows "grows s t k"
  using assms
proof (induction rule: run.induct)
  case (run_nil s)
  then show ?case by (simp add: grows_def)
next
  case (run_cons s l m ls t)
  note st = run_cons.hyps(1)
  from run_cons.prems(2) step_nx_chan [OF st] have "k < nx_chan (cli m)" by simp
  with staged_step [OF run_cons.prems(1) st] have "grows m t k" by (rule run_cons.IH)
  moreover from run_cons.prems st have "grows s m k" by (intro step_grows)
  ultimately show ?case by (auto simp: grows_def)
qed

end
