(* ===== verification/Requests.thy ===== *)
theory Requests
  imports Wire ClientInv
begin

text \<open>
  The numbers of the registration requests. \<^verbatim>\<open>nextReqID\<close> counts up in an \<^verbatim>\<open>int\<close>; until
  the counter wraps, a number belongs to one request, on whatever connection it was sent, and to one
  goroutine at most.
\<close>

definition queued :: "Client \<Rightarrow> NewProxy set" where
  "queued c = {m. \<exists>k. \<exists>r \<in> set (ch_buf (hp_chan c k)). wq_msg r = CNewProxy m}"

definition written :: "(kid \<rightharpoonup> cconn) \<Rightarrow> NewProxy set" where
  "written cns = {m. \<exists>k n. cns k = Some n \<and> (\<exists>r \<in> set (cn_wire n). wq_msg r = CNewProxy m)}"

definition requests :: "csys \<Rightarrow> NewProxy set" where
  "requests s = queued (cli s) \<union> written (conns s)"

text \<open>The number a goroutine has drawn, with the proxy it registers.\<close>

definition drawn_by :: "caller \<Rightarrow> (int \<times> ProxyCfg) option" where
  "drawn_by a =
     (case ca_pc a of RSend k r ch p \<Rightarrow> Some (r, p) | RWait r ch p \<Rightarrow> Some (r, p) | _ \<Rightarrow> None)"

definition unsent :: "caller \<Rightarrow> bool" where
  "unsent a \<longleftrightarrow> (\<exists>k r ch p. ca_pc a = RSend k r ch p)"

definition numbered :: "csys \<Rightarrow> bool" where
  "numbered s \<longleftrightarrow>
     0 \<le> cl_reqSeq (cli s) \<and> in_int64 (cl_reqSeq (cli s)) \<and>
     (\<forall>m \<in> requests s. np_ReqID m \<le> cl_reqSeq (cli s)) \<and>
     (\<forall>m \<in> requests s. \<forall>m' \<in> requests s. np_ReqID m = np_ReqID m' \<longrightarrow> m = m') \<and>
     (\<forall>g r p. drawn_by (callers s g) = Some (r, p) \<longrightarrow>
        r \<le> cl_reqSeq (cli s) \<and>
        (\<forall>m \<in> requests s. np_ReqID m = r \<longrightarrow> \<not> unsent (callers s g) \<and> m = newProxyMsg p r)) \<and>
     (\<forall>g h r p q. drawn_by (callers s g) = Some (r, p) \<longrightarrow> drawn_by (callers s h) = Some (r, q) \<longrightarrow> g = h)"

text \<open>Requests may disappear, and a goroutine may be done with its own.\<close>

lemma numbered_less:
  assumes "numbered s" "requests t \<subseteq> requests s" "cl_reqSeq (cli t) = cl_reqSeq (cli s)"
    and c: "\<And>g. drawn_by (callers t g) = None \<or>
      drawn_by (callers t g) = drawn_by (callers s g) \<and> unsent (callers t g) = unsent (callers s g)"
  shows "numbered t"
proof -
  have d: "drawn_by (callers s g) = Some x \<and> unsent (callers t g) = unsent (callers s g)"
    if "drawn_by (callers t g) = Some x" for g x
    using c [of g] that by auto
  show ?thesis
    unfolding numbered_def
  proof (intro conjI allI impI ballI)
    fix g r p assume "drawn_by (callers t g) = Some (r, p)"
    note e = d [OF this]
    with assms(1,3) show "r \<le> cl_reqSeq (cli t)" by (auto simp: numbered_def)
    fix m assume "m \<in> requests t" "np_ReqID m = r"
    with e assms(1,2) show "\<not> unsent (callers t g)" "m = newProxyMsg p r"
      unfolding numbered_def by blast+
  next
    fix g h r p q assume "drawn_by (callers t g) = Some (r, p)" "drawn_by (callers t h) = Some (r, q)"
    with d [of g] d [of h] assms(1) show "g = h" unfolding numbered_def by blast
  next
    fix m m' assume "m \<in> requests t" "m' \<in> requests t" "np_ReqID m = np_ReqID m'"
    with assms(1,2) show "m = m'" unfolding numbered_def by blast
  qed (use assms in \<open>auto simp: numbered_def\<close>)
qed

text \<open>A goroutine draws a number: nobody has it.\<close>

lemma numbered_draw:
  assumes "numbered s" "requests t = requests s" "cl_reqSeq (cli t) = wrap64 (cl_reqSeq (cli s) + 1)"
    "0 \<le> cl_reqSeq (cli t)" "callers t = (callers s)(g := a)"
    "drawn_by a = Some (cl_reqSeq (cli t), p)"
  shows "numbered t"
proof -
  let ?n = "cl_reqSeq (cli s)"
  have "cl_reqSeq (cli t) = ?n + 1"
  proof (cases "in_int64 (?n + 1)")
    case False
    with assms(1) have "?n = 2 ^ 63 - 1" by (auto simp: numbered_def in_int64_def)
    then have "wrap64 (?n + 1) = - (2 ^ 63)" by (simp add: wrap64_def signed_take_bit_eq_if_positive)
    with assms(3,4) show ?thesis by simp
  qed (simp add: assms(3))
  then have n: "cl_reqSeq (cli t) = ?n + 1" .
  have old: "drawn_by (callers s h) = Some (r, q) \<Longrightarrow> r \<noteq> ?n + 1" for h r q
    using assms(1) by (fastforce simp: numbered_def)
  have reqs: "m \<in> requests s \<Longrightarrow> np_ReqID m \<noteq> ?n + 1" for m
    using assms(1) by (fastforce simp: numbered_def)
  have "in_int64 (cl_reqSeq (cli t))" by (simp add: assms(3))
  with assms old reqs n show ?thesis
    unfolding numbered_def by (auto simp: fun_upd_def split: if_splits) fastforce+
qed

text \<open>It sends the request.\<close>

lemma numbered_send:
  assumes "numbered s" "requests t \<subseteq> insert (newProxyMsg p r) (requests s)"
    "cl_reqSeq (cli t) = cl_reqSeq (cli s)" "callers t = (callers s)(g := a)"
    "ca_pc (callers s g) = RSend k r ch p" "ca_pc a = RWait r ch p"
  shows "numbered t"
proof -
  have g: "drawn_by (callers s g) = Some (r, p)" "unsent (callers s g)" "drawn_by a = Some (r, p)" "\<not> unsent a"
    using assms(5,6) by (simp_all add: drawn_by_def unsent_def)
  have new: "m \<in> requests s \<Longrightarrow> np_ReqID m \<noteq> r" and rn: "r \<le> cl_reqSeq (cli s)" for m
    using assms(1) g(1,2) unfolding numbered_def by blast+
  have nr: "np_ReqID (newProxyMsg p r) = r" by (simp add: newProxyMsg_def)
  have other: "drawn_by (callers s h) = Some (r', q) \<Longrightarrow> h \<noteq> g \<Longrightarrow> r' \<noteq> r" for h r' q
    using assms(1) g(1) unfolding numbered_def by blast
  have old: "m = m' \<or> m = newProxyMsg p r \<or> m' = newProxyMsg p r"
    if "m \<in> requests t" "m' \<in> requests t" "np_ReqID m = np_ReqID m'" for m m'
    using assms(1,2) that unfolding numbered_def by blast
  show ?thesis
    unfolding numbered_def assms(3,4)
  proof (intro conjI allI impI ballI)
    show "0 \<le> cl_reqSeq (cli s)" "in_int64 (cl_reqSeq (cli s))" using assms(1) by (simp_all add: numbered_def)
    fix m assume m: "m \<in> requests t"
    with assms(2) have "m = newProxyMsg p r \<or> m \<in> requests s" by blast
    with assms(1) rn nr show "np_ReqID m \<le> cl_reqSeq (cli s)" by (auto simp: numbered_def)
    fix m' assume "m' \<in> requests t" "np_ReqID m = np_ReqID m'"
    with m old [of m m'] new nr assms(2) show "m = m'" by (metis insert_iff subsetD)
  next
    fix h r' q assume h: "drawn_by (((callers s)(g := a)) h) = Some (r', q)"
    have d: "drawn_by (callers s h) = Some (r', q)" using h g by (cases "h = g") auto
    with assms(1) show "r' \<le> cl_reqSeq (cli s)" unfolding numbered_def by blast
    fix m assume m: "m \<in> requests t" "np_ReqID m = r'"
    with assms(2) have m': "m = newProxyMsg p r \<or> m \<in> requests s" by blast
    have "\<not> unsent (((callers s)(g := a)) h) \<and> m = newProxyMsg q r'"
    proof (cases "h = g")
      case True
      with d g have "r' = r" "q = p" by auto
      with True m' m(2) g new show ?thesis by auto
    next
      case False
      with other [OF d] m' m(2) nr have "m \<in> requests s" by auto
      with assms(1) d m(2) False show ?thesis unfolding numbered_def by auto
    qed
    then show "\<not> unsent (((callers s)(g := a)) h)" "m = newProxyMsg q r'" by simp_all
  next
    fix h h' r' q q' assume "drawn_by (((callers s)(g := a)) h) = Some (r', q)"
      "drawn_by (((callers s)(g := a)) h') = Some (r', q')"
    then have "drawn_by (callers s h) = Some (r', q)" "drawn_by (callers s h') = Some (r', q')"
      using g by (auto split: if_splits)
    with assms(1) show "h = h'" unfolding numbered_def by blast
  qed
qed

section \<open>Steps\<close>

lemma queued_upds [simp]:
  "queued (c\<lparr>cl_pending := x\<rparr>) = queued c" "queued (c\<lparr>hp_reply := y\<rparr>) = queued c"
  "queued (c\<lparr>nx_reply := n\<rparr>) = queued c" "queued (c\<lparr>cl_reqSeq := i\<rparr>) = queued c"
  by (simp_all add: queued_def)

lemma queued_send:
  assumes "chanSend r (hp_chan c k) = Sent q"
  shows "queued (upd_chan k q c) \<subseteq> queued c \<union> {m. wq_msg r = CNewProxy m}"
  using assms by (auto simp: queued_def chanSend_Sent writeSend_some split: if_splits)

text \<open>What a request step is: it draws a number, sends its request, or is done with it.\<close>

lemma callerStep_numbers:
  assumes "callerStep ev c a = Some (CallOK c1 a1)"
  obtains (draws) p where "queued c1 = queued c" "cl_reqSeq c1 = wrap64 (cl_reqSeq c + 1)"
      "drawn_by a1 = Some (cl_reqSeq c1, p)"
  | (sends) k r ch p where "queued c1 \<subseteq> insert (newProxyMsg p r) (queued c)" "cl_reqSeq c1 = cl_reqSeq c"
      "ca_pc a = RSend k r ch p" "ca_pc a1 = RWait r ch p"
  | (ends) "queued c1 \<subseteq> queued c" "cl_reqSeq c1 = cl_reqSeq c" "drawn_by a1 = None"
proof (cases "ca_pc a")
  case RNext
  with assms show thesis
    by (auto simp: callerStep_def beginTask_def regBegin_def nextReqID_def Let_def drawn_by_def
        split: call_event.splits list.splits task.splits option.splits intro: draws ends)
next
  case (RSend k r ch p)
  show thesis
  proof (cases "ev = EvSend")
    case True
    with assms RSend obtain q where "chanSend (newProxyReq p r) (hp_chan c k) = Sent q"
      "c1 = upd_chan k q c" "a1 = a\<lparr>ca_pc := RWait r ch p\<rparr>"
      by (auto simp: callerStep_def split: send_result.splits)
    with queued_send [of "newProxyReq p r" c k q] RSend show thesis
      by (intro sends) (auto simp: newProxyReq_def)
  next
    case False
    with assms RSend show thesis
      by (intro ends) (auto simp: callerStep_def drawn_by_def split: call_event.splits)
  qed
next
  case (RClose k n)
  with assms queued_send [of "closeProxyReq n" c k] show thesis
    by (intro ends)
      (force simp: callerStep_def closeProxyReq_def drawn_by_def split: call_event.splits send_result.splits)+
qed (use assms in \<open>auto simp: callerStep_def drawn_by_def regLeave_def intro!: ends
      split: call_event.splits option.splits prod.splits\<close>)

lemma queued_same: "hp_chan c1 = hp_chan c \<Longrightarrow> queued c1 = queued c"
  by (simp add: queued_def)

lemma written_less:
  "(\<And>r. r \<in> set (cn_wire n1) \<Longrightarrow> \<exists>n. cns k = Some n \<and> r \<in> set (cn_wire n)) \<Longrightarrow>
     written (cns(k \<mapsto> n1)) \<subseteq> written cns"
  by (fastforce simp: written_def split: if_splits)

lemma written_same [simp]:
  "cns k = Some n \<Longrightarrow> cn_wire n1 = cn_wire n \<Longrightarrow> written (cns(k \<mapsto> n1)) = written cns"
  by (auto simp: written_def split: if_splits) (metis option.inject)+

lemma connect_numbers:
  assumes "connect J u e cfg c = (r, c1)"
  shows "queued c1 \<subseteq> queued c \<and> cl_reqSeq c1 = cl_reqSeq c"
proof -
  have "cl_reqSeq c1 = cl_reqSeq c"
    using assms by (auto simp: connect_def Let_def setSession_def clearSession_def split: sum.splits option.splits)
  moreover have "queued c1 \<subseteq> queued c"
    by (cases rule: connect_cases [of J u e cfg c]) (use assms in \<open>auto simp: queued_def split: if_splits\<close>)
  ultimately show ?thesis by simp
qed

lemma pingTick_numbers:
  "pingTick now k c = Some c1 \<Longrightarrow> queued c1 \<subseteq> queued c \<and> cl_reqSeq c1 = cl_reqSeq c"
  using queued_send [of "\<lparr>wq_typ = TypePing, wq_msg = CPing \<lparr>ping_Ts = now\<rparr>, wq_reqID = 0\<rparr>" c k]
  by (auto simp: pingTick_def split: send_result.splits)

text \<open>Steps before the counter wraps.\<close>

definition unwrapped_step ::
    "client_decoders \<Rightarrow> (gostring \<Rightarrow> gostring) \<Rightarrow> csys \<Rightarrow> clabel \<Rightarrow> csys \<Rightarrow> bool" where
  "unwrapped_step J u s l t \<longleftrightarrow> cstep J u s l t \<and> 0 \<le> cl_reqSeq (cli t)"

lemma numbered_step:
  assumes inv: "numbered s" and st: "unwrapped_step J u s l t"
  shows "numbered t"
proof -
  from st have step: "cstep J u s l t" and pos: "0 \<le> cl_reqSeq (cli t)" by (simp_all add: unwrapped_step_def)
  note less = numbered_less [OF inv]
  show ?thesis
    using step
  proof (cases rule: cstep.cases)
    case (c_fail cfg e x c1)
    with connect_numbers [OF c_fail(5)] show ?thesis by (intro less) (auto simp: requests_def)
  next
    case (c_connect cfg e k c1)
    then have "written (conns t) \<subseteq> written (conns s)" by simp (rule written_less, simp)
    with c_connect connect_numbers [OF c_connect(5)] show ?thesis by (intro less) (auto simp: requests_def)
  next
    case (c_frame k n ty payload act)
    then show ?thesis
      by (cases act) (auto simp: requests_def inv intro!: less)
  next
    case (c_write k n r q ok)
    then have "ch_buf (hp_chan (cli s) k) = r # ch_buf q" by (simp add: writeRecv_some)
    then have "requests t \<subseteq> requests s"
      using c_write by (auto simp: requests_def queued_def written_def split: if_splits)
        (metis list.set_intros)+
    with c_write show ?thesis by (intro less) auto
  next
    case (c_tick k n now c1)
    with pingTick_numbers [OF c_tick(6)] show ?thesis by (intro less) (auto simp: requests_def)
  next
    case (c_call g ev c1 a1)
    from c_call(5) show ?thesis
    proof (cases rule: callerStep_numbers)
      case (draws p)
      with c_call pos show ?thesis by (intro numbered_draw [OF inv]) (auto simp: requests_def)
    next
      case (sends k r ch p)
      with c_call show ?thesis by (intro numbered_send [OF inv]) (auto simp: requests_def)
    next
      case ends
      with c_call show ?thesis by (intro less) (auto simp: requests_def)
    qed
  next
    case (c_reload loaded ts c1)
    have "cl_reqSeq c1 = cl_reqSeq (cli s)"
      using c_reload(6) by (auto simp: reloadConfig_def Let_def split: sum.splits)
    moreover have "queued c1 = queued (cli s)"
      using reloadConfig_frame(4) [OF c_reload(6)] by (rule queued_same)
    ultimately show ?thesis using c_reload(2)
      by (intro less) (auto simp: requests_def drawn_by_def unsent_def)
  next
    case (c_deliver k n ch resp q)
    then show ?thesis by (intro less) (auto simp: requests_def)
  next
    case (c_close k n x)
    then show ?thesis by (intro less) (auto simp: requests_def queued_def split: if_splits)
  next
    case (c_clear k)
    then show ?thesis by (intro less) (auto simp: requests_def queued_def clearSession_def)
  next
    case (c_list k ord)
    then show ?thesis by (intro less) (auto simp: requests_def drawn_by_def unsent_def)
  qed (intro less, auto simp: requests_def)+
qed

lemma numbered_init: "numbered (csys_init cfg)"
  by (simp add: numbered_def csys_init_def NewClient_def requests_def queued_def written_def idle_caller_def
      drawn_by_def in_int64_def)

interpretation numbering: invariant_system "\<lambda>s. s = csys_init cfg" "unwrapped_step J u" numbered for cfg J u
proof
  show "s = csys_init cfg \<Longrightarrow> numbered s" for s by (simp add: numbered_init)
qed (rule numbered_step)

end
