(* ===== verification/ServerInv.thy ===== *)
theory ServerInv
  imports ServerSys
begin

text \<open>
  What holds in every state the concurrent server can reach: the registry invariant, the refinement
  of an abstract lease table by the port, host and name tables, the replacement of connections, and
  what becomes of the proxies of a closed session.
\<close>

section \<open>How a step changes the set of registered proxies\<close>

definition shrinks :: "pid set \<Rightarrow> Server \<Rightarrow> Server \<Rightarrow> bool" where
  "shrinks P s t \<longleftrightarrow>
     (\<forall>q. registered t q \<longleftrightarrow> registered s q \<and> q \<notin> P) \<and>
     (\<forall>q. same_core (hp_proxy t q) (hp_proxy s q)) \<and>
     nx_pid t = nx_pid s \<and> nx_sid s \<le> nx_sid t"

lemma same_core_refl [simp]: "same_core P P" by (simp add: same_core_def)

lemma same_core_trans: "same_core P Q \<Longrightarrow> same_core Q R \<Longrightarrow> same_core P R"
  by (simp add: same_core_def)

lemma shrinks_refl [simp]: "shrinks {} s s" by (simp add: shrinks_def)

lemma shrinks_trans: "shrinks {} s t \<Longrightarrow> shrinks P t u \<Longrightarrow> shrinks P s u"
  unfolding shrinks_def by (auto intro: same_core_trans)

lemma shrinks_frame:
  assumes "sv_proxies t = sv_proxies s" "\<And>q. same_core (hp_proxy t q) (hp_proxy s q)"
    "nx_pid t = nx_pid s" "nx_sid s \<le> nx_sid t"
  shows "shrinks {} s t"
proof -
  have "pkey (hp_proxy t q) = pkey (hp_proxy s q)" for q
    using assms(2) [of q] by (simp add: same_core_def pkey_def)
  with assms show ?thesis by (simp add: shrinks_def registered_def)
qed

named_theorems keeps \<open>operations that register and remove nothing\<close>

lemma sendMsg_keeps [keeps]: "shrinks {} s (snd (sendMsg ok i m s))"
  by (simp add: shrinks_def sendMsg_def registered_def)

lemma closeConn_keeps [keeps]: "shrinks {} s (closeConn c s)"
  by (simp add: shrinks_def closeConn_def registered_def)

lemma requeue_keeps:
  assumes "same_core P (hp_proxy s p)"
  shows "shrinks {} s (s\<lparr>hp_proxy := (hp_proxy s)(p := P)\<rparr>)"
  using assms by (intro shrinks_frame) auto

lemma notifyFailed_keeps [keeps]: "shrinks {} s (notifyFailed s p c)"
proof (cases "visitorRecv (hp_proxy s p)")
  case (Some r)
  obtain v P where r: "r = (v, P)" by fastforce
  from Some r have "same_core P (hp_proxy s p)" by (auto dest: visitorRecv_core simp: same_core_def)
  from shrinks_trans [OF requeue_keeps [OF this] closeConn_keeps, THEN shrinks_trans, OF closeConn_keeps]
  show ?thesis using Some r by (simp add: notifyFailed_def)
qed (simp add: notifyFailed_def closeConn_keeps)

lemma notifyClient_keeps [keeps]: "shrinks {} s (notifyClient s p c ok)"
  using sendMsg_keeps [of s True "px_session (hp_proxy s p)"] notifyFailed_keeps [of s p c]
  by (cases ok) (simp_all add: notifyClient_def sendMsg_def Let_def)

lemma queueVisitor_keeps [keeps]: "queueVisitor s p c = (b, t) \<Longrightarrow> shrinks {} s t"
  by (auto simp: queueVisitor_def intro!: requeue_keeps closeConn_keeps dest!: visitorSend_core
      split: option.splits) (simp add: same_core_def)

lemma streamSelect_keeps [keeps]:
  assumes "streamSelect s i p st = (Some v, t)"
  shows "shrinks {} s t"
  using assms
  by (intro shrinks_frame)
    (auto simp: streamSelect_def same_core_def dest!: visitorRecv_core split: option.splits)

lemma streamDone_keeps [keeps]: "shrinks {} s (streamDone s i p v st out inn)"
  by (intro shrinks_frame) (auto simp: streamDone_def same_core_def)

lemma allocated_keeps [keeps]: "shrinks {} s (allocated s conn lg ra now)"
  by (simp add: shrinks_def allocated_def registered_def)

lemma admitted_keeps [keeps]: "shrinks {} s (admitted s conn lg ra now)"
  by (simp add: shrinks_def admitted_def registered_def)

lemma loginFail_keeps [keeps]: "shrinks {} s (snd (loginFail ok i conn m s))"
  unfolding loginFail_def snd_conv by (rule shrinks_trans [OF sendMsg_keeps closeConn_keeps])

lemma CloseSession_shrinks:
  assumes "reg_inv s" "iterates ord s i"
  shows "shrinks {p. \<not> se_closed (hp_session s i) \<and> registered s p \<and> px_session (hp_proxy s p) = i}
     s (CloseSession ord s i)"
proof (cases "se_closed (hp_session s i)")
  case True
  then show ?thesis by (simp add: CloseSession_def)
next
  case False
  with assms(2) have "covers ord s i" by (simp add: iterates_def)
  note cl = CloseSession_releases [OF assms(1) False this]
  have "nx_pid (CloseSession ord s i) = nx_pid s"
    using False by (simp add: CloseSession_def Let_def dropSession_frame)
  with False show ?thesis by (auto simp: shrinks_def cl same_core_def)
qed

lemma closeProxy_shrinks:
  assumes "reg_inv s"
  obtains P where "shrinks P s (closeProxy s i n)" "\<forall>q \<in> P. px_session (hp_proxy s q) = i"
proof (cases "se_proxies (hp_session s i) n")
  case None
  then have "shrinks {} s (closeProxy s i n)" by (simp add: closeProxy_def)
  then show ?thesis using that [of "{}"] by blast
next
  case (Some p)
  with assms have p: "registered s p" "px_session (hp_proxy s p) = i" by (auto dest: owned_registered)
  have "shrinks {p} s (closeProxy s i n)"
    using Some remove_registered [OF p(1)]
    by (simp add: closeProxy_def shrinks_def reg_simps same_core_def)
  then show ?thesis using that [of "{p}"] p by blast
qed

lemma reject_keeps [keeps]:
  "shrinks {} s (snd (loginFail ok i conn m (allocated s conn lg ra now)))"
  by (rule shrinks_trans [OF allocated_keeps loginFail_keeps])

text \<open>A step removes proxies of the sessions in \<open>I\<close> only, or installs one proxy of session \<open>k\<close>.\<close>

definition evolves :: "sid set \<Rightarrow> sid option \<Rightarrow> Server \<Rightarrow> Server \<Rightarrow> bool" where
  "evolves I k s t \<longleftrightarrow>
     (\<exists>P. shrinks P s t \<and> (\<forall>q \<in> P. px_session (hp_proxy s q) \<in> I)) \<or>
     (\<exists>Pr. installable s Pr \<and> t = installProxy s Pr \<and> k = Some (px_session Pr))"

lemma evolves_install:
  "installable s Pr \<Longrightarrow> t = installProxy s Pr \<Longrightarrow> px_session Pr = i \<Longrightarrow> evolves I (Some i) s t"
  unfolding evolves_def by blast

lemma evolves_keeps: "shrinks {} s t \<Longrightarrow> evolves I k s t"
  unfolding evolves_def by blast

text \<open>One frame registers, takes one proxy down, or leaves the server alone.\<close>

lemma ctlHandle_cases:
  assumes "ctlHandle J u b ty payload s i = (m, t)"
  obtains (register) np resp where "ty = TypeNewProxy" "registerProxy u s i np b = (resp, t)"
      "m = Some (SNewProxyResp resp)"
  | (remove) n where "t = closeProxy s i n" "m = None"
  | (same) "t = s"
proof (cases "ty = TypeNewProxy")
  case True
  show ?thesis
  proof (cases "decNewProxy J payload")
    case None
    with assms True show ?thesis by (auto simp: ctlHandle_def intro: same)
  next
    case (Some np)
    obtain resp s1 where "registerProxy u s i np b = (resp, s1)" by fastforce
    with assms True Some show ?thesis by (intro register [of np resp]) (simp_all add: ctlHandle_def)
  qed
next
  case False
  show ?thesis
  proof (cases "ty = TypeCloseProxy")
    case True
    show ?thesis
    proof (cases "decCloseProxy J payload")
      case None
      with assms True False show ?thesis by (intro same) (simp add: ctlHandle_def)
    next
      case (Some cp)
      with assms True False show ?thesis by (intro remove [of "cp_Name cp"]) (simp_all add: ctlHandle_def)
    qed
  next
    case no: False
    with assms False show ?thesis
      by (intro same) (simp add: ctlHandle_def split: if_splits option.splits)
  qed
qed

lemma ctlHandle_evolves:
  assumes "reg_inv s" "i < nx_sid s" "ctlHandle J u b ty payload s i = (m, t)"
  shows "evolves {i} (Some i) s t"
  using assms(3)
proof (cases rule: ctlHandle_cases)
  case (register np resp)
  have own: "px_session (newTCP s i np) = i" "px_session (newHTTP u s i np) = i"
    by (simp_all add: tcpProxy_def httpProxy_def)
  from register(2) show ?thesis
  proof (cases rule: registerProxy_cases [OF assms(1,2), consumes 1, case_names same tcp http])
    case same
    then show ?thesis by (simp add: evolves_keeps)
  next
    case tcp
    show ?thesis by (rule evolves_install [OF tcp(2,1) own(1)])
  next
    case http
    show ?thesis by (rule evolves_install [OF http(2,1) own(2)])
  qed
next
  case (remove n)
  obtain P where "shrinks P s (closeProxy s i n)" "\<forall>q \<in> P. px_session (hp_proxy s q) = i"
    by (rule closeProxy_shrinks [OF assms(1)])
  with remove show ?thesis unfolding evolves_def by auto
next
  case same
  then show ?thesis by (simp add: evolves_keeps)
qed

section \<open>The invariant\<close>

definition sys_inv :: "sys \<Rightarrow> bool" where
  "sys_inv s \<longleftrightarrow> reg_inv (srv s) \<and>
     (\<forall>i. pcs s i \<noteq> None \<longleftrightarrow> i < nx_sid (srv s)) \<and>
     (\<forall>i j. pcs s i = Some (PcKick j) \<longrightarrow> j < nx_sid (srv s))"

lemma ctlHandle_inv:
  assumes "reg_inv s" "i < nx_sid s" "ctlHandle J u b ty payload s i = (m, t)"
  shows "reg_inv t" "nx_sid t = nx_sid s"
proof -
  have r: "reg_inv (snd (registerProxy u s i np b))" for np by (rule registerProxy_inv [OF assms(1,2)])
  have n: "nx_sid (snd (registerProxy u s i np b)) = nx_sid s" for np by simp
  from assms(3) have "reg_inv t \<and> nx_sid t = nx_sid s"
  proof (cases rule: ctlHandle_cases)
    case (register np resp)
    with r [of np] n [of np] show ?thesis by simp
  next
    case (remove k)
    with assms(1) show ?thesis by (simp add: closeProxy_inv)
  next
    case same
    with assms(1) show ?thesis by simp
  qed
  then show "reg_inv t" "nx_sid t = nx_sid s" by simp_all
qed

lemma queueVisitor_inv: "reg_inv s \<Longrightarrow> queueVisitor s p c = (b, t) \<Longrightarrow> reg_inv t"
  by (auto simp: queueVisitor_def same_core_def intro!: closeConn_inv reg_inv_requeue dest!: visitorSend_core
      split: option.splits)

lemma notifyClient_inv: "reg_inv s \<Longrightarrow> reg_inv (notifyClient s p c ok)"
  using sendMsg_inv [of s True] by (auto simp: notifyClient_def sendMsg_def Let_def notifyFailed_inv)

lemma allocated_reg_inv: "reg_inv s \<Longrightarrow> reg_inv (allocated s conn lg ra now)"
  unfolding allocated_def by (rule allocated_inv)

lemma nx_sid_simps [simp]:
  "nx_sid (notifyFailed s p c) = nx_sid s"
  "nx_sid (notifyClient s p c ok) = nx_sid s"
  "nx_sid (CloseSession ord s i) = nx_sid s"
  "nx_sid (streamDone s i p v st out inn) = nx_sid s"
  "nx_sid (snd (loginFail ok i conn m s)) = nx_sid s"
  "nx_sid (allocated s conn lg ra now) = Suc (nx_sid s)"
  "nx_sid (admitted s conn lg ra now) = Suc (nx_sid s)"
  by (auto simp: notifyFailed_def notifyClient_def sendMsg_def CloseSession_def Let_def dropSession_frame
      streamDone_def loginFail_def allocated_def admitted_def split: option.splits)

lemma queueVisitor_nx: "queueVisitor s p c = (b, t) \<Longrightarrow> nx_sid t = nx_sid s"
  by (auto simp: queueVisitor_def split: option.splits)

lemma streamSelect_nx: "streamSelect s i p st = (v, t) \<Longrightarrow> nx_sid t = nx_sid s"
  by (auto simp: streamSelect_def split: option.splits)

lemma step_reg_inv:
  assumes "sstep J u s l t" "sys_inv s"
  shows "reg_inv (srv t)"
  using assms
proof (cases rule: sstep.cases)
  case (take i p st v s1)
  then show ?thesis using assms(2) streamSelect_inv [of "srv s" i p st] by (simp add: sys_inv_def)
next
  case (handle i ty payload bind m s1)
  then have "i < nx_sid (srv s)" using assms(2) by (force simp: sys_inv_def)
  with handle show ?thesis using assms(2) by (auto simp: sys_inv_def dest: ctlHandle_inv(1))
qed (auto simp: sys_inv_def intro: admitted_inv CloseSession_inv sendMsg_inv loginFail_inv
    allocated_reg_inv queueVisitor_inv notifyClient_inv closeConn_inv streamDone_inv split: option.splits)

lemma step_pcs:
  assumes "sstep J u s l t" "sys_inv s"
  shows "\<forall>i. pcs t i \<noteq> None \<longleftrightarrow> i < nx_sid (srv t)"
  using assms
proof (cases rule: sstep.cases)
  case (take i p st v s1)
  then show ?thesis using assms(2) streamSelect_nx [of "srv s" i p st] by (auto simp: sys_inv_def)
next
  case (handle i ty payload bind m s1)
  then have "i < nx_sid (srv s)" using assms(2) by (force simp: sys_inv_def)
  with handle show ?thesis using assms(2) by (auto simp: sys_inv_def dest: ctlHandle_inv(2))
next
  case (stream i fr st)
  then show ?thesis using assms(2) by (auto simp: sys_inv_def split: option.splits)
qed (use assms(2) in \<open>auto simp: sys_inv_def less_Suc_eq dest: queueVisitor_nx\<close>)

lemma step_kick:
  assumes "sstep J u s l t" "sys_inv s"
  shows "\<forall>i j. pcs t i = Some (PcKick j) \<longrightarrow> j < nx_sid (srv t)"
  using assms
proof (cases rule: sstep.cases)
  case (take i p st v s1)
  then show ?thesis using assms(2) streamSelect_nx [of "srv s" i p st] by (auto simp: sys_inv_def)
next
  case (handle i ty payload bind m s1)
  then have "i < nx_sid (srv s)" using assms(2) by (force simp: sys_inv_def)
  with handle show ?thesis using assms(2)
    by (auto simp: sys_inv_def dest: ctlHandle_inv(2) split: if_splits option.splits)
next
  case (stream i fr st)
  then show ?thesis using assms(2) by (auto simp: sys_inv_def split: option.splits)
next
  case (admit lg now conn ra)
  then have "j < nx_sid (srv s)" if "sv_sessions (srv s) c = Some j" for c j
    using assms(2) that by (simp add: sys_inv_def reg_inv_def inv_sessions_def)
  with admit assms(2) show ?thesis
    by (auto simp: sys_inv_def less_Suc_eq split: if_splits option.splits)
qed (use assms(2) in \<open>auto simp: sys_inv_def less_Suc_eq dest: queueVisitor_nx split: if_splits\<close>)

text \<open>The initial states: what \<^verbatim>\<open>New\<close> returns.\<close>

definition sys_start :: "(gostring \<Rightarrow> gostring \<Rightarrow> gostring option) \<Rightarrow> sys \<Rightarrow> bool" where
  "sys_start loadCert s \<longleftrightarrow> (\<exists>now cfg sv. New loadCert now cfg = Inr sv \<and> s = sys_init sv)"

lemma New_Inr:
  assumes "New loadCert now cfg = Inr sv"
  obtains ranges tls where "sv = emptyServer cfg ranges tls now" "\<forall>r \<in> set ranges. valid_range r"
proof -
  obtain ranges where r: "ParsePortRanges (sc_AllowPorts cfg) = Inr ranges"
    using assms by (auto simp: New_def split: sum.splits)
  from parseParts_valid [OF r [unfolded ParsePortRanges_def]] have "\<forall>r \<in> set ranges. valid_range r" by simp
  moreover from assms r obtain tls where "sv = emptyServer cfg ranges tls now"
    by (auto simp: New_def split: if_splits option.splits)
  ultimately show thesis using that by blast
qed

lemma New_inv [reg_intros]:
  assumes "New loadCert now cfg = Inr sv"
  shows "reg_inv sv" "nx_sid sv = 0" "sv_cfg sv = cfg"
proof -
  obtain ranges tls where sv: "sv = emptyServer cfg ranges tls now" "\<forall>r \<in> set ranges. valid_range r"
    by (rule New_Inr [OF assms])
  then show "reg_inv sv" by (simp add: reg_inv_emptyServer)
  from sv show "nx_sid sv = 0" "sv_cfg sv = cfg" by (simp_all add: emptyServer_def)
qed

interpretation server: invariant_system "sys_start loadCert" "sstep J u" sys_inv
  for loadCert J u
proof
  fix s assume "sys_start loadCert s"
  then show "sys_inv s"
    by (auto simp: sys_start_def sys_init_def sys_inv_def intro: New_inv) (simp add: New_inv)
next
  fix s l t assume "sys_inv s" "sstep J u s l t"
  then show "sys_inv t"
    unfolding sys_inv_def [of t] using step_reg_inv step_pcs step_kick by blast
qed

section \<open>Which proxies a step may remove\<close>

fun acts :: "sys \<Rightarrow> label \<Rightarrow> sid set" where
  "acts s (LKick i ord) = {j. pcs s i = Some (PcKick j) \<and> \<not> se_closed (hp_session (srv s) j)}"
| "acts s (LHandle i bind) = {i}"
| "acts s (LClose i ord) = {j. j = i \<and> \<not> se_closed (hp_session (srv s) j)}"
| "acts s (LShutdown i ord) = {j. j = i \<and> \<not> se_closed (hp_session (srv s) j)}"
| "acts s _ = {}"

fun registers :: "label \<Rightarrow> sid option" where
  "registers (LHandle i bind) = Some i"
| "registers _ = None"

lemma CloseSession_evolves:
  assumes "reg_inv s" "iterates ord s i" "\<not> se_closed (hp_session s i) \<longrightarrow> i \<in> I"
  shows "evolves I k s (CloseSession ord s i)"
  using CloseSession_shrinks [OF assms(1,2)] assms(3) unfolding evolves_def by blast

lemma step_evolves:
  assumes "sstep J u s l t" "sys_inv s"
  shows "evolves (acts s l) (registers l) (srv s) (srv t)"
  using assms
proof (cases rule: sstep.cases)
  case (handle i ty payload bind m s1)
  then have "i < nx_sid (srv s)" using assms(2) by (force simp: sys_inv_def)
  with handle show ?thesis using assms(2) by (auto simp: sys_inv_def dest: ctlHandle_evolves)
next
  case (shutdown i ord)
  with assms(2) show ?thesis by (auto simp: sys_inv_def intro!: CloseSession_evolves)
qed (use assms(2) in \<open>auto simp: sys_inv_def intro!: CloseSession_evolves
    intro: shrinks_refl [THEN evolves_keeps] keeps [THEN evolves_keeps] split: option.splits\<close>)

section \<open>The abstract lease table\<close>

text \<open>
  What the server promises about the names, ports and hosts it gives out: a lease is granted only
  when every resource in it is free, its holder keeps all of it, and it ends as a whole.
\<close>

datatype resource = RName gostring | RPort int | RHost gostring

type_synonym leases = "resource \<rightharpoonup> pid"

definition grant :: "leases \<Rightarrow> pid \<Rightarrow> resource set \<Rightarrow> leases" where
  "grant L p R = (\<lambda>r. if r \<in> R then Some p else L r)"

definition revoke :: "leases \<Rightarrow> pid set \<Rightarrow> leases" where
  "revoke L P = (\<lambda>r. case L r of None \<Rightarrow> None | Some p \<Rightarrow> if p \<in> P then None else Some p)"

definition lease_step :: "leases \<Rightarrow> leases \<Rightarrow> bool" where
  "lease_step L M \<longleftrightarrow>
     (\<exists>p R. R \<noteq> {} \<and> p \<notin> ran L \<and> (\<forall>r \<in> R. L r = None) \<and> M = grant L p R) \<or>
     (\<exists>P. M = revoke L P)"

fun lease :: "Server \<Rightarrow> leases" where
  "lease s (RName k) = sv_proxies s k"
| "lease s (RPort n) = sv_byPort s n"
| "lease s (RHost h) = sv_vhost s h"

lemma lease_empty: "lease (emptyServer cfg ranges tls now) = Map.empty"
proof
  fix r show "lease (emptyServer cfg ranges tls now) r = None"
    by (cases r) (simp_all add: emptyServer_def)
qed

text \<open>The resources of one proxy.\<close>

definition needs :: "Proxy \<Rightarrow> resource set" where
  "needs P = {RName (pkey P)} \<union> {RPort n | n. n = px_remotePort P \<and> n \<noteq> 0} \<union> RHost ` set (px_hosts P)"

lemma lease_iff:
  assumes "reg_inv s"
  shows "lease s r = Some p \<longleftrightarrow> registered s p \<and> r \<in> needs (hp_proxy s p)"
proof (cases r)
  case (RName k)
  from assms have "sv_proxies s k = Some p \<Longrightarrow> k = pkey (hp_proxy s p)"
    by (simp add: reg_inv_def inv_keys_def)
  with RName show ?thesis by (auto simp: needs_def registered_def)
next
  case (RPort n)
  with assms show ?thesis by (auto simp: needs_def reg_inv_def inv_ports_def)
next
  case (RHost h)
  with assms show ?thesis by (auto simp: needs_def reg_inv_def inv_hosts_def)
qed

lemma same_core_needs: "same_core P Q \<Longrightarrow> needs P = needs Q"
  by (simp add: same_core_def needs_def pkey_def)

lemma option_ext: "(\<And>q. a = Some q \<longleftrightarrow> b = Some q) \<Longrightarrow> a = b"
  by (cases a; cases b) auto

lemma shrinks_lease:
  assumes "reg_inv s" "reg_inv t" "shrinks P s t"
  shows "lease t = revoke (lease s) P"
proof
  fix r
  have eq: "lease t r = Some q \<longleftrightarrow> lease s r = Some q \<and> q \<notin> P" for q
  proof -
    have "needs (hp_proxy t q) = needs (hp_proxy s q)" "registered t q \<longleftrightarrow> registered s q \<and> q \<notin> P"
      using assms(3) same_core_needs [of "hp_proxy t q" "hp_proxy s q"] by (simp_all add: shrinks_def)
    then show ?thesis by (auto simp: lease_iff [OF assms(1)] lease_iff [OF assms(2)])
  qed
  show "lease t r = revoke (lease s) P r"
    by (rule option_ext, unfold eq) (auto simp: revoke_def split: option.splits)
qed

lemma install_lease:
  assumes "reg_inv s" "installable s Q"
  shows "lease (installProxy s Q) = grant (lease s) (nx_pid s) (needs Q)"
    and "\<forall>r \<in> needs Q. lease s r = None" and "nx_pid s \<notin> ran (lease s)"
proof -
  from assms have k: "inv_keys s" "sv_proxies s (pkey Q) = None"
    by (simp_all add: reg_inv_def installable_def)
  note reg = install_registered [OF k]
  have new: "\<not> registered s (nx_pid s)" using registered_bound [OF k(1)] by blast
  show free: "\<forall>r \<in> needs Q. lease s r = None"
    using assms(2) by (auto simp: needs_def installable_def)
  then have unheld: "r \<in> needs Q \<Longrightarrow> registered s q \<Longrightarrow> r \<notin> needs (hp_proxy s q)" for r q
    using lease_iff [OF assms(1), of r q] by auto
  show "nx_pid s \<notin> ran (lease s)"
    using new by (auto simp: ran_def lease_iff [OF assms(1)])
  show "lease (installProxy s Q) = grant (lease s) (nx_pid s) (needs Q)"
  proof
    fix r
    have "lease (installProxy s Q) r = Some q \<longleftrightarrow> grant (lease s) (nx_pid s) (needs Q) r = Some q" for q
      using new by (auto dest: unheld simp: lease_iff [OF install_inv [OF assms]] lease_iff [OF assms(1)] grant_def reg reg_simps)
    then show "lease (installProxy s Q) r = grant (lease s) (nx_pid s) (needs Q) r"
      by (rule option_ext)
  qed
qed

lemma needs_nonempty: "needs P \<noteq> {}" by (simp add: needs_def)

lemma evolves_lease:
  assumes "reg_inv s" "reg_inv t" "evolves I k s t"
  shows "lease_step (lease s) (lease t)"
proof (cases "\<exists>P. shrinks P s t")
  case True
  then show ?thesis using shrinks_lease [OF assms(1,2)] unfolding lease_step_def by metis
next
  case False
  with assms(3) obtain Q where Q: "installable s Q" "t = installProxy s Q" by (auto simp: evolves_def)
  note l = install_lease [OF assms(1) Q(1)]
  show ?thesis unfolding lease_step_def Q(2)
    by (intro disjI1 exI [of _ "nx_pid s"] exI [of _ "needs Q"] conjI) (simp_all add: l needs_nonempty)
qed

interpretation lease_table:
  refinement_system "sys_start loadCert" "sstep J u" sys_inv "\<lambda>L. L = Map.empty" lease_step "\<lambda>s. lease (srv s)"
  for loadCert J u
proof
  fix s assume "sys_start loadCert s"
  then show "lease (srv s) = Map.empty"
    by (auto simp: sys_start_def sys_init_def lease_empty elim!: New_Inr)
next
  fix s l t assume "sys_inv s" "sstep J u s l t"
  then have "lease_step (lease (srv s)) (lease (srv t))"
    using evolves_lease step_evolves server.inv_step unfolding sys_inv_def by blast
  then show "lease_step (lease (srv s)) (lease (srv t)) \<or> lease (srv t) = lease (srv s)" ..
qed

text \<open>
  What a step does to the leases, exactly: it ends the leases of some proxies of the sessions that act
  in it, or it grants the new proxy of the session that registers in it all it needs.
\<close>

lemma evolves_leases:
  assumes "reg_inv s" "reg_inv t" "evolves I k s t"
  shows "(\<exists>P. lease t = revoke (lease s) P \<and> (\<forall>p \<in> P. px_session (hp_proxy s p) \<in> I)) \<or>
    (\<exists>p. k = Some (px_session (hp_proxy t p)) \<and> p \<notin> ran (lease s) \<and>
       (\<forall>r \<in> needs (hp_proxy t p). lease s r = None) \<and>
       lease t = grant (lease s) p (needs (hp_proxy t p)))"
  using assms(3) unfolding evolves_def
proof (elim disjE exE conjE)
  fix P assume "shrinks P s t" "\<forall>q \<in> P. px_session (hp_proxy s q) \<in> I"
  with shrinks_lease [OF assms(1,2)] show ?thesis by blast
next
  fix Q assume Q: "installable s Q" "t = installProxy s Q" "k = Some (px_session Q)"
  have "hp_proxy t (nx_pid s) = Q" by (simp add: Q(2) reg_simps)
  with install_lease [OF assms(1) Q(1)] Q(2,3) show ?thesis by (intro disjI2 exI [of _ "nx_pid s"]) simp
qed

text \<open>A resource is never handed from one holder to another without being free in between.\<close>

lemma lease_step_holder: "lease_step L M \<Longrightarrow> L r = Some p \<Longrightarrow> M r = Some p \<or> M r = None"
  by (auto simp: lease_step_def grant_def revoke_def split: if_splits)

section \<open>Sessions, their state and the session table\<close>

definition same_view :: "Server \<Rightarrow> Server \<Rightarrow> bool" where
  "same_view s t \<longleftrightarrow> sv_sessions t = sv_sessions s \<and>
     (\<forall>j. se_closed (hp_session t j) = se_closed (hp_session s j)) \<and>
     (\<forall>j. se_clientID (hp_session t j) = se_clientID (hp_session s j))"

named_theorems views \<open>operations that leave the session table alone\<close>

lemma same_view_refl [views]: "same_view s s" by (simp add: same_view_def)

lemma sendMsg_view [views]: "same_view s (snd (sendMsg ok i m s))"
  by (simp add: same_view_def sendMsg_def)

lemma closeConn_view [views]: "same_view s (closeConn c s)"
  by (simp add: same_view_def closeConn_def)

lemma notifyClient_view [views]: "same_view s (notifyClient s p c ok)"
  by (auto simp: same_view_def notifyClient_def notifyFailed_def sendMsg_def closeConn_def Let_def
      split: option.splits)

lemma queueVisitor_view [views]: "queueVisitor s p c = (b, t) \<Longrightarrow> same_view s t"
  by (auto simp: same_view_def queueVisitor_def closeConn_def split: option.splits)

lemma streamSelect_view [views]: "streamSelect s i p st = (v, t) \<Longrightarrow> same_view s t"
  by (auto simp: same_view_def streamSelect_def closeConn_def split: option.splits if_splits)

lemma streamDone_view [views]: "same_view s (streamDone s i p v st out inn)"
  by (simp add: same_view_def streamDone_def)

lemma registerProxy_view:
  assumes "registerProxy u s i np b = (resp, t)"
  shows "same_view s t"
proof -
  have "se_clientID (hp_session (snd (registerProxy u s i np b)) j) = se_clientID (hp_session s j)" for j
    by (auto simp: registerProxy_def registerTCPProxy_spec registerHTTPProxy_spec reg_simps
        split: option.splits)
  with registerProxy_sessions [of u s i np b] assms show ?thesis by (simp add: same_view_def)
qed

lemma closeProxy_view: "same_view s (closeProxy s i n)"
  by (auto simp: same_view_def closeProxy_def reg_simps split: option.splits)

lemma ctlHandle_view [views]: "ctlHandle J u b ty payload s i = (m, t) \<Longrightarrow> same_view s t"
  by (erule ctlHandle_cases) (auto intro: registerProxy_view closeProxy_view same_view_refl)

lemma CloseSession_view:
  "sv_sessions (CloseSession ord s i) c =
     (if \<not> se_closed (hp_session s i) \<and> c = se_clientID (hp_session s i) \<and> sv_sessions s c = Some i
      then None else sv_sessions s c)"
  "se_closed (hp_session (CloseSession ord s i) j) \<longleftrightarrow> se_closed (hp_session s j) \<or> j = i"
  "se_clientID (hp_session (CloseSession ord s i) j) = se_clientID (hp_session s j)"
proof -
  have d: "se_closed (hp_session (dropSession ord s i) k) = se_closed (hp_session s k)"
    "se_clientID (hp_session (dropSession ord s i) k) = se_clientID (hp_session s k)" for k
    by (subst dropSession_session, simp)+
  show "sv_sessions (CloseSession ord s i) c =
     (if \<not> se_closed (hp_session s i) \<and> c = se_clientID (hp_session s i) \<and> sv_sessions s c = Some i
      then None else sv_sessions s c)"
    by (auto simp: CloseSession_def Let_def dropSession_sessions)
  show "se_closed (hp_session (CloseSession ord s i) j) \<longleftrightarrow> se_closed (hp_session s j) \<or> j = i"
    "se_clientID (hp_session (CloseSession ord s i) j) = se_clientID (hp_session s j)"
    by (auto simp: CloseSession_def Let_def d)
qed

lemma newSession_view:
  "sv_sessions (snd (loginFail ok i conn m (allocated s conn lg ra now))) = sv_sessions s"
  "se_closed (hp_session (snd (loginFail ok i conn m (allocated s conn lg ra now))) j) \<longleftrightarrow>
     j \<noteq> nx_sid s \<and> se_closed (hp_session s j)"
  "se_clientID (hp_session (snd (loginFail ok i conn m (allocated s conn lg ra now))) j) =
     (if j = nx_sid s then lg_ClientID lg else se_clientID (hp_session s j))"
  "sv_sessions (admitted s conn lg ra now) = (sv_sessions s)(lg_ClientID lg \<mapsto> nx_sid s)"
  "se_closed (hp_session (admitted s conn lg ra now) j) \<longleftrightarrow> j \<noteq> nx_sid s \<and> se_closed (hp_session s j)"
  "se_clientID (hp_session (admitted s conn lg ra now) j) =
     (if j = nx_sid s then lg_ClientID lg else se_clientID (hp_session s j))"
  by (auto simp: loginFail_def sendMsg_def closeConn_def allocated_def admitted_def newSession_def)

text \<open>What a step does to the session table: nothing, a refusal, an admission, or one close.\<close>

lemma step_view:
  assumes "sstep J u s l t"
  obtains (same) "same_view (srv s) (srv t)"
  | (reject) conn lg ra now ok m where
      "srv t = snd (loginFail ok (nx_sid (srv s)) conn m (allocated (srv s) conn lg ra now))"
  | (admit) conn lg ra now where "srv t = admitted (srv s) conn lg ra now"
  | (close) k ord where "srv t = CloseSession ord (srv s) k"
  using assms
proof (cases rule: sstep.cases)
  case (stream i fr st)
  then have "same_view (srv s) (srv t)" by (auto intro: views split: option.splits)
  then show ?thesis by (rule same)
next
  case (visitor p c b s1)
  then show ?thesis by (intro same) (simp add: queueVisitor_view)
next
  case (take i p st v s1)
  then show ?thesis by (intro same) (simp add: streamSelect_view)
qed (auto intro: same reject admit close intro!: views)

lemma step_closed_mono:
  assumes "sstep J u s l t" "i < nx_sid (srv s)"
  shows "se_closed (hp_session (srv s) i) \<Longrightarrow> se_closed (hp_session (srv t) i)"
    and "se_clientID (hp_session (srv t) i) = se_clientID (hp_session (srv s) i)"
proof -
  from assms(1) have "(se_closed (hp_session (srv s) i) \<longrightarrow> se_closed (hp_session (srv t) i)) \<and>
      se_clientID (hp_session (srv t) i) = se_clientID (hp_session (srv s) i)"
    by (cases rule: step_view) (use assms(2) in \<open>auto simp: CloseSession_view newSession_view same_view_def\<close>)
  then show "se_closed (hp_session (srv s) i) \<Longrightarrow> se_closed (hp_session (srv t) i)"
    and "se_clientID (hp_session (srv t) i) = se_clientID (hp_session (srv s) i)" by auto
qed

section \<open>Replacement of connections\<close>

text \<open>
  An open session whose control goroutine is alive is the one in the table for its client, or
  another goroutine is about to close it.
\<close>

definition replaced :: "sys \<Rightarrow> bool" where
  "replaced s \<longleftrightarrow>
     (\<forall>i x. pcs s i = Some x \<longrightarrow> x \<noteq> PcDone \<longrightarrow> \<not> se_closed (hp_session (srv s) i) \<longrightarrow>
        sv_sessions (srv s) (se_clientID (hp_session (srv s) i)) = Some i \<or>
        (\<exists>k. pcs s k = Some (PcKick i)))"

lemma replacedD:
  "replaced s \<Longrightarrow> pcs s i = Some x \<Longrightarrow> x \<noteq> PcDone \<Longrightarrow> \<not> se_closed (hp_session (srv s) i) \<Longrightarrow>
     sv_sessions (srv s) (se_clientID (hp_session (srv s) i)) = Some i \<or> (\<exists>k. pcs s k = Some (PcKick i))"
  by (simp add: replaced_def)

text \<open>Steps that change neither table nor sessions and move one goroutine between living states.\<close>

lemma replaced_move:
  assumes "replaced s" "same_view (srv s) (srv t)" "pcs t = (pcs s)(i \<mapsto> y)" "pcs s i = Some x"
    "x \<noteq> PcDone" "\<And>j. x \<noteq> PcKick j"
  shows "replaced t"
  unfolding replaced_def
proof (intro allI impI)
  fix k z assume z: "pcs t k = Some z" "z \<noteq> PcDone" "\<not> se_closed (hp_session (srv t) k)"
  from z assms(3-5) obtain z' where "pcs s k = Some z'" "z' \<noteq> PcDone" by (auto split: if_splits)
  with z(3) assms(2) have "sv_sessions (srv s) (se_clientID (hp_session (srv s) k)) = Some k \<or>
      (\<exists>j. pcs s j = Some (PcKick k))"
    by (intro replacedD [OF assms(1)]) (auto simp: same_view_def)
  moreover have "pcs s j = Some (PcKick k) \<Longrightarrow> pcs t j = Some (PcKick k)" for j
    using assms(3,4,6) by (cases "j = i") auto
  ultimately show "sv_sessions (srv t) (se_clientID (hp_session (srv t) k)) = Some k \<or>
      (\<exists>j. pcs t j = Some (PcKick k))"
    using assms(2) unfolding same_view_def by metis
qed

lemma replaced_same:
  assumes "replaced s" "same_view (srv s) (srv t)" "pcs t = pcs s"
  shows "replaced t"
  using assms by (simp add: replaced_def same_view_def)

text \<open>A close by a goroutine that waits to do it, or that ends with it.\<close>

lemma replaced_close:
  assumes "replaced s" "srv t = CloseSession ord (srv s) k"
    "\<And>i z. pcs t i = Some z \<Longrightarrow> z \<noteq> PcDone \<Longrightarrow> \<exists>z'. pcs s i = Some z' \<and> z' \<noteq> PcDone"
    "\<And>i j. pcs s j = Some (PcKick i) \<Longrightarrow> i \<noteq> k \<Longrightarrow> pcs t j = Some (PcKick i)"
  shows "replaced t"
  unfolding replaced_def
proof (intro allI impI)
  fix i z assume z: "pcs t i = Some z" "z \<noteq> PcDone" "\<not> se_closed (hp_session (srv t) i)"
  from assms(3) [OF z(1,2)] obtain z' where z': "pcs s i = Some z'" "z' \<noteq> PcDone" by blast
  from z(3) assms(2) have o: "\<not> se_closed (hp_session (srv s) i)" "i \<noteq> k" by (auto simp: CloseSession_view)
  from replacedD [OF assms(1) z' o(1)]
  show "sv_sessions (srv t) (se_clientID (hp_session (srv t) i)) = Some i \<or>
      (\<exists>j. pcs t j = Some (PcKick i))"
    using assms(2,4) o(2) by (auto simp: CloseSession_view)
qed

lemma replaced_reject:
  assumes "replaced s" "sys_inv s" "sstep J u s (LReject conn lg ra now ok m) t"
  shows "replaced t"
  using assms(3)
proof cases
  case reject
  from assms(2) have old: "pcs s i \<noteq> None \<longleftrightarrow> i < nx_sid (srv s)" for i by (simp add: sys_inv_def)
  show ?thesis
    unfolding replaced_def
  proof (intro allI impI)
    fix i z assume z: "pcs t i = Some z" "z \<noteq> PcDone" "\<not> se_closed (hp_session (srv t) i)"
    with reject have i: "pcs s i = Some z" "i \<noteq> nx_sid (srv s)" by (auto split: if_splits)
    with z reject have "sv_sessions (srv s) (se_clientID (hp_session (srv s) i)) = Some i \<or>
        (\<exists>j. pcs s j = Some (PcKick i))"
      by (intro replacedD [OF assms(1)]) (auto simp: newSession_view)
    moreover have "pcs s j = Some (PcKick i) \<Longrightarrow> pcs t j = Some (PcKick i)" for j
      using reject old [of j] by (cases "j = nx_sid (srv s)") auto
    moreover have "sv_sessions (srv t) = sv_sessions (srv s)"
      "se_clientID (hp_session (srv t) i) = se_clientID (hp_session (srv s) i)"
      using reject i by (simp_all add: newSession_view)
    ultimately show "sv_sessions (srv t) (se_clientID (hp_session (srv t) i)) = Some i \<or>
        (\<exists>j. pcs t j = Some (PcKick i))" by metis
  qed
qed

lemma replaced_admit:
  assumes "replaced s" "sys_inv s" "sstep J u s (LAdmit conn lg ra now) t"
  shows "replaced t"
  using assms(3)
proof cases
  case admit
  from assms(2) have old: "pcs s i \<noteq> None \<longleftrightarrow> i < nx_sid (srv s)" for i by (simp add: sys_inv_def)
  show ?thesis
    unfolding replaced_def
  proof (intro allI impI)
    fix i z assume z: "pcs t i = Some z" "z \<noteq> PcDone" "\<not> se_closed (hp_session (srv t) i)"
    show "sv_sessions (srv t) (se_clientID (hp_session (srv t) i)) = Some i \<or>
        (\<exists>j. pcs t j = Some (PcKick i))"
    proof (cases "i = nx_sid (srv s)")
      case True
      with admit show ?thesis by (simp add: newSession_view)
    next
      case False
      with z admit have "pcs s i = Some z" by simp
      with z admit False have "sv_sessions (srv s) (se_clientID (hp_session (srv s) i)) = Some i \<or>
          (\<exists>j. pcs s j = Some (PcKick i))"
        by (intro replacedD [OF assms(1)]) (auto simp: newSession_view)
      then show ?thesis
      proof
        assume "sv_sessions (srv s) (se_clientID (hp_session (srv s) i)) = Some i"
        then show ?thesis using admit False
          by (cases "se_clientID (hp_session (srv s) i) = lg_ClientID lg") (auto simp: newSession_view)
      next
        assume "\<exists>j. pcs s j = Some (PcKick i)"
        then obtain j where j: "pcs s j = Some (PcKick i)" ..
        with old [of j] have "j \<noteq> nx_sid (srv s)" by auto
        with j admit show ?thesis by auto
      qed
    qed
  qed
qed

lemma replaced_step:
  assumes "sstep J u s l t" "sys_inv s" "replaced s"
  shows "replaced t"
  using assms(1)
proof (cases rule: sstep.cases)
  case reject
  then show ?thesis using replaced_reject [OF assms(3,2)] assms(1) by blast
next
  case admit
  then show ?thesis using replaced_admit [OF assms(3,2)] assms(1) by blast
next
  case (kick i j ord)
  then show ?thesis by (intro replaced_close [OF assms(3)]) (auto split: if_splits)
next
  case (close i ord)
  then show ?thesis by (intro replaced_close [OF assms(3)]) (auto split: if_splits)
next
  case (shutdown i ord)
  then show ?thesis by (intro replaced_close [OF assms(3)]) auto
next
  case (greet i now ok)
  then show ?thesis by (intro replaced_move [OF assms(3)]) (auto intro: views)
next
  case (read_error i)
  then show ?thesis by (intro replaced_move [OF assms(3)]) (auto intro: views)
next
  case (frame i ty payload)
  then show ?thesis by (intro replaced_move [OF assms(3)]) (auto intro: views)
next
  case (handle i ty payload bind m s1)
  then show ?thesis by (intro replaced_move [OF assms(3)]) (auto intro: ctlHandle_view)
next
  case (reply i m ok)
  then show ?thesis by (intro replaced_move [OF assms(3)]) (auto intro: views)
next
  case (visitor p c b s1)
  then show ?thesis by (intro replaced_same [OF assms(3)]) (auto intro: queueVisitor_view)
next
  case (notify p c ok)
  then show ?thesis by (intro replaced_same [OF assms(3)]) (auto intro: views)
next
  case (stream i fr st)
  then show ?thesis by (intro replaced_same [OF assms(3)]) (auto intro: views split: option.splits)
next
  case (take i p st v s1)
  then show ?thesis by (intro replaced_same [OF assms(3)]) (auto intro: streamSelect_view)
next
  case (timeout i p st)
  then show ?thesis by (intro replaced_same [OF assms(3)]) (auto intro: views)
next
  case (finish i p v st out inn)
  then show ?thesis by (intro replaced_same [OF assms(3)]) (auto intro: views)
qed

interpretation replacement:
  strengthened_system "sys_start loadCert" "sstep J u" sys_inv replaced for loadCert J u
proof
  fix s assume "sys_start loadCert s"
  then show "replaced s" by (auto simp: sys_start_def sys_init_def replaced_def)
next
  fix s l t assume "sys_inv s" "replaced s" "sstep J u s l t"
  then show "replaced t" by (blast intro: replaced_step)
qed

section \<open>Proxies of closed sessions\<close>

text \<open>
  \<^verbatim>\<open>dropSession\<close> relies on its caller: the session must not register any more. While no
  frame of a closed session is handled, a closed session holds nothing.
\<close>

definition late :: "sys \<Rightarrow> label \<Rightarrow> bool" where
  "late s l \<longleftrightarrow> (\<exists>i. registers l = Some i \<and> se_closed (hp_session (srv s) i))"

definition timely_step ::
    "json_decoders \<Rightarrow> (gostring \<Rightarrow> gostring) \<Rightarrow> sys \<Rightarrow> label \<Rightarrow> sys \<Rightarrow> bool" where
  "timely_step J u s l t \<longleftrightarrow> sstep J u s l t \<and> \<not> late s l"

definition closed_holds_nothing :: "sys \<Rightarrow> bool" where
  "closed_holds_nothing s \<longleftrightarrow>
     (\<forall>p. registered (srv s) p \<longrightarrow> \<not> se_closed (hp_session (srv s) (px_session (hp_proxy (srv s) p))))"

lemma registered_session:
  "reg_inv s \<Longrightarrow> registered s p \<Longrightarrow> px_session (hp_proxy s p) < nx_sid s"
  by (auto simp: reg_inv_def inv_keys_def registered_def)

lemma CloseSession_holds_nothing:
  assumes "reg_inv s" "iterates ord s i" "registered (CloseSession ord s i) p"
    "\<And>q. registered s q \<Longrightarrow> \<not> se_closed (hp_session s (px_session (hp_proxy s q)))"
  shows "\<not> se_closed (hp_session (CloseSession ord s i) (px_session (hp_proxy (CloseSession ord s i) p)))"
proof -
  from CloseSession_shrinks [OF assms(1,2)] assms(3)
  have "registered s p" "same_core (hp_proxy (CloseSession ord s i) p) (hp_proxy s p)"
    "px_session (hp_proxy s p) = i \<Longrightarrow> se_closed (hp_session s i)"
    by (auto simp: shrinks_def)
  with assms(4) show ?thesis by (auto simp: CloseSession_view same_core_def)
qed

lemma timely_step_holds:
  assumes "timely_step J u s l t" "sys_inv s" "closed_holds_nothing s"
  shows "closed_holds_nothing t"
  unfolding closed_holds_nothing_def
proof (intro allI impI)
  fix p assume p: "registered (srv t) p"
  from assms(1) have st: "sstep J u s l t" and nl: "\<not> late s l" by (auto simp: timely_step_def)
  from assms(2) have inv: "reg_inv (srv s)" by (simp add: sys_inv_def)
  have old: "registered (srv s) q \<Longrightarrow> \<not> se_closed (hp_session (srv s) (px_session (hp_proxy (srv s) q)))" for q
    using assms(3) by (simp add: closed_holds_nothing_def)
  note sessions = registered_session [OF inv]
  have keep: "\<not> se_closed (hp_session (srv t) (px_session (hp_proxy (srv t) p)))"
    if "shrinks {} (srv s) (srv t)"
      "\<And>j. j < nx_sid (srv s) \<Longrightarrow> se_closed (hp_session (srv t) j) = se_closed (hp_session (srv s) j)"
    using that p old [of p] sessions [of p] by (auto simp: shrinks_def same_core_def)
  show "\<not> se_closed (hp_session (srv t) (px_session (hp_proxy (srv t) p)))"
    using st
  proof (cases rule: sstep.cases)
    case (handle i ty payload bind m s1)
    then have v: "same_view (srv s) (srv t)" by (simp add: ctlHandle_view)
    from handle nl have open_i: "\<not> se_closed (hp_session (srv s) i)" by (simp add: late_def)
    from step_evolves [OF st assms(2)] handle(1)
    consider P where "shrinks P (srv s) (srv t)"
      | Pr where "installable (srv s) Pr" "srv t = installProxy (srv s) Pr" "px_session Pr = i"
      by (auto simp: evolves_def)
    then show ?thesis
    proof cases
      case 1
      with p old [of p] v show ?thesis by (auto simp: shrinks_def same_core_def same_view_def)
    next
      case 2
      from inv 2(1) have k: "inv_keys (srv s)" "sv_proxies (srv s) (pkey Pr) = None"
        by (simp_all add: reg_inv_def installable_def)
      from p 2 have "p = nx_pid (srv s) \<or> registered (srv s) p" by (simp add: install_registered [OF k])
      moreover have "registered (srv s) p \<Longrightarrow> p \<noteq> nx_pid (srv s)" using registered_bound [OF k(1)] by blast
      ultimately show ?thesis using old [of p] open_i 2 by (auto simp: reg_simps)
    qed
  next
    case (kick i j ord)
    then show ?thesis using CloseSession_holds_nothing [OF inv, of ord j p] p old by simp
  next
    case (close i ord)
    then show ?thesis using CloseSession_holds_nothing [OF inv, of ord i p] p old by simp
  next
    case (shutdown i ord)
    then show ?thesis using CloseSession_holds_nothing [OF inv, of ord i p] p old by simp
  next
    case (visitor q c b s1)
    then show ?thesis using queueVisitor_keeps queueVisitor_view by (intro keep) (fastforce simp: same_view_def)+
  next
    case (take i q st v s1)
    then show ?thesis using streamSelect_keeps streamSelect_view by (intro keep) (fastforce simp: same_view_def)+
  next
    case (stream i fr st)
    then show ?thesis
      by (intro keep) (auto intro: keeps split: option.splits)
  next
    case (notify q c ok)
    then show ?thesis using notifyClient_view [of "srv s" q c ok]
      by (intro keep) (auto intro: keeps simp: same_view_def)
  next
    case (finish i q v st out inn)
    then show ?thesis using streamDone_view [of "srv s"]
      by (intro keep) (auto intro: keeps simp: same_view_def)
  qed (rule keep; auto intro: keeps shrinks_refl simp: newSession_view)+
qed

lemma timely_start: "sys_start loadCert s \<Longrightarrow> closed_holds_nothing s"
  by (auto simp: sys_start_def sys_init_def closed_holds_nothing_def registered_def emptyServer_def
      elim!: New_Inr)

interpretation timely:
  strengthened_system "sys_start loadCert" "timely_step J u" sys_inv closed_holds_nothing
  for loadCert J u
proof
  fix s assume "sys_start loadCert s"
  then show "sys_inv s" "closed_holds_nothing s" by (auto intro: server.inv_init timely_start)
next
  fix s l t assume "sys_inv s" "timely_step J u s l t"
  then show "sys_inv t" by (auto simp: timely_step_def intro: server.inv_step)
next
  fix s l t assume "sys_inv s" "closed_holds_nothing s" "timely_step J u s l t"
  then show "closed_holds_nothing t" by (blast intro: timely_step_holds)
qed

text \<open>A proxy whose session is closed and whose control goroutine is gone.\<close>

definition orphan :: "pid \<Rightarrow> sys \<Rightarrow> bool" where
  "orphan p s \<longleftrightarrow> registered (srv s) p \<and>
     se_closed (hp_session (srv s) (px_session (hp_proxy (srv s) p))) \<and>
     pcs s (px_session (hp_proxy (srv s) p)) = Some PcDone"

lemma step_PcDone:
  assumes "sstep J u s l t" "sys_inv s" "pcs s i = Some PcDone"
  shows "pcs t i = Some PcDone"
proof -
  from assms(2,3) have "i < nx_sid (srv s)" by (auto simp: sys_inv_def)
  with assms(3) show ?thesis using assms(1) by (cases l) (auto elim!: sstep.cases split: option.splits)
qed

lemma orphan_step:
  assumes "sstep J u s l t" "sys_inv s" "orphan p s"
  shows "orphan p t"
proof -
  define i where "i = px_session (hp_proxy (srv s) p)"
  from assms(2,3) have inv: "reg_inv (srv s)" and reg: "registered (srv s) p"
    and cl: "se_closed (hp_session (srv s) i)" and dn: "pcs s i = Some PcDone"
    by (auto simp: orphan_def sys_inv_def i_def)
  have i: "i < nx_sid (srv s)" using registered_session [OF inv reg] by (simp add: i_def)
  have cl': "se_closed (hp_session (srv t) i)" by (rule step_closed_mono(1) [OF assms(1) i cl])
  have dn': "pcs t i = Some PcDone" by (rule step_PcDone [OF assms(1,2) dn])
  have "i \<notin> acts s l"
  proof -
    have "l = LHandle i b \<Longrightarrow> False" for b
      using assms(1) dn by (auto elim: sstep.cases)
    with cl show ?thesis by (cases l) auto
  qed
  with step_evolves [OF assms(1,2)] consider P where "shrinks P (srv s) (srv t)" "p \<notin> P"
    | Pr where "installable (srv s) Pr" "srv t = installProxy (srv s) Pr"
    unfolding evolves_def i_def by blast
  then have "registered (srv t) p \<and> px_session (hp_proxy (srv t) p) = i"
  proof cases
    case 1
    with reg show ?thesis by (auto simp: shrinks_def same_core_def i_def)
  next
    case 2
    from inv 2(1) have k: "inv_keys (srv s)" "sv_proxies (srv s) (pkey Pr) = None"
      by (simp_all add: reg_inv_def installable_def)
    have "p \<noteq> nx_pid (srv s)" using registered_bound [OF k(1) reg] by simp
    with 2 reg show ?thesis by (simp add: install_registered [OF k] reg_simps i_def)
  qed
  with cl' dn' show ?thesis by (simp add: orphan_def)
qed

interpretation orphans:
  invariant_system "\<lambda>s. sys_inv s \<and> orphan p s" "sstep J u" "\<lambda>s. sys_inv s \<and> orphan p s" for p J u
  by unfold_locales (auto intro: server.inv_step orphan_step)

text \<open>How a proxy becomes one: its session is closed between the read of the frame and its handling.\<close>

lemma late_registration:
  assumes inv: "sys_inv s" and pc: "pcs s i = Some (PcFrame TypeNewProxy payload)"
    and cl: "se_closed (hp_session (srv s) i)"
    and np: "decNewProxy J payload = Some np" "registerProxy u (srv s) i np bind = (resp, s1)" "s1 \<noteq> srv s"
  shows "\<exists>t. run (sstep J u) s [LHandle i bind, LReply i False, LClose i []] t \<and>
    orphan (nx_pid (srv s)) t \<and> registered (srv t) (nx_pid (srv s)) \<and>
    px_session (hp_proxy (srv t) (nx_pid (srv s))) = i"
proof -
  from inv pc have rinv: "reg_inv (srv s)" and i: "i < nx_sid (srv s)" by (auto simp: sys_inv_def)
  let ?h = "s\<lparr>srv := s1, pcs := (pcs s)(i \<mapsto> PcReply (SNewProxyResp resp))\<rparr>"
  let ?r = "?h\<lparr>pcs := (pcs s)(i \<mapsto> PcClosing)\<rparr>"
  let ?t = "?h\<lparr>pcs := (pcs s)(i \<mapsto> PcDone)\<rparr>"
  have ch: "ctlHandle J u bind TypeNewProxy payload (srv s) i = (Some (SNewProxyResp resp), s1)"
    using np(1,2) by (simp add: ctlHandle_def)
  have c1: "se_closed (hp_session s1 i)"
    using registerProxy_view [OF np(2)] cl by (simp add: same_view_def)
  from sstep.handle [where J = J and u = u, OF pc ch] have "sstep J u s (LHandle i bind) ?h" by simp
  moreover from sstep.reply [where J = J and u = u and s = ?h and i = i and ok = False]
  have "sstep J u ?h (LReply i False) ?r" by (simp add: sendMsg_def)
  moreover from sstep.close [where J = J and u = u and s = ?r and i = i and ord = "[]"] c1
  have "sstep J u ?r (LClose i []) ?t" by (simp add: iterates_def CloseSession_def)
  ultimately have "run (sstep J u) s [LHandle i bind, LReply i False, LClose i []] ?t"
    by (blast intro: run_nil run_cons)
  moreover have "registered s1 (nx_pid (srv s)) \<and> px_session (hp_proxy s1 (nx_pid (srv s))) = i"
  proof -
    have own: "px_session (newTCP (srv s) i np) = i" "px_session (newHTTP u (srv s) i np) = i"
      by (simp_all add: tcpProxy_def httpProxy_def)
    from ctlHandle_evolves [OF rinv i ch] np(3) registerProxy_cases [OF rinv i np(2)] own
    obtain Pr where Pr: "installable (srv s) Pr" "s1 = installProxy (srv s) Pr" "px_session Pr = i" by metis
    then have k: "inv_keys (srv s)" "sv_proxies (srv s) (pkey Pr) = None"
      using rinv by (simp_all add: reg_inv_def installable_def)
    show ?thesis using Pr by (simp add: install_registered [OF k] reg_simps)
  qed
  ultimately show ?thesis using c1 by (intro exI [of _ ?t]) (simp add: orphan_def)
qed

text \<open>
  The server answers a later session of the client that the proxy is registered, but the session does
  not own it: it can neither serve nor close it.
\<close>

lemma orphan_answers:
  assumes inv: "sys_inv s" and p: "orphan p s"
    and j: "\<not> se_closed (hp_session (srv s) j)" "se_clientID (hp_session (srv s) j) = px_clientID (hp_proxy (srv s) p)"
    and np: "np_Name np = px_name (hp_proxy (srv s) p)" "np_Type np = ''tcp''" "SplitHostPort (np_Local np) \<noteq> None"
      "sameConfig (hp_proxy (srv s) p) np"
  shows "registerProxy u (srv s) j np bind = (okResp np (np_RemotePort np), srv s)"
    "se_proxies (hp_session (srv s) j) (np_Name np) = None" "closeProxy (srv s) j (np_Name np) = srv s"
proof -
  let ?P = "hp_proxy (srv s) p"
  from inv p have r: "reg_inv (srv s)" and reg: "registered (srv s) p" and i: "px_session ?P \<noteq> j"
    using j(1) by (auto simp: sys_inv_def orphan_def)
  have k: "regKey (srv s) j np = pkey ?P" by (simp add: regKey_def pkey_def j(2) np(1))
  from np(2,4) have port: "px_remotePort ?P = np_RemotePort np" by (simp add: sameConfig_def split: if_splits)
  with r reg have "np_RemotePort np \<noteq> 0 \<Longrightarrow> portAllowed (srv s) (np_RemotePort np)"
    by (auto simp: reg_inv_def inv_ports_def)
  with reg np k port show "registerProxy u (srv s) j np bind = (okResp np (np_RemotePort np), srv s)"
    by (auto simp: registerProxy_def registerTCPProxy_spec registered_def)
  show none: "se_proxies (hp_session (srv s) j) (np_Name np) = None"
  proof (rule ccontr)
    assume "se_proxies (hp_session (srv s) j) (np_Name np) \<noteq> None"
    then obtain q where q: "registered (srv s) q" "px_session (hp_proxy (srv s) q) = j"
      "px_name (hp_proxy (srv s) q) = np_Name np"
      using r by (auto simp: reg_inv_def inv_owner_def)
    from r q(1) have "se_clientID (hp_session (srv s) (px_session (hp_proxy (srv s) q))) = px_clientID (hp_proxy (srv s) q)"
      by (auto simp: reg_inv_def inv_keys_def registered_def)
    with q(2,3) j(2) np(1) have "pkey (hp_proxy (srv s) q) = pkey ?P" by (simp add: pkey_def)
    with q reg i show False by (simp add: registered_def)
  qed
  then show "closeProxy (srv s) j (np_Name np) = srv s" by (simp add: closeProxy_def)
qed

end
