(* ===== verification/Replies.thy ===== *)
theory Replies
  imports Wire ServerInv
begin

text \<open>
  What the server has sent on its control streams: every message is a login reply, a notification,
  or the reply a control goroutine had computed, and its integers fit their types, so the client
  decodes it as what it is.
\<close>

section \<open>Which steps send\<close>

definition same_sent :: "Server \<Rightarrow> Server \<Rightarrow> bool" where
  "same_sent s t \<longleftrightarrow> (\<forall>j. se_sent (hp_session t j) = se_sent (hp_session s j))"

named_theorems silent \<open>operations that send nothing\<close>

lemma same_sent_refl [silent]: "same_sent s s" by (simp add: same_sent_def)

lemma closeConn_silent [silent]: "same_sent s (closeConn c s)" by (simp add: same_sent_def)

lemma queueVisitor_silent [silent]: "queueVisitor s p c = (b, t) \<Longrightarrow> same_sent s t"
  by (auto simp: same_sent_def queueVisitor_def split: option.splits)

lemma streamSelect_silent [silent]: "streamSelect s i p st = (v, t) \<Longrightarrow> same_sent s t"
  by (auto simp: same_sent_def streamSelect_def split: option.splits if_splits)

lemma streamDone_silent [silent]: "same_sent s (streamDone s i p v st out inn)"
  by (simp add: same_sent_def streamDone_def)

lemma registerProxy_silent [silent]: "registerProxy u s i np b = (resp, t) \<Longrightarrow> same_sent s t"
  by (auto simp: same_sent_def registerProxy_def registerTCPProxy_def registerHTTPProxy_def Let_def
      split: option.splits if_splits)

lemma closeProxy_silent [silent]: "same_sent s (closeProxy s i n)"
  by (auto simp: same_sent_def closeProxy_def removeProxyLocked_def Let_def split: option.splits)

lemma ctlHandle_silent [silent]: "ctlHandle J u b ty payload s i = (m, t) \<Longrightarrow> same_sent s t"
  by (erule ctlHandle_cases) (auto intro: silent)

lemma CloseSession_silent [silent]: "same_sent s (CloseSession ord s i)"
proof -
  have "se_sent (hp_session (dropSession ord s i) j) = se_sent (hp_session s j)" for j
    by (subst dropSession_session) simp
  then show ?thesis by (simp add: same_sent_def CloseSession_def Let_def)
qed

text \<open>A message beyond those sent before is one of three kinds.\<close>

definition fresh_message :: "sys \<Rightarrow> label \<Rightarrow> sid \<Rightarrow> smsg \<Rightarrow> bool" where
  "fresh_message s l i m \<longleftrightarrow>
     (\<exists>now ok. l = LWelcome i now ok \<and> m = loginOK now) \<or>
     (\<exists>e. m = SLoginResp \<lparr>lr_OK = False, lr_ServerTime = 0, lr_Error = Some e\<rparr>) \<or>
     pcs s i = Some (PcReply m) \<or> (\<exists>n. m = SStartWorkConn \<lparr>sw_ProxyName = n\<rparr>)"

lemma sendMsg_sent:
  "se_sent (hp_session (snd (sendMsg ok i m s)) j) =
     se_sent (hp_session s j) @ (if ok \<and> j = i then [m] else [])"
  by (simp add: sendMsg_def)

lemma notifyClient_sent:
  "se_sent (hp_session (notifyClient s p c ok) j) =
     se_sent (hp_session s j) @
       (if ok \<and> j = px_session (hp_proxy s p) then [SStartWorkConn \<lparr>sw_ProxyName = px_name (hp_proxy s p)\<rparr>] else [])"
  by (auto simp: notifyClient_def sendMsg_def notifyFailed_def Let_def split: option.splits)

lemma step_sent:
  assumes "sstep J u s l t" "m \<in> set (se_sent (hp_session (srv t) i))"
  shows "m \<in> set (se_sent (hp_session (srv s) i)) \<or> fresh_message s l i m"
proof -
  have quiet: "same_sent (srv s) (srv t) \<Longrightarrow> m \<in> set (se_sent (hp_session (srv s) i))"
    using assms(2) by (simp add: same_sent_def)
  show ?thesis
    using assms(1)
  proof (cases rule: sstep.cases)
    case (reject lg now e conn ra ok)
    with assms(2) show ?thesis
      by (auto simp: loginFail_def sendMsg_sent allocated_def newSession_def fresh_message_def split: if_splits)
  next
    case (admit lg now conn ra)
    with assms(2) show ?thesis by (auto simp: admitted_def newSession_def split: if_splits)
  next
    case (greet k now ok)
    with assms(2) show ?thesis by (auto simp: sendMsg_sent fresh_message_def split: if_splits)
  next
    case (reply k r ok)
    with assms(2) show ?thesis by (auto simp: sendMsg_sent fresh_message_def split: if_splits)
  next
    case (notify p c ok)
    with assms(2) show ?thesis by (auto simp: notifyClient_sent fresh_message_def split: if_splits)
  next
    case (stream k fr st)
    then have "same_sent (srv s) (srv t)" by (auto intro: silent split: option.splits)
    with quiet show ?thesis by blast
  next
    case (visitor p c b s1)
    then have "same_sent (srv s) (srv t)" by (simp add: queueVisitor_silent)
    with quiet show ?thesis by blast
  next
    case (take k p st v s1)
    then have "same_sent (srv s) (srv t)" by (simp add: streamSelect_silent)
    with quiet show ?thesis by blast
  qed (use quiet in \<open>auto intro: silent\<close>)
qed

section \<open>Decoded integers\<close>

lemma setFields_keeps:
  assumes "setFields F fs m = Some m'" "P m"
    and "\<And>k f v m m'. (k, f) \<in> set F \<Longrightarrow> f v m = Some m' \<Longrightarrow> P m \<Longrightarrow> P m'"
  shows "P m'"
  using assms(1,2)
proof (induction fs arbitrary: m)
  case (Cons kv fs)
  obtain k v where kv: "kv = (k, v)" by fastforce
  show ?case
  proof (cases "lookupField F k")
    case None
    with Cons kv show ?thesis by simp
  next
    case (Some f)
    then obtain k' where f: "(k', f) \<in> set F"
      by (auto simp: lookupField_def find_Some_iff dest: map_of_SomeD split: option.splits)
        (metis nth_mem prod.collapse)
    from Cons.prems(1) Some kv obtain m1 where m1: "f v m = Some m1" "setFields F fs m1 = Some m'"
      by (auto split: option.splits)
    have "P m1" by (rule assms(3) [OF f m1(1) Cons.prems(2)])
    with m1(2) show ?thesis by (rule Cons.IH)
  qed
qed simp

lemma unmarshal_keeps:
  assumes "unmarshal F zero payload = Some m" "P zero"
    and "\<And>k f v m m'. (k, f) \<in> set F \<Longrightarrow> f v m = Some m' \<Longrightarrow> P m \<Longrightarrow> P m'"
  shows "P m"
proof -
  from assms(1,2) consider "P m" | fs where "setFields F fs zero = Some m"
    by (auto simp: unmarshal_def split: option.splits json.splits)
  then show ?thesis using setFields_keeps [of F _ zero m P] assms(2,3) by cases blast+
qed

lemma Atoi_range: "Atoi s = Some i \<Longrightarrow> in_int64 i"
  by (auto simp: Atoi_def Let_def split: list.splits if_splits option.splits prod.splits)

lemma field_results:
  "intField upd v m = Some m' \<Longrightarrow> m' = m \<or> (\<exists>i. in_int64 i \<and> m' = upd (\<lambda>_. i) m)"
  "strField upds v m = Some m' \<Longrightarrow> m' = m \<or> (\<exists>x. m' = upds (\<lambda>_. x) m)"
  "domainsField v ma = Some ma' \<Longrightarrow> \<exists>xs. fst ma' = (fst ma)\<lparr>np_CustomDomains := xs\<rparr>"
  using Atoi_range
  by (fastforce simp: intField_def strField_def domainsField_def split: json.splits option.splits prod.splits if_splits)+

lemma goPing_fits: "goPing payload = Some m \<Longrightarrow> in_int64 (ping_Ts m)"
  unfolding goPing_def
  by (erule unmarshal_keeps) (auto simp: in_int64_def [of 0] dest!: field_results(1))

lemma goNewProxy_fits:
  assumes "goNewProxy payload = Some m"
  shows "in_int64 (np_RemotePort m) \<and> in_int64 (np_ReqID m)"
proof -
  let ?P = "\<lambda>x. in_int64 (np_RemotePort (fst x)) \<and> in_int64 (np_ReqID (fst x))"
  from assms obtain ma where "m = fst ma" and u: "unmarshal
     [(''name'', strField (\<lambda>f. apfst (np_Name_update f))), (''type'', strField (\<lambda>f. apfst (np_Type_update f))),
      (''local'', strField (\<lambda>f. apfst (np_Local_update f))),
      (''remote_port'', intField (\<lambda>f. apfst (np_RemotePort_update f))),
      (''subdomain'', strField (\<lambda>f. apfst (np_Subdomain_update f))), (''custom_domains'', domainsField),
      (''req_id'', intField (\<lambda>f. apfst (np_ReqID_update f)))]
     (\<lparr>np_Name = [], np_Type = [], np_Local = [], np_RemotePort = 0, np_Subdomain = [],
       np_CustomDomains = [], np_ReqID = 0\<rparr>, []) payload = Some ma"
    by (auto simp: goNewProxy_def)
  from u have "?P ma"
    by (rule unmarshal_keeps [where P = ?P])
      (auto simp: in_int64_def [of 0] dest!: field_results)
  with \<open>m = fst ma\<close> show ?thesis by simp
qed

section \<open>Replies fit\<close>

lemma allowed_fits: "inv_ranges s \<Longrightarrow> portAllowed s p \<Longrightarrow> in_int64 p"
  by (auto simp: inv_ranges_def portAllowed_def portAllowedIn_iff Contains_def valid_range_def in_int64_def)

lemma wantedPort_fits: "inv_ranges s \<Longrightarrow> in_int64 (np_RemotePort np) \<Longrightarrow> in_int64 (wantedPort s np)"
  using allocRanges_cases [of "sv_ranges s" "sv_byPort s"]
  by (auto simp: wantedPort_def allocPortLocked_def inv_ranges_def in_int64_def)

lemma registered_fits: "reg_inv s \<Longrightarrow> sv_proxies s k = Some p \<Longrightarrow> in_int64 (px_remotePort (hp_proxy s p))"
  using allowed_fits [of s "px_remotePort (hp_proxy s p)"]
  by (cases "px_remotePort (hp_proxy s p) = 0")
    (auto simp: reg_inv_def inv_ports_def inv_keys_def registered_def in_int64_def)

lemma registerProxy_reply:
  assumes "registerProxy u s i np bind = (resp, t)"
  shows "nr_ReqID resp = np_ReqID np" "nr_Name resp = np_Name np"
    "nr_OK resp \<Longrightarrow> sv_proxies t (proxyKey (se_clientID (hp_session s i)) (np_Name np)) \<noteq> None"
  using assms
  by (auto simp: registerProxy_def registerTCPProxy_def registerHTTPProxy_def okResp_def errResp_def Let_def
      split: option.splits if_splits)

lemma registerProxy_fits:
  assumes inv: "reg_inv s" and r: "registerProxy u s i np bind = (resp, t)"
    and np: "in_int64 (np_RemotePort np)" "in_int64 (np_ReqID np)"
  shows "fitsSMsg (SNewProxyResp resp)"
proof -
  from inv have ran: "inv_ranges s" by (simp add: reg_inv_def)
  note fits = registered_fits [OF inv] wantedPort_fits [OF ran np(1)]
  have "in_int64 (nr_RemotePort resp)"
    using r fits in_int64_def [of 0]
    by (auto simp: registerProxy_def registerTCPProxy_spec registerHTTPProxy_spec okResp_def errResp_def Let_def
        split: option.splits if_splits)
  with registerProxy_reply(1) [OF r] np show ?thesis by simp
qed

text \<open>Labels of the server whose integers are values of Go's types.\<close>

fun go_slabel :: "label \<Rightarrow> bool" where
  "go_slabel (LWelcome _ now _) \<longleftrightarrow> in_int64 now"
| "go_slabel _ \<longleftrightarrow> True"

definition go_sstep :: "(gostring \<Rightarrow> gostring) \<Rightarrow> sys \<Rightarrow> label \<Rightarrow> sys \<Rightarrow> bool" where
  "go_sstep u s l t \<longleftrightarrow> sstep goDecoders u s l t \<and> go_slabel l"

definition replies_fit :: "sys \<Rightarrow> bool" where
  "replies_fit s \<longleftrightarrow>
     (\<forall>i. \<forall>m \<in> set (se_sent (hp_session (srv s) i)). fitsSMsg m) \<and>
     (\<forall>i m. pcs s i = Some (PcReply m) \<longrightarrow> fitsSMsg m)"

lemma ctlHandle_fits:
  assumes "reg_inv s" "ctlHandle goDecoders u b ty payload s i = (Some m, t)"
  shows "fitsSMsg m"
  using assms registerProxy_fits [OF assms(1)]
  by (auto simp: ctlHandle_def goDecoders_def dest: goNewProxy_fits goPing_fits
      split: if_splits option.splits prod.splits)

lemma step_reply_pc:
  assumes "sstep J u s l t" "pcs t i = Some (PcReply m)"
  shows "pcs s i = Some (PcReply m) \<or>
    (\<exists>bind ty payload. l = LHandle i bind \<and> pcs s i = Some (PcFrame ty payload) \<and>
       ctlHandle J u bind ty payload (srv s) i = (Some m, srv t))"
  using assms by (cases rule: sstep.cases) (auto split: if_splits option.splits)

lemma go_sstep_fits:
  assumes st: "go_sstep u s l t" and inv: "sys_inv s" "replies_fit s"
  shows "replies_fit t"
  unfolding replies_fit_def
proof (intro conjI allI ballI impI)
  from st have s: "sstep goDecoders u s l t" and lab: "go_slabel l" by (simp_all add: go_sstep_def)
  fix i m
  show "fitsSMsg m" if "m \<in> set (se_sent (hp_session (srv t) i))"
    using step_sent [OF s that] inv(2) lab
    by (auto simp: replies_fit_def fresh_message_def loginOK_def in_int64_def Second_def)
  show "fitsSMsg m" if "pcs t i = Some (PcReply m)"
    using step_reply_pc [OF s that] inv ctlHandle_fits [of "srv s"] by (auto simp: replies_fit_def sys_inv_def)
qed

end
