(* ===== verification/Net.thy ===== *)
theory Net
  imports Requests Replies
begin

text \<open>
  One client and the server as one system: the server has any number of other clients, whose
  frames are arbitrary. The control stream of a connection is what smux promises, a reliable byte
  stream in each direction, so frames arrive in the order they were written; how long they take, and
  whether the connection breaks before they do, is open.
\<close>

section \<open>The system\<close>

text \<open>A registration the server has handled: the request, and the tables before and after.\<close>

record handled =
  hd_sid :: sid
  hd_msg :: NewProxy
  hd_bind :: "gostring option"
  hd_before :: Server
  hd_after :: Server
  hd_resp :: NewProxyResp

text \<open>
  \<open>nt_dialled\<close> is the session the server has opened for the attempt in progress, \<open>nt_link\<close> the session
  behind a connection of the client, \<open>nt_mine\<close> all sessions opened for this client; \<open>nt_up\<close>
  and \<open>nt_down\<close> count the frames of a connection that have been read. \<open>nt_regs\<close> is history.
\<close>

record net =
  nt_cli :: csys
  nt_srv :: sys
  nt_dialled :: "sid option"
  nt_link :: "kid \<rightharpoonup> sid"
  nt_mine :: "sid set"
  nt_up :: "kid \<Rightarrow> nat"
  nt_down :: "kid \<Rightarrow> nat"
  nt_regs :: "handled list"

datatype nlabel =
    NClient clabel
  | NAdmit cid int gostring int
  | NConnect dial_env kid
  | NUp kid
  | NDown kid
  | NHandle sid "gostring option"
  | NServer label

fun client_alone :: "clabel \<Rightarrow> bool" where
  "client_alone (CConnect _ _) \<longleftrightarrow> False"
| "client_alone (CFrame _ _ _) \<longleftrightarrow> False"
| "client_alone _ \<longleftrightarrow> True"

text \<open>Steps of the server alone; frames that are not from this client are arbitrary.\<close>

fun server_alone :: "sid set \<Rightarrow> label \<Rightarrow> bool" where
  "server_alone mine (LFrame i _ _) \<longleftrightarrow> i \<notin> mine"
| "server_alone mine (LHandle _ _) \<longleftrightarrow> False"
| "server_alone mine _ \<longleftrightarrow> True"

fun attempt_over :: "clabel \<Rightarrow> bool" where
  "attempt_over (CFail _ _) \<longleftrightarrow> True"
| "attempt_over _ \<longleftrightarrow> False"

definition registrations ::
    "(gostring \<Rightarrow> gostring) \<Rightarrow> sys \<Rightarrow> sid \<Rightarrow> gostring option \<Rightarrow> handled list" where
  "registrations u s i bind =
     (case pcs s i of
        Some (PcFrame ty payload) \<Rightarrow>
          if ty = TypeNewProxy then
            (case goNewProxy payload of
               None \<Rightarrow> []
             | Some np \<Rightarrow>
                 (case registerProxy u (srv s) i np bind of
                    (resp, sv) \<Rightarrow>
                      [\<lparr>hd_sid = i, hd_msg = np, hd_bind = bind, hd_before = srv s, hd_after = sv,
                        hd_resp = resp\<rparr>]))
          else []
      | _ \<Rightarrow> [])"

text \<open>What the server has sent to a session.\<close>

abbreviation sent_to :: "net \<Rightarrow> sid \<Rightarrow> smsg list" where
  "sent_to s i \<equiv> se_sent (hp_session (srv (nt_srv s)) i)"

definition in_limit :: "bytes \<Rightarrow> bool" where
  "in_limit payload \<longleftrightarrow> length payload \<le> unat MaxFrameSize"

inductive nstep ::
    "(gostring \<Rightarrow> gostring) \<Rightarrow> (gostring \<Rightarrow> gostring) \<Rightarrow> net \<Rightarrow> nlabel \<Rightarrow> net \<Rightarrow> bool"
  for quoted :: "gostring \<Rightarrow> gostring" and u :: "gostring \<Rightarrow> gostring" where
  n_client:
    "go_cstep goClientDecoders u (nt_cli s) l c \<Longrightarrow> client_alone l \<Longrightarrow>
     nstep quoted u s (NClient l)
       (s\<lparr>nt_cli := c, nt_dialled := (if attempt_over l then None else nt_dialled s)\<rparr>)"
| n_admit:
    "mpc (nt_cli s) = MDial cfg \<Longrightarrow> nt_dialled s = None \<Longrightarrow>
     goLogin (encLogin (clientLogin cfg ts)) = Some lg \<Longrightarrow>
     go_sstep u (nt_srv s) (LAdmit conn lg ra now) t \<Longrightarrow>
     nstep quoted u s (NAdmit conn ts ra now)
       (s\<lparr>nt_srv := t, nt_dialled := Some (nx_sid (srv (nt_srv s))),
          nt_mine := insert (nx_sid (srv (nt_srv s))) (nt_mine s)\<rparr>)"
| n_connect:
    "nt_dialled s = Some i \<Longrightarrow> sent_to s i = m # ms \<Longrightarrow>
     de_reply e = Inr (smsgType m, encSMsg quoted m) \<Longrightarrow>
     go_cstep goClientDecoders u (nt_cli s) (CConnect e k) c \<Longrightarrow>
     nstep quoted u s (NConnect e k)
       (s\<lparr>nt_cli := c, nt_dialled := None, nt_link := (nt_link s)(k \<mapsto> i),
          nt_up := (nt_up s)(k := 0), nt_down := (nt_down s)(k := 1)\<rparr>)"
| n_up:
    "nt_link s k = Some i \<Longrightarrow> conns (nt_cli s) k = Some n \<Longrightarrow> nt_up s k < length (cn_wire n) \<Longrightarrow>
     r = cn_wire n ! nt_up s k \<Longrightarrow> in_limit (encCMsg (wq_msg r)) \<Longrightarrow>
     go_sstep u (nt_srv s) (LFrame i (wq_typ r) (encCMsg (wq_msg r))) t \<Longrightarrow>
     nstep quoted u s (NUp k) (s\<lparr>nt_srv := t, nt_up := (nt_up s)(k := Suc (nt_up s k))\<rparr>)"
| n_down:
    "nt_link s k = Some i \<Longrightarrow> nt_down s k < length (sent_to s i) \<Longrightarrow> m = sent_to s i ! nt_down s k \<Longrightarrow>
     in_limit (encSMsg quoted m) \<Longrightarrow>
     go_cstep goClientDecoders u (nt_cli s) (CFrame k (smsgType m) (encSMsg quoted m)) c \<Longrightarrow>
     nstep quoted u s (NDown k) (s\<lparr>nt_cli := c, nt_down := (nt_down s)(k := Suc (nt_down s k))\<rparr>)"
| n_handle:
    "go_sstep u (nt_srv s) (LHandle i bind) t \<Longrightarrow>
     nstep quoted u s (NHandle i bind)
       (s\<lparr>nt_srv := t, nt_regs := nt_regs s @ registrations u (nt_srv s) i bind\<rparr>)"
| n_server:
    "go_sstep u (nt_srv s) l t \<Longrightarrow> server_alone (nt_mine s) l \<Longrightarrow>
     nstep quoted u s (NServer l) (s\<lparr>nt_srv := t\<rparr>)"

inductive_cases nstep_cases: "nstep quoted u s l t"

definition net_start :: "(gostring \<Rightarrow> gostring \<Rightarrow> gostring option) \<Rightarrow> net \<Rightarrow> bool" where
  "net_start loadCert s \<longleftrightarrow>
     (\<exists>c sv. go_start c \<and> sys_start loadCert sv \<and>
        s = \<lparr>nt_cli = c, nt_srv = sv, nt_dialled = None, nt_link = Map.empty, nt_mine = {},
             nt_up = (\<lambda>_. 0), nt_down = (\<lambda>_. 0), nt_regs = []\<rparr>)"

section \<open>Its parts are the client and the server\<close>

lemma nstep_client:
  "nstep quoted u s l t \<Longrightarrow> nt_cli t = nt_cli s \<or> (\<exists>l'. go_cstep goClientDecoders u (nt_cli s) l' (nt_cli t))"
  by (cases rule: nstep.cases) auto

lemma nstep_server:
  "nstep quoted u s l t \<Longrightarrow> nt_srv t = nt_srv s \<or> (\<exists>l'. go_sstep u (nt_srv s) l' (nt_srv t))"
  by (cases rule: nstep.cases) auto

lemma net_client_reachable:
  "reachable (net_start loadCert) (nstep quoted u) s \<Longrightarrow>
     reachable go_start (go_cstep goClientDecoders u) (nt_cli s)"
proof (induction rule: reachable.induct)
  case (reach_init s)
  then show ?case by (auto simp: net_start_def intro: reachable.reach_init)
next
  case (reach_step s l t)
  from nstep_client [OF reach_step.hyps(2)] reach_step.IH show ?case
    by (auto intro: reachable.reach_step)
qed

lemma net_server_reachable:
  "reachable (net_start loadCert) (nstep quoted u) s \<Longrightarrow>
     reachable (sys_start loadCert) (go_sstep u) (nt_srv s)"
proof (induction rule: reachable.induct)
  case (reach_init s)
  then show ?case by (auto simp: net_start_def intro: reachable.reach_init)
next
  case (reach_step s l t)
  from nstep_server [OF reach_step.hyps(2)] reach_step.IH show ?case
    by (auto intro: reachable.reach_step)
qed

section \<open>Invariants\<close>

text \<open>Steps before the request counter of the client wraps.\<close>

definition unwrapped_net ::
    "(gostring \<Rightarrow> gostring) \<Rightarrow> (gostring \<Rightarrow> gostring) \<Rightarrow> net \<Rightarrow> nlabel \<Rightarrow> net \<Rightarrow> bool" where
  "unwrapped_net quoted u s l t \<longleftrightarrow> nstep quoted u s l t \<and> 0 \<le> cl_reqSeq (cli (nt_cli t))"

definition parts_ok :: "net \<Rightarrow> bool" where
  "parts_ok s \<longleftrightarrow> staged (nt_cli s) \<and> routed (nt_cli s) \<and> typed (nt_cli s) \<and> numbered (nt_cli s) \<and>
     sys_inv (nt_srv s) \<and> replies_fit (nt_srv s)"

lemma parts_step:
  assumes ok: "parts_ok s" and st: "unwrapped_net quoted u s l t"
  shows "parts_ok t"
proof -
  from st have n: "nstep quoted u s l t" and pos: "0 \<le> cl_reqSeq (cli (nt_cli t))"
    by (simp_all add: unwrapped_net_def)
  from nstep_client [OF n] have "staged (nt_cli t) \<and> routed (nt_cli t) \<and> typed (nt_cli t) \<and> numbered (nt_cli t)"
  proof
    assume "\<exists>l'. go_cstep goClientDecoders u (nt_cli s) l' (nt_cli t)"
    then obtain l' where g: "go_cstep goClientDecoders u (nt_cli s) l' (nt_cli t)" by blast
    then have c: "cstep goClientDecoders u (nt_cli s) l' (nt_cli t)" by (simp add: go_cstep_def)
    then have "unwrapped_step goClientDecoders u (nt_cli s) l' (nt_cli t)"
      using pos by (simp add: unwrapped_step_def)
    with ok c g show ?thesis
      by (auto simp: parts_ok_def intro: staged_step routed_step go_cstep_typed numbered_step)
  qed (use ok in \<open>simp add: parts_ok_def\<close>)
  moreover from nstep_server [OF n] have "sys_inv (nt_srv t) \<and> replies_fit (nt_srv t)"
    using ok by (auto simp: parts_ok_def go_sstep_def intro: go_sstep_fits server.inv_step)
  ultimately show ?thesis by (simp add: parts_ok_def)
qed

lemma replies_fit_start: "sys_start loadCert s \<Longrightarrow> replies_fit s"
  by (auto simp: sys_start_def sys_init_def replies_fit_def emptyServer_def newSession_def elim!: New_Inr)

lemma unwrapped_reachable:
  "reachable init (unwrapped_net quoted u) s \<Longrightarrow> reachable init (nstep quoted u) s"
  by (erule reachable_weaken) (simp add: unwrapped_net_def)

interpretation net_parts: invariant_system "net_start loadCert" "unwrapped_net quoted u" parts_ok
  for loadCert quoted u
proof
  fix s assume "net_start loadCert s"
  then show "parts_ok s"
    by (auto simp: net_start_def parts_ok_def go_start_def staged_init routed_init numbered_init
        intro: typed_init server.inv_init replies_fit_start)
qed (rule parts_step)

text \<open>The responses that are under way inside the client.\<close>

definition arrived :: "csys \<Rightarrow> NewProxyResp set" where
  "arrived s = {y. (\<exists>k n ch. conns s k = Some n \<and> cn_ctl n = CtlBlocked ch y) \<or>
     (\<exists>ch. y \<in> set (hp_reply (cli s) ch))}"

text \<open>A request that was written on the connection of a session.\<close>

definition wrote :: "net \<Rightarrow> sid \<Rightarrow> writeReq \<Rightarrow> bool" where
  "wrote s i r \<longleftrightarrow>
     (\<exists>k n. nt_link s k = Some i \<and> conns (nt_cli s) k = Some n \<and> r \<in> set (cn_wire n))"

definition genuine :: "(gostring \<Rightarrow> gostring) \<Rightarrow> net \<Rightarrow> handled \<Rightarrow> bool" where
  "genuine u s h \<longleftrightarrow>
     registerProxy u (hd_before h) (hd_sid h) (hd_msg h) (hd_bind h) = (hd_resp h, hd_after h) \<and>
     reg_inv (hd_before h) \<and> hd_sid h < nx_sid (hd_before h) \<and> hd_sid h < nx_sid (srv (nt_srv s)) \<and>
     (hd_sid h \<in> nt_mine s \<longrightarrow>
        (\<exists>r m. wrote s (hd_sid h) r \<and> wq_msg r = CNewProxy m \<and> hd_msg h = sentNewProxy m))"

definition answered :: "net \<Rightarrow> sid \<Rightarrow> NewProxyResp \<Rightarrow> bool" where
  "answered s i x \<longleftrightarrow> (\<exists>h \<in> set (nt_regs s). hd_sid h = i \<and> hd_resp h = x)"

definition links_ok :: "net \<Rightarrow> bool" where
  "links_ok s \<longleftrightarrow>
     (\<forall>k i. nt_link s k = Some i \<longrightarrow> i \<in> nt_mine s \<and> k < nx_chan (cli (nt_cli s))) \<and>
     (\<forall>k k' i. nt_link s k = Some i \<longrightarrow> nt_link s k' = Some i \<longrightarrow> k = k') \<and>
     (\<forall>i. nt_dialled s = Some i \<longrightarrow> i \<in> nt_mine s \<and> i \<notin> ran (nt_link s)) \<and>
     (\<forall>i \<in> nt_mine s. i < nx_sid (srv (nt_srv s)))"

definition frames_ok :: "net \<Rightarrow> bool" where
  "frames_ok s \<longleftrightarrow>
     (\<forall>i ty payload. i \<in> nt_mine s \<longrightarrow> pcs (nt_srv s) i = Some (PcFrame ty payload) \<longrightarrow>
        (\<exists>r. wrote s i r \<and> ty = wq_typ r \<and> payload = encCMsg (wq_msg r)))"

definition regs_ok :: "(gostring \<Rightarrow> gostring) \<Rightarrow> (gostring \<Rightarrow> gostring) \<Rightarrow> net \<Rightarrow> bool" where
  "regs_ok quoted u s \<longleftrightarrow>
     (\<forall>h \<in> set (nt_regs s). genuine u s h) \<and>
     (\<forall>i x. SNewProxyResp x \<in> set (sent_to s i) \<or> pcs (nt_srv s) i = Some (PcReply (SNewProxyResp x)) \<longrightarrow>
        answered s i x) \<and>
     (\<forall>y \<in> arrived (nt_cli s). \<exists>i x. i \<in> nt_mine s \<and> answered s i x \<and> y = sentNewProxyResp quoted x)"

definition net_ok :: "(gostring \<Rightarrow> gostring) \<Rightarrow> (gostring \<Rightarrow> gostring) \<Rightarrow> net \<Rightarrow> bool" where
  "net_ok quoted u s \<longleftrightarrow> links_ok s \<and> frames_ok s \<and> regs_ok quoted u s"

text \<open>What a step of the client does to the wire and to the responses inside the client.\<close>

lemma step_wire:
  assumes st: "cstep J u s l t" and inv: "staged s" and n: "conns s k = Some n"
  shows "\<exists>n'. conns t k = Some n' \<and> set (cn_wire n) \<subseteq> set (cn_wire n')"
  using st
proof (cases rule: cstep.cases)
  case (c_connect cfg e j c1)
  have "k < nx_chan (cli s)" using inv n by (auto simp: staged_def)
  moreover have "j = nx_chan (cli s)" using connect_OK [OF c_connect(5)] by simp
  ultimately show ?thesis using c_connect n by auto
next
  case (c_frame j m ty payload act)
  with n show ?thesis by (cases act) auto
qed (use n in \<open>auto split: if_splits\<close>)

lemma arrived_same:
  assumes "\<And>ch. set (hp_reply (cli t) ch) \<subseteq> set (hp_reply (cli s) ch)" "ctl_less (conns t) (conns s)"
  shows "arrived t \<subseteq> arrived s"
  using assms by (auto simp: arrived_def ctl_less_def) (metis subsetD)+

lemma step_arrived:
  assumes st: "cstep J u s l t"
  shows "arrived t \<subseteq> arrived s \<union>
    {y. \<exists>k ty payload ch. l = CFrame k ty payload \<and> clientFrame J (cli s) ty payload = CtlDeliver ch y}"
  using st
proof (cases rule: cstep.cases)
  case (c_frame j n ty payload act)
  then show ?thesis by (cases act) (auto simp: arrived_def split: if_splits)
next
  case (c_fail cfg e x c1)
  with connect_requests [OF c_fail(5)] have "arrived t \<subseteq> arrived s" by (intro arrived_same) auto
  then show ?thesis by blast
next
  case (c_connect cfg e k c1)
  with connect_requests [OF c_connect(5)] have "arrived t \<subseteq> arrived s"
    by (intro arrived_same) (auto intro: ctl_less_new)
  then show ?thesis by blast
next
  case (c_deliver k n ch x q)
  then have "q = hp_reply (cli s) ch @ [x]" by (auto dest: replySend_some)
  with c_deliver have "arrived t \<subseteq> arrived s" by (fastforce simp: arrived_def split: if_splits)
  then show ?thesis by blast
next
  case (c_tick k n now c1)
  with pingTick_effect [OF c_tick(6)] have "arrived t \<subseteq> arrived s" by (intro arrived_same) auto
  then show ?thesis by blast
next
  case (c_call g ev c1 a1)
  have "set (hp_reply c1 ch) \<subseteq> set (hp_reply (cli s) ch)" for ch
    using callerStep_request [OF c_call(5)] by (auto simp: opens_request_def continues_request_def split: if_splits)
  with c_call have "arrived t \<subseteq> arrived s" by (intro arrived_same) auto
  then show ?thesis by blast
next
  case (c_reload loaded ts c1)
  with reloadConfig_frame [OF c_reload(6)] have "arrived t \<subseteq> arrived s" by (intro arrived_same) auto
  then show ?thesis by blast
next
  case (c_clear k)
  then have "arrived t \<subseteq> arrived s" by (intro arrived_same) auto
  then show ?thesis by blast
qed (rule le_supI1, rule arrived_same, (auto intro!: ctl_less_upd split: if_splits)[2])+

section \<open>Preservation\<close>

lemma step_nx_sid:
  assumes "sstep J u s l t" "sys_inv s"
  shows "nx_sid (srv s) \<le> nx_sid (srv t)"
  using step_evolves [OF assms] by (auto simp: evolves_def shrinks_def installProxy_fields)

lemma step_frame_pc:
  assumes "sstep J u s l t" "pcs t i = Some (PcFrame ty payload)"
  shows "pcs s i = Some (PcFrame ty payload) \<or> l = LFrame i ty payload"
  using assms by (cases rule: sstep.cases) (auto split: if_splits option.splits)

lemma connect_step:
  assumes "cstep J u s (CConnect e k) t"
  shows "k = nx_chan (cli s) \<and> nx_chan (cli t) = Suc k \<and> (\<exists>n. conns t k = Some n)"
  using assms
proof (cases rule: cstep.cases)
  case (c_connect cfg c1)
  with connect_OK [OF c_connect(4)] show ?thesis by auto
qed

lemma net_client_nx:
  assumes "nstep quoted u s l t"
  shows "nx_chan (cli (nt_cli s)) \<le> nx_chan (cli (nt_cli t))"
  using nstep_client [OF assms] step_nx_chan by (auto simp: go_cstep_def)

lemma net_server_nx:
  assumes "nstep quoted u s l t" "parts_ok s"
  shows "nx_sid (srv (nt_srv s)) \<le> nx_sid (srv (nt_srv t))"
  using nstep_server [OF assms(1)] assms(2) step_nx_sid by (auto simp: go_sstep_def parts_ok_def)

lemma net_links:
  assumes st: "nstep quoted u s l t" and ok: "parts_ok s" "links_ok s"
  shows "links_ok t"
proof -
  note cl = net_client_nx [OF st] and sv = net_server_nx [OF st ok(1)]
  have old: "k < nx_chan (cli (nt_cli t))" "i < nx_sid (srv (nt_srv t))" "i < nx_sid (srv (nt_srv s))"
    if "nt_link s k = Some i" for k i
    using that ok(2) cl sv by (force simp: links_ok_def)+
  have mine: "i < nx_sid (srv (nt_srv t))" if "i \<in> nt_mine s" for i
    using that ok(2) sv by (force simp: links_ok_def)
  show ?thesis
    using st
  proof (cases rule: nstep.cases)
    case (n_admit cfg ts lg conn ra now sv')
    have "nx_sid (srv (nt_srv s)) < nx_sid (srv sv')"
      using n_admit(6) by (auto simp: go_sstep_def admitted_def elim: sstep.cases)
    with n_admit ok(2) old mine show ?thesis by (auto simp: links_ok_def ran_def)
  next
    case (n_connect i m ms e k c)
    then have k: "k = nx_chan (cli (nt_cli s))" "k < nx_chan (cli c)"
      using connect_step [of goClientDecoders u "nt_cli s" e k c] by (auto simp: go_cstep_def)
    have i: "i \<in> nt_mine s" "\<And>k'. nt_link s k' \<noteq> Some i"
      using ok(2) n_connect(3) by (auto simp: links_ok_def ran_def)
    have t: "nt_link t = (nt_link s)(k \<mapsto> i)" "nt_mine t = nt_mine s" "nt_dialled t = None" "nt_cli t = c"
      using n_connect by simp_all
    have inj: "nt_link s a = Some j \<Longrightarrow> nt_link s b = Some j \<Longrightarrow> a = b"
      and own: "nt_link s a = Some j \<Longrightarrow> j \<in> nt_mine s" for a b j
      using ok(2) unfolding links_ok_def by blast+
    show ?thesis
      unfolding links_ok_def t using mine old(1) k(2) i own inj by (auto simp: t split: if_splits)
  qed (use ok(2) old mine in \<open>auto simp: links_ok_def ran_def\<close>)
qed

lemma net_wrote:
  assumes st: "nstep quoted u s l t" and ok: "parts_ok s" "links_ok s" and w: "wrote s i r"
  shows "wrote t i r"
proof -
  from w obtain k n where k: "nt_link s k = Some i" "conns (nt_cli s) k = Some n" "r \<in> set (cn_wire n)"
    by (auto simp: wrote_def)
  from nstep_client [OF st] obtain n' where n': "conns (nt_cli t) k = Some n'" "r \<in> set (cn_wire n')"
  proof
    assume "\<exists>l'. go_cstep goClientDecoders u (nt_cli s) l' (nt_cli t)"
    then obtain l' where "cstep goClientDecoders u (nt_cli s) l' (nt_cli t)" by (auto simp: go_cstep_def)
    from step_wire [OF this _ k(2)] ok(1) k(3) that show thesis by (auto simp: parts_ok_def)
  qed (use k that in auto)
  have "nt_link t k = Some i"
    using st
  proof (cases rule: nstep.cases)
    case (n_connect j m ms e k' c)
    then have "k' = nx_chan (cli (nt_cli s))"
      using connect_step [of goClientDecoders u "nt_cli s" e k' c] by (auto simp: go_cstep_def)
    with k(1) ok(2) have "k' \<noteq> k" by (auto simp: links_ok_def)
    with n_connect k(1) show ?thesis by simp
  qed (use k(1) in auto)
  with n' show ?thesis by (auto simp: wrote_def)
qed

text \<open>A session the server has had before is this client's only if it was.\<close>

lemma net_mine:
  assumes "nstep quoted u s l t" "i \<in> nt_mine t" "i < nx_sid (srv (nt_srv s))"
  shows "i \<in> nt_mine s"
  using assms by (cases rule: nstep.cases) auto

lemma net_genuine:
  assumes st: "nstep quoted u s l t" and ok: "parts_ok s" "links_ok s" and g: "genuine u s h"
  shows "genuine u t h"
proof -
  from g have "hd_sid h < nx_sid (srv (nt_srv s))" by (simp add: genuine_def)
  with g net_wrote [OF st ok] net_mine [OF st] net_server_nx [OF st ok(1)] show ?thesis
    unfolding genuine_def by (meson order_less_le_trans)
qed

lemma net_frames:
  assumes st: "nstep quoted u s l t" and ok: "parts_ok s" "links_ok s" "frames_ok s"
  shows "frames_ok t"
  unfolding frames_ok_def
proof (intro allI impI)
  fix i ty payload assume i: "i \<in> nt_mine t" and pc: "pcs (nt_srv t) i = Some (PcFrame ty payload)"
  have keep: "\<exists>r. wrote t i r \<and> ty = wq_typ r \<and> payload = encCMsg (wq_msg r)"
    if "pcs (nt_srv s) i = Some (PcFrame ty payload)"
  proof -
    from that ok(1) have "i < nx_sid (srv (nt_srv s))" by (auto simp: parts_ok_def sys_inv_def)
    from net_mine [OF st i this] that ok(3) net_wrote [OF st ok(1,2)] show ?thesis
      unfolding frames_ok_def by blast
  qed
  show "\<exists>r. wrote t i r \<and> ty = wq_typ r \<and> payload = encCMsg (wq_msg r)"
    using st
  proof (cases rule: nstep.cases)
    case (n_up k j n r sv)
    show ?thesis
    proof (cases "pcs (nt_srv s) i = Some (PcFrame ty payload)")
      case False
      with n_up pc step_frame_pc [of goDecoders u "nt_srv s" "LFrame j (wq_typ r) (encCMsg (wq_msg r))" sv i ty payload]
      have j: "j = i" "wq_typ r = ty" "encCMsg (wq_msg r) = payload" by (auto simp: go_sstep_def)
      from n_up have "r \<in> set (cn_wire n)" by simp
      with n_up j have "wrote t i r" by (auto simp: wrote_def)
      with j show ?thesis by blast
    qed (rule keep)
  next
    case (n_server l' sv)
    then have "pcs (nt_srv s) i = Some (PcFrame ty payload)"
      using pc i step_frame_pc [of goDecoders u "nt_srv s" l' sv i ty payload] by (auto simp: go_sstep_def)
    then show ?thesis by (rule keep)
  next
    case (n_handle j bind sv)
    then have "pcs (nt_srv s) i = Some (PcFrame ty payload)"
      using pc step_frame_pc [of goDecoders u "nt_srv s" "LHandle j bind" sv i ty payload] by (auto simp: go_sstep_def)
    then show ?thesis by (rule keep)
  next
    case (n_admit cfg ts lg conn ra now sv)
    then have "pcs (nt_srv s) i = Some (PcFrame ty payload)"
      using pc step_frame_pc [of goDecoders u "nt_srv s" "LAdmit conn lg ra now" sv i ty payload]
      by (auto simp: go_sstep_def)
    then show ?thesis by (rule keep)
  qed (use pc keep in simp_all)
qed

lemma registrations_handled:
  assumes "pcs s i = Some (PcFrame ty payload)" "ctlHandle goDecoders u bind ty payload (srv s) i = (Some (SNewProxyResp x), sv)"
  shows "\<exists>h \<in> set (registrations u s i bind). hd_sid h = i \<and> hd_resp h = x"
proof -
  from assms(2) obtain np where np: "ty = TypeNewProxy" "goNewProxy payload = Some np"
    "registerProxy u (srv s) i np bind = (x, sv)"
    by (auto simp: ctlHandle_def goDecoders_def split: if_splits option.splits prod.split_asm)
  with assms(1) show ?thesis by (simp add: registrations_def)
qed

lemma registrations_frame:
  assumes "h \<in> set (registrations u s i bind)"
  shows "\<exists>payload np. pcs s i = Some (PcFrame TypeNewProxy payload) \<and> goNewProxy payload = Some np"
proof (cases "pcs s i")
  case (Some x)
  show ?thesis
  proof (cases x)
    case (PcFrame ty payload)
    with Some assms show ?thesis
      by (cases "ty = TypeNewProxy"; cases "goNewProxy payload") (simp_all add: registrations_def)
  qed (use Some assms in \<open>simp_all add: registrations_def\<close>)
qed (use assms in \<open>simp add: registrations_def\<close>)

text \<open>Every registration the server handles for a session of this client was asked for by it.\<close>

lemma registrations_genuine:
  assumes ok: "parts_ok s" "links_ok s" "frames_ok s"
    and h: "h \<in> set (registrations u (nt_srv s) i bind)"
  shows "genuine u s h"
proof -
  from registrations_frame [OF h] obtain payload np where pc: "pcs (nt_srv s) i = Some (PcFrame TypeNewProxy payload)"
    and np: "goNewProxy payload = Some np" by blast
  obtain resp sv where "registerProxy u (srv (nt_srv s)) i np bind = (resp, sv)" by fastforce
  with h pc np have r: "registerProxy u (srv (nt_srv s)) i np bind = (hd_resp h, hd_after h)"
      "hd_sid h = i" "hd_msg h = np" "hd_bind h = bind" "hd_before h = srv (nt_srv s)"
    by (simp_all add: registrations_def)
  from ok(1) have sv: "sys_inv (nt_srv s)" and ty: "typed (nt_cli s)" by (simp_all add: parts_ok_def)
  from sv pc have i: "i < nx_sid (srv (nt_srv s))" by (auto simp: sys_inv_def)
  have "\<exists>q m. wrote s i q \<and> wq_msg q = CNewProxy m \<and> np = sentNewProxy m" if "i \<in> nt_mine s"
  proof -
    from ok(3) that pc obtain q where q: "wrote s i q" "wq_typ q = TypeNewProxy" "payload = encCMsg (wq_msg q)"
      unfolding frames_ok_def by metis
    then have "well_typed q" using ty by (auto simp: wrote_def typed_def)
    with q(2) obtain m where m: "wq_msg q = CNewProxy m" "fitsCMsg (CNewProxy m)"
      by (cases "wq_msg q") (auto simp: well_typed_def frame_types)
    with q(3) np have "np = sentNewProxy m" by (simp add: goNewProxy_enc)
    with q m show ?thesis by blast
  qed
  with r i sv show ?thesis by (simp add: genuine_def sys_inv_def)
qed

lemma answered_mono: "set (nt_regs s) \<subseteq> set (nt_regs t) \<Longrightarrow> answered s i x \<Longrightarrow> answered t i x"
  by (auto simp: answered_def)

lemma net_regs_grow: "nstep quoted u s l t \<Longrightarrow> set (nt_regs s) \<subseteq> set (nt_regs t)"
  by (cases rule: nstep.cases) auto

text \<open>A response is on its way out only after it has been computed.\<close>

lemma net_answers:
  assumes st: "nstep quoted u s l t" and ok: "regs_ok quoted u s"
    and x: "SNewProxyResp x \<in> set (sent_to t i) \<or> pcs (nt_srv t) i = Some (PcReply (SNewProxyResp x))"
  shows "answered t i x"
proof -
  have keep: "answered t i x"
    if "SNewProxyResp x \<in> set (sent_to s i) \<or> pcs (nt_srv s) i = Some (PcReply (SNewProxyResp x))"
    using that ok answered_mono [OF net_regs_grow [OF st]] by (auto simp: regs_ok_def)
  show ?thesis
  proof (cases "nt_srv t = nt_srv s")
    case False
    with nstep_server [OF st] obtain l' where s: "sstep goDecoders u (nt_srv s) l' (nt_srv t)"
      by (auto simp: go_sstep_def)
    from x show ?thesis
    proof
      assume "SNewProxyResp x \<in> set (sent_to t i)"
      from step_sent [OF s this] show ?thesis by (auto simp: fresh_message_def loginOK_def intro: keep)
    next
      assume pc: "pcs (nt_srv t) i = Some (PcReply (SNewProxyResp x))"
      show ?thesis
      proof (cases "pcs (nt_srv s) i = Some (PcReply (SNewProxyResp x))")
        case new: False
        show ?thesis
          using st
        proof (cases rule: nstep.cases)
          case (n_handle j bind sv)
          with step_reply_pc [of goDecoders u "nt_srv s" "LHandle j bind" sv i "SNewProxyResp x"] pc new
          obtain ty payload where h: "j = i" "pcs (nt_srv s) i = Some (PcFrame ty payload)"
            "ctlHandle goDecoders u bind ty payload (srv (nt_srv s)) i = (Some (SNewProxyResp x), srv sv)"
            by (auto simp: go_sstep_def)
          from registrations_handled [OF h(2,3)] n_handle h(1) show ?thesis by (auto simp: answered_def)
        next
          case (n_server l2 sv)
          with step_reply_pc [of goDecoders u "nt_srv s" l2 sv i "SNewProxyResp x"] pc new
          show ?thesis by (auto simp: go_sstep_def)
        next
          case (n_admit cfg ts lg conn ra now sv)
          with step_reply_pc [of goDecoders u "nt_srv s" "LAdmit conn lg ra now" sv i "SNewProxyResp x"] pc new
          show ?thesis by (auto simp: go_sstep_def)
        next
          case (n_up k j n r sv)
          with step_reply_pc [of goDecoders u "nt_srv s" "LFrame j (wq_typ r) (encCMsg (wq_msg r))" sv i
              "SNewProxyResp x"] pc new
          show ?thesis by (auto simp: go_sstep_def)
        qed (use pc new in simp_all)
      qed (rule keep, simp)
    qed
  qed (use x keep in simp)
qed

lemma net_arrived:
  assumes st: "nstep quoted u s l t" and ok: "parts_ok s" "links_ok s" "regs_ok quoted u s"
    and y: "y \<in> arrived (nt_cli t)"
  shows "\<exists>i x. i \<in> nt_mine s \<and> answered s i x \<and> y = sentNewProxyResp quoted x"
proof (cases "y \<in> arrived (nt_cli s)")
  case True
  with ok(3) show ?thesis unfolding regs_ok_def by blast
next
  case False
  with y have "nt_cli t \<noteq> nt_cli s" by auto
  show ?thesis
    using st
  proof (cases rule: nstep.cases)
    case (n_down k i m c)
    with step_arrived [of goClientDecoders u "nt_cli s" "CFrame k (smsgType m) (encSMsg quoted m)" c] y False
    obtain ch where c: "clientFrame goClientDecoders (cli (nt_cli s)) (smsgType m) (encSMsg quoted m) = CtlDeliver ch y"
      by (auto simp: go_cstep_def)
    have m: "m \<in> set (sent_to s i)" using n_down by simp
    with ok(1) have "fitsSMsg m" by (simp add: parts_ok_def replies_fit_def)
    with c have "takeSMsg quoted (cli (nt_cli s)) m = CtlDeliver ch y" by (simp add: clientFrame_message)
    then obtain x where x: "m = SNewProxyResp x" "y = sentNewProxyResp quoted x"
      by (cases m) (auto simp: deliverPending_def split: if_splits option.splits)
    with m ok(3) have "answered s i x" unfolding regs_ok_def by blast
    moreover have "i \<in> nt_mine s" using n_down(3) ok(2) by (simp add: links_ok_def)
    ultimately show ?thesis using x by blast
  next
    case (n_client l' c)
    with step_arrived [of goClientDecoders u "nt_cli s" l' c] y False show ?thesis by (auto simp: go_cstep_def)
  next
    case (n_connect i m ms e k c)
    with step_arrived [of goClientDecoders u "nt_cli s" "CConnect e k" c] y False show ?thesis
      by (auto simp: go_cstep_def)
  qed (use \<open>nt_cli t \<noteq> nt_cli s\<close> in simp_all)
qed

lemma net_mine_grow: "nstep quoted u s l t \<Longrightarrow> nt_mine s \<subseteq> nt_mine t"
  by (cases rule: nstep.cases) auto

lemma net_regs:
  assumes st: "nstep quoted u s l t" and ok: "parts_ok s" "links_ok s" "frames_ok s" "regs_ok quoted u s"
  shows "regs_ok quoted u t"
  unfolding regs_ok_def
proof (intro conjI ballI allI impI)
  fix h assume h: "h \<in> set (nt_regs t)"
  have "genuine u s h"
    using st
  proof (cases rule: nstep.cases)
    case (n_handle i bind sv)
    with h ok(4) registrations_genuine [OF ok(1-3)] show ?thesis by (auto simp: regs_ok_def)
  qed (use h ok(4) in \<open>auto simp: regs_ok_def\<close>)
  then show "genuine u t h" by (rule net_genuine [OF st ok(1,2)])
next
  fix i x
  assume "SNewProxyResp x \<in> set (sent_to t i) \<or> pcs (nt_srv t) i = Some (PcReply (SNewProxyResp x))"
  then show "answered t i x" by (rule net_answers [OF st ok(4)])
next
  fix y assume "y \<in> arrived (nt_cli t)"
  from net_arrived [OF st ok(1,2,4) this] obtain i x where "i \<in> nt_mine s" "answered s i x"
    "y = sentNewProxyResp quoted x" by blast
  with net_mine_grow [OF st] answered_mono [OF net_regs_grow [OF st]]
  show "\<exists>i x. i \<in> nt_mine t \<and> answered t i x \<and> y = sentNewProxyResp quoted x" by blast
qed

interpretation network:
  strengthened_system "net_start loadCert" "unwrapped_net quoted u" parts_ok "net_ok quoted u"
  for loadCert quoted u
proof
  fix s assume "net_start loadCert s"
  then show "net_ok quoted u s"
    by (auto simp: net_start_def net_ok_def links_ok_def frames_ok_def regs_ok_def arrived_def go_start_def
        csys_init_def NewClient_def sys_start_def sys_init_def emptyServer_def newSession_def elim!: New_Inr)
next
  fix s l t assume "parts_ok s" "net_ok quoted u s" "unwrapped_net quoted u s l t"
  then show "net_ok quoted u t"
    by (auto simp: net_ok_def unwrapped_net_def intro: net_links net_frames net_regs)
qed

section \<open>What a reported registration means\<close>

lemma wrote_request: "wrote s i r \<Longrightarrow> wq_msg r = CNewProxy m \<Longrightarrow> m \<in> requests (nt_cli s)"
  by (auto simp: wrote_def requests_def written_def)

lemma reported_registration:
  assumes inv: "parts_ok s" "net_ok quoted u s"
    and wait: "ca_pc (callers (nt_cli s) g) = RWait r ch p"
    and y: "y \<in> set (hp_reply (cli (nt_cli s)) ch)"
  shows "\<exists>h \<in> set (nt_regs s). hd_sid h \<in> nt_mine s \<and> hd_msg h = sentNewProxy (newProxyMsg p r) \<and>
    registerProxy u (hd_before h) (hd_sid h) (hd_msg h) (hd_bind h) = (hd_resp h, hd_after h) \<and>
    y = sentNewProxyResp quoted (hd_resp h)"
proof -
  have "expects (callers (nt_cli s) g) = Some (r, ch)" using wait by (simp add: expects_def)
  with inv(1) y have r: "nr_ReqID y = r" unfolding parts_ok_def routed_def reply_owned_def by blast
  have "y \<in> arrived (nt_cli s)" using y by (auto simp: arrived_def)
  with inv(2) obtain i x where x: "i \<in> nt_mine s" "answered s i x" "y = sentNewProxyResp quoted x"
    unfolding net_ok_def regs_ok_def by blast
  then obtain h where h: "h \<in> set (nt_regs s)" "hd_sid h = i" "hd_resp h = x" by (auto simp: answered_def)
  with inv(2) have g: "genuine u s h" by (simp add: net_ok_def regs_ok_def)
  with x(1) h(2) obtain q m where m: "wrote s i q" "wq_msg q = CNewProxy m" "hd_msg h = sentNewProxy m"
    by (auto simp: genuine_def)
  have "np_ReqID m = r"
    using registerProxy_reply(1) [of u "hd_before h" "hd_sid h" "hd_msg h" "hd_bind h" "hd_resp h" "hd_after h"]
      g r x(3) h(3) m(3) by (simp add: genuine_def sentNewProxyResp_def sentNewProxy_def)
  moreover have "drawn_by (callers (nt_cli s) g) = Some (r, p)" using wait by (simp add: drawn_by_def)
  ultimately have "m = newProxyMsg p r"
    using inv(1) wrote_request [OF m(1,2)] unfolding parts_ok_def numbered_def by blast
  with g h x m show ?thesis by (auto simp: genuine_def)
qed

text \<open>The outcome \<^verbatim>\<open>registerProxy\<close> returns when it takes a response is that of the server.\<close>

lemma registerProxy_refused:
  "registerProxy u s i np bind = (resp, t) \<Longrightarrow> \<not> nr_OK resp \<Longrightarrow> t = s"
  by (auto simp: registerProxy_def registerTCPProxy_def registerHTTPProxy_def okResp_def errResp_def Let_def
      split: option.splits if_splits)

lemma taken_reply:
  assumes "ca_pc a = RWait r ch p" "callerStep EvReply c a = Some (CallOK c1 a1)" "ca_pc a1 = RLeave r res p"
  shows "\<exists>y \<in> set (hp_reply c ch). res = replyResult y"
  using assms by (auto simp: callerStep_def replyRecv_def split: list.splits)

text \<open>Success and refusal come from a reply; the other results of a request are made by the client alone.\<close>

lemma reported_result:
  assumes "callerStep ev c a = Some (CallOK c1 a1)" "ca_pc a1 = RLeave r res p"
    and "res = None \<or> (\<exists>m. res = Some (Refused m))"
  shows "\<exists>ch. ca_pc a = RWait r ch p \<and> callerStep EvReply c a = Some (CallOK c1 a1)"
proof (cases "ca_pc a")
  case (RWait r' ch p')
  with assms have "ev = EvReply" by (cases ev) (auto simp: callerStep_def)
  with assms(1,2) RWait show ?thesis by (auto simp: callerStep_def split: option.splits prod.splits)
qed (use assms in \<open>auto simp: callerStep_def beginTask_def split: call_event.splits list.splits task.splits
    option.splits send_result.splits prod.splits if_splits\<close>)

lemma sentResp_fields [simp]:
  "nr_OK (sentNewProxyResp quoted x) = nr_OK x"
  "nr_Error (sentNewProxyResp quoted x) = sentError quoted (nr_Error x)"
  by (simp_all add: sentNewProxyResp_def)

end
