(* ===== verification/Durations.thy ===== *)
theory Durations
  imports Config Complex_Main
begin

text \<open>
  \<^verbatim>\<open>time.Duration\<close> as text: \<^verbatim>\<open>Duration.String\<close>, \<^verbatim>\<open>time.ParseDuration\<close>, and the
  YAML hooks of \<^verbatim>\<open>config.Duration\<close> in \<^verbatim>\<open>internal/config/config.go\<close> that are built on
  them. Unsigned 64-bit values are natural numbers, with the wrap-around where it can occur.
\<close>

section \<open>Floating point\<close>

text \<open>\<^verbatim>\<open>time.Duration(x)\<close> and \<^verbatim>\<open>uint64(x)\<close> of a \<^verbatim>\<open>float64\<close> drop the fraction.\<close>

definition dropFraction :: "rat \<Rightarrow> int" where
  "dropFraction x = (if x < 0 then - \<lfloor>- x\<rfloor> else \<lfloor>x\<rfloor>)"

text \<open>
  \<open>fl\<close> rounds the result of one operation on \<^verbatim>\<open>float64\<close>; integers of up to 53 bits are
  represented exactly.
\<close>

definition exact53 :: "(rat \<Rightarrow> rat) \<Rightarrow> bool" where
  "exact53 fl \<longleftrightarrow> (\<forall>n :: nat. n \<le> 2 ^ 53 \<longrightarrow> fl (of_nat n) = of_nat n)"

section \<open>Printing\<close>

text \<open>
  \<^verbatim>\<open>fmtFrac\<close>: the digits of the fraction from the right, without trailing zeros. The buffer is
  filled from its end, so the text so far is the accumulator.
\<close>

fun fracDigits :: "nat \<Rightarrow> nat \<Rightarrow> bool \<Rightarrow> gostring \<Rightarrow> gostring \<times> bool \<times> nat" where
  "fracDigits 0 v pr acc = (acc, pr, v)"
| "fracDigits (Suc i) v pr acc =
     (let digit = v mod 10; pr1 = (pr \<or> digit \<noteq> 0) in
      fracDigits i (v div 10) pr1 (if pr1 then digit_char digit # acc else acc))"

definition fmtFrac :: "nat \<Rightarrow> nat \<Rightarrow> gostring \<times> nat" where
  "fmtFrac v prec =
     (case fracDigits prec v False [] of (ds, pr, v1) \<Rightarrow> (if pr then CHR ''.'' # ds else [], v1))"

definition microSign :: gostring where "microSign = [CHR 0xC2, CHR 0xB5]"

text \<open>\<^verbatim>\<open>Duration.String\<close>\<close>

definition formatBelowSecond :: "nat \<Rightarrow> gostring" where
  "formatBelowSecond u =
     (if u = 0 then ''0s''
      else if u < 1000 then (case fmtFrac u 0 of (fr, v) \<Rightarrow> showNat v @ fr @ ''ns'')
      else if u < 1000000 then (case fmtFrac u 3 of (fr, v) \<Rightarrow> showNat v @ fr @ microSign @ ''s'')
      else (case fmtFrac u 6 of (fr, v) \<Rightarrow> showNat v @ fr @ ''ms''))"

definition formatSeconds :: "nat \<Rightarrow> gostring" where
  "formatSeconds u =
     (case fmtFrac u 9 of
        (fr, secs) \<Rightarrow>
          let mins = secs div 60; hours = mins div 60 in
          (if 0 < mins then (if 0 < hours then showNat hours @ ''h'' else []) @ showNat (mins mod 60) @ ''m'' else []) @
          showNat (secs mod 60) @ fr @ ''s'')"

definition DurationString :: "int \<Rightarrow> gostring" where
  "DurationString d =
     (let u = nat \<bar>d\<bar>;
          text = (if u < nat Second then formatBelowSecond u else formatSeconds u)
      in if d < 0 then CHR ''-'' # text else text)"

section \<open>Parsing\<close>

text \<open>\<^verbatim>\<open>leadingInt\<close>; \<open>None\<close> is its overflow.\<close>

fun leadingInt :: "nat \<Rightarrow> gostring \<Rightarrow> (nat \<times> gostring) option" where
  "leadingInt x [] = Some (x, [])"
| "leadingInt x (c # cs) =
     (if \<not> is_digit c then Some (x, c # cs)
      else if 2 ^ 63 div 10 < x then None
      else let y = x * 10 + digit_value c in if 2 ^ 63 < y then None else leadingInt y cs)"

text \<open>\<^verbatim>\<open>leadingFraction\<close>: digits that do not fit any more are skipped.\<close>

fun leadingFraction :: "(rat \<Rightarrow> rat) \<Rightarrow> nat \<Rightarrow> rat \<Rightarrow> bool \<Rightarrow> gostring \<Rightarrow> nat \<times> rat \<times> gostring" where
  "leadingFraction fl x scale ovf [] = (x, scale, [])"
| "leadingFraction fl x scale ovf (c # cs) =
     (if \<not> is_digit c then (x, scale, c # cs)
      else if ovf \<or> (2 ^ 63 - 1) div 10 < x then leadingFraction fl x scale True cs
      else let y = x * 10 + digit_value c in
        if 2 ^ 63 < y then leadingFraction fl x scale True cs
        else leadingFraction fl y (fl (scale * 10)) False cs)"

definition unitMap :: "gostring \<Rightarrow> nat option" where
  "unitMap = map_of
     [(''ns'', 1), (''us'', 1000), (microSign @ ''s'', 1000), ([CHR 0xCE, CHR 0xBC] @ ''s'', 1000),
      (''ms'', 1000000), (''s'', 1000000000), (''m'', 60000000000), (''h'', 3600000000000)]"

definition unit_char :: "char \<Rightarrow> bool" where
  "unit_char c \<longleftrightarrow> c \<noteq> CHR ''.'' \<and> \<not> is_digit c"

datatype duration_error = InvalidDuration | MissingUnit | UnknownUnit gostring

text \<open>One number with its unit: the nanoseconds and what follows.\<close>

definition parseTerm :: "(rat \<Rightarrow> rat) \<Rightarrow> gostring \<Rightarrow> duration_error + nat \<times> gostring" where
  "parseTerm fl s =
     (case s of
        [] \<Rightarrow> Inl InvalidDuration
      | c # _ \<Rightarrow>
          if unit_char c then Inl InvalidDuration
          else (case leadingInt 0 s of
                  None \<Rightarrow> Inl InvalidDuration
                | Some (v, s1) \<Rightarrow>
                    (case (case s1 of
                             [] \<Rightarrow> (0, 1, s1, False)
                           | d # s2 \<Rightarrow>
                               if d = CHR ''.''
                               then (case leadingFraction fl 0 1 False s2 of
                                       (f, scale, s3) \<Rightarrow> (f, scale, s3, length s3 \<noteq> length s2))
                               else (0, 1, s1, False)) of
                       (f, scale, s3, post) \<Rightarrow>
                         if length s1 = length s \<and> \<not> post then Inl InvalidDuration
                         else
                           let u = takeWhile unit_char s3; r = dropWhile unit_char s3 in
                           if u = [] then Inl MissingUnit
                           else (case unitMap u of
                                   None \<Rightarrow> Inl (UnknownUnit u)
                                 | Some unit \<Rightarrow>
                                     if 2 ^ 63 div unit < v then Inl InvalidDuration
                                     else if 0 < f then
                                       let w = v * unit + nat (dropFraction (fl (fl (of_nat f) * fl (of_nat unit / scale))))
                                       in if 2 ^ 63 < w then Inl InvalidDuration else Inr (w, r)
                                     else Inr (v * unit, r)))))"

lemma leadingInt_rest: "leadingInt x s = Some (v, r) \<Longrightarrow> length r \<le> length s"
  by (induction x s rule: leadingInt.induct) (auto simp: Let_def split: if_splits)

lemma leadingFraction_rest: "length (snd (snd (leadingFraction fl x sc ovf s))) \<le> length s"
  by (induction fl x sc ovf s rule: leadingFraction.induct) (auto simp: Let_def)

lemma parseTerm_shorter: "parseTerm fl s = Inr (w, r) \<Longrightarrow> length r < length s"
proof -
  assume a: "parseTerm fl s = Inr (w, r)"
  have d: "takeWhile unit_char t \<noteq> [] \<Longrightarrow> length (dropWhile unit_char t) < length t" for t
    by (cases t) (auto simp: less_Suc_eq_le intro: length_dropWhile_le split: if_splits)
  obtain v s1 where i: "leadingInt 0 s = Some (v, s1)"
    using a by (auto simp: parseTerm_def split: list.splits if_splits option.splits)
  have "\<exists>s3. length s3 \<le> length s1 \<and> takeWhile unit_char s3 \<noteq> [] \<and> r = dropWhile unit_char s3"
  proof (cases "\<exists>s2. s1 = CHR ''.'' # s2")
    case True
    then obtain s2 where s2: "s1 = CHR ''.'' # s2" by blast
    obtain f scale s3 where f: "leadingFraction fl 0 1 False s2 = (f, scale, s3)" by (cases "leadingFraction fl 0 1 False s2")
    with leadingFraction_rest [of fl 0 1 False s2] have "length s3 \<le> length s1" by (simp add: s2)
    with a i s2 f show ?thesis
      by (intro exI [of _ s3]) (auto simp: parseTerm_def Let_def split: list.splits if_splits option.splits)
  next
    case False
    with a i show ?thesis
      by (intro exI [of _ s1]) (auto simp: parseTerm_def Let_def split: list.splits if_splits option.splits)
  qed
  with d leadingInt_rest [OF i] show ?thesis by (metis order_less_le_trans)
qed

function (sequential) parseTerms :: "(rat \<Rightarrow> rat) \<Rightarrow> nat \<Rightarrow> gostring \<Rightarrow> duration_error + nat" where
  "parseTerms fl d [] = Inr d"
| "parseTerms fl d (c # cs) =
     (case parseTerm fl (c # cs) of
        Inl e \<Rightarrow> Inl e
      | Inr (v, r) \<Rightarrow>
          let d1 = (d + v) mod 2 ^ 64 in
          if 2 ^ 63 < d1 then Inl InvalidDuration else parseTerms fl d1 r)"
  by pat_completeness auto
termination
  by (relation "measure (\<lambda>(fl, d, s). length s)") (auto dest: parseTerm_shorter)

definition ParseDuration :: "(rat \<Rightarrow> rat) \<Rightarrow> gostring \<Rightarrow> duration_error + int" where
  "ParseDuration fl s =
     (let (neg, t) = (case s of
            [] \<Rightarrow> (False, [])
          | c # cs \<Rightarrow> if c = CHR ''-'' \<or> c = CHR ''+'' then (c = CHR ''-'', cs) else (False, s))
      in if t = ''0'' then Inr 0
         else if t = [] then Inl InvalidDuration
         else (case parseTerms fl 0 t of
                 Inl e \<Rightarrow> Inl e
               | Inr d \<Rightarrow>
                   if neg then Inr (wrap64 (- int d))
                   else if 2 ^ 63 - 1 < d then Inl InvalidDuration
                   else Inr (int d)))"

section \<open>The YAML hooks\<close>

text \<open>\<open>decoded\<close> is the result of \<^verbatim>\<open>node.Decode\<close> into a string.\<close>

datatype duration_yaml_error = NotAString gostring | BadDuration gostring duration_error

definition DurationUnmarshalYAML ::
    "(rat \<Rightarrow> rat) \<Rightarrow> gostring + gostring \<Rightarrow> int \<Rightarrow> duration_yaml_error option \<times> int" where
  "DurationUnmarshalYAML fl decoded d =
     (case decoded of
        Inl e \<Rightarrow> (Some (NotAString e), d)
      | Inr raw \<Rightarrow>
          (case ParseDuration fl raw of
             Inl e \<Rightarrow> (Some (BadDuration raw e), d)
           | Inr v \<Rightarrow> (None, v)))"

definition DurationMarshalYAML :: "int \<Rightarrow> gostring" where
  "DurationMarshalYAML d = DurationString d"

section \<open>What is printed is parsed\<close>

definition ends_digits :: "gostring \<Rightarrow> bool" where
  "ends_digits t \<longleftrightarrow> (case t of [] \<Rightarrow> True | c # _ \<Rightarrow> \<not> is_digit c)"

lemma parseDigits_mono: "parseDigits acc ds = Some n \<Longrightarrow> acc \<le> n"
  by (induction ds arbitrary: acc) (force split: if_splits)+

lemma leadingInt_digits:
  "parseDigits x ds = Some n \<Longrightarrow> n \<le> 2 ^ 63 \<Longrightarrow> ends_digits t \<Longrightarrow> leadingInt x (ds @ t) = Some (n, t)"
proof (induction ds arbitrary: x)
  case Nil
  then show ?case by (cases t) (auto simp: ends_digits_def)
next
  case (Cons c ds)
  from Cons.prems(1) have c: "is_digit c" "parseDigits (10 * x + digit_value c) ds = Some n"
    by (auto split: if_splits)
  from parseDigits_mono [OF c(2)] Cons.prems(2) have "10 * x + digit_value c \<le> 2 ^ 63" by simp
  moreover from this have "x \<le> 2 ^ 63 div 10" by simp
  ultimately show ?case using Cons.IH [OF c(2) Cons.prems(2,3)] c(1) by (simp add: Let_def mult.commute)
qed

lemma leadingInt_showNat:
  "n \<le> 2 ^ 63 \<Longrightarrow> ends_digits t \<Longrightarrow> leadingInt 0 (showNat n @ t) = Some (n, t)"
  by (rule leadingInt_digits [OF parse_showNat])

text \<open>The last \<open>m\<close> digits of a number, with leading zeros.\<close>

fun pad :: "nat \<Rightarrow> nat \<Rightarrow> gostring" where
  "pad 0 x = []"
| "pad (Suc m) x = pad m (x div 10) @ [digit_char (x mod 10)]"

lemma pad_mod: "pad m (x mod 10 ^ m) = pad m x"
proof (induction m arbitrary: x)
  case (Suc m)
  have "x mod 10 ^ Suc m div 10 = x div 10 mod 10 ^ m" "x mod 10 ^ Suc m mod 10 = x mod 10"
    by (simp_all add: mod_mult2_eq mod_mod_cancel)
  with Suc.IH [of "x div 10"] show ?case by simp
qed simp

lemma parse_pad: "x < 10 ^ m \<Longrightarrow> parseDigits 0 (pad m x) = Some x"
  by (induction m arbitrary: x) (auto simp: parseDigits_append less_mult_imp_div_less mult.commute)

lemma length_pad [simp]: "length (pad m x) = m"
  by (induction m arbitrary: x) simp_all

lemma fracDigits_printing: "fracDigits n v True acc = (pad n v @ acc, True, v div 10 ^ n)"
  by (induction n arbitrary: v acc) (simp_all add: Let_def div_mult2_eq)

lemma fracDigits_start:
  "(v mod 10 ^ n = 0 \<and> fracDigits n v False [] = ([], False, v div 10 ^ n)) \<or>
   (\<exists>j < n. v mod 10 ^ n \<noteq> 0 \<and> 10 ^ j dvd v \<and>
      fracDigits n v False [] = (pad (n - j) (v div 10 ^ j), True, v div 10 ^ n))"
proof (induction n arbitrary: v)
  case (Suc n)
  have m: "v mod 10 ^ Suc n = 10 * (v div 10 mod 10 ^ n) + v mod 10" by (simp add: mod_mult2_eq)
  have d: "v div 10 ^ Suc n = v div 10 div 10 ^ n" by (simp add: div_mult2_eq)
  show ?case
  proof (cases "v mod 10 = 0")
    case False
    with m d show ?thesis
      by (intro disjI2 exI [of _ 0]) (simp add: Let_def fracDigits_printing)
  next
    case True
    then obtain w where w: "v = 10 * w" by auto
    from Suc.IH [of w] show ?thesis
    proof
      assume "w mod 10 ^ n = 0 \<and> fracDigits n w False [] = ([], False, w div 10 ^ n)"
      with w m d show ?thesis by (intro disjI1) (simp add: Let_def)
    next
      assume "\<exists>j < n. w mod 10 ^ n \<noteq> 0 \<and> 10 ^ j dvd w \<and>
        fracDigits n w False [] = (pad (n - j) (w div 10 ^ j), True, w div 10 ^ n)"
      then obtain j where "j < n" "w mod 10 ^ n \<noteq> 0" "10 ^ j dvd w"
        "fracDigits n w False [] = (pad (n - j) (w div 10 ^ j), True, w div 10 ^ n)" by blast
      with w m d show ?thesis by (intro disjI2 exI [of _ "Suc j"]) (simp add: Let_def div_mult2_eq)
    qed
  qed
qed simp

lemma fmtFrac_cases:
  obtains (whole) "v mod 10 ^ prec = 0" "fmtFrac v prec = ([], v div 10 ^ prec)"
  | (part) m y where "0 < m" "m \<le> prec" "0 < y" "y < 10 ^ m" "y * 10 ^ (prec - m) = v mod 10 ^ prec"
      "fmtFrac v prec = (CHR ''.'' # pad m y, v div 10 ^ prec)"
proof -
  consider "v mod 10 ^ prec = 0 \<and> fracDigits prec v False [] = ([], False, v div 10 ^ prec)"
    | j where "j < prec" "v mod 10 ^ prec \<noteq> 0" "10 ^ j dvd v"
      "fracDigits prec v False [] = (pad (prec - j) (v div 10 ^ j), True, v div 10 ^ prec)"
    using fracDigits_start [of v prec] by blast
  then show thesis
  proof cases
    case 1
    then show thesis by (intro whole) (simp_all add: fmtFrac_def)
  next
    case (2 j)
    let ?m = "prec - j" and ?y = "v div 10 ^ j mod 10 ^ (prec - j)"
    from 2(3) obtain w where w: "v = 10 ^ j * w" by blast
    have p: "(10 :: nat) ^ prec = 10 ^ j * 10 ^ ?m" using 2(1) by (simp flip: power_add)
    have y: "?y = w mod 10 ^ ?m" by (simp add: w)
    have e: "?y * 10 ^ (prec - ?m) = v mod 10 ^ prec"
    proof -
      have "prec - ?m = j" using 2(1) by simp
      then show ?thesis unfolding y p unfolding w by (simp only: mult_mod_right mult.commute)
    qed
    from e 2(2) have pos: "0 < ?y" by (metis mult_is_0 neq0_conv)
    have f: "fmtFrac v prec = (CHR ''.'' # pad ?m ?y, v div 10 ^ prec)"
      using 2(4) by (simp add: fmtFrac_def pad_mod)
    have "?y < 10 ^ ?m" by (rule mod_less_divisor) simp
    from part [OF _ _ pos this e f] 2(1) show thesis by simp
  qed
qed

lemma dropFraction_of_nat: "dropFraction (of_nat n) = int n"
  by (simp add: dropFraction_def)

lemma exact53D: "exact53 fl \<Longrightarrow> n \<le> 10 ^ 9 \<Longrightarrow> fl (of_nat n) = of_nat n"
  by (simp add: exact53_def)

lemma leadingFraction_digits:
  assumes fl: "exact53 fl"
  shows "parseDigits x ds = Some n \<Longrightarrow> n < 10 ^ 9 \<Longrightarrow> a + length ds \<le> 9 \<Longrightarrow> ends_digits t \<Longrightarrow>
    leadingFraction fl x (of_nat (10 ^ a)) False (ds @ t) = (n, of_nat (10 ^ (a + length ds)), t)"
proof (induction ds arbitrary: x a)
  case Nil
  then show ?case by (cases t) (auto simp: ends_digits_def)
next
  case (Cons c ds)
  from Cons.prems(1) have c: "is_digit c" "parseDigits (10 * x + digit_value c) ds = Some n"
    by (auto split: if_splits)
  from parseDigits_mono [OF c(2)] Cons.prems(2) have le: "10 * x + digit_value c < 10 ^ 9" by simp
  have "(10 :: nat) ^ Suc a \<le> 10 ^ 9" by (rule power_increasing) (use Cons.prems(3) in auto)
  then have sc: "fl (of_nat (10 ^ Suc a)) = of_nat (10 ^ Suc a)" by (rule exact53D [OF fl])
  have "(of_nat (10 ^ a) :: rat) * 10 = of_nat (10 ^ Suc a)" by simp
  with sc have sc: "fl (of_nat (10 ^ a) * 10) = of_nat (10 ^ Suc a)" by (simp only:)
  from Cons.IH [OF c(2) Cons.prems(2) _ Cons.prems(4), of "Suc a"] Cons.prems(3) c(1) le sc
  show ?case by (simp add: Let_def mult.commute)
qed

lemma exact_product:
  assumes fl: "exact53 fl" and y: "y < 10 ^ m" "m \<le> prec" "prec \<le> 9"
  shows "dropFraction (fl (fl (of_nat y) * fl (of_nat (10 ^ prec) / of_nat (10 ^ m)))) = int (y * 10 ^ (prec - m))"
proof -
  have p: "(10 :: nat) ^ prec = 10 ^ (prec - m) * 10 ^ m" using y(2) by (simp flip: power_add)
  have q: "(of_nat (10 ^ prec) :: rat) / of_nat (10 ^ m) = of_nat (10 ^ (prec - m))" unfolding p by simp
  have k: "(10 :: nat) ^ prec \<le> 10 ^ 9" by (rule power_increasing) (use y(3) in auto)
  have "y * 10 ^ (prec - m) \<le> 10 ^ m * 10 ^ (prec - m)" by (rule mult_right_mono) (use y(1) in simp_all)
  also have "\<dots> = 10 ^ prec" unfolding p by (rule mult.commute)
  also note k
  finally have b: "y * 10 ^ (prec - m) \<le> 10 ^ 9" .
  have "y < 10 ^ prec" using y by (meson one_less_numeral_iff order_less_le_trans power_increasing_iff semiring_norm(76))
  with k have y9: "y \<le> 10 ^ 9" by simp
  have t9: "(10 :: nat) ^ (prec - m) \<le> 10 ^ 9" by (rule power_increasing) (use y(3) in auto)
  note ex = exact53D [OF fl]
  have "fl (fl (of_nat y) * fl (of_nat (10 ^ prec) / of_nat (10 ^ m))) = of_nat (y * 10 ^ (prec - m))"
    unfolding q ex [OF y9] ex [OF t9] using ex [OF b] by simp
  then show ?thesis by (simp only: dropFraction_of_nat)
qed

lemma dot_no_digit [simp]: "\<not> is_digit (CHR ''.'')"
  by (simp add: is_digit_def)

lemma unit_split:
  "list_all unit_char un \<Longrightarrow> (t = [] \<or> \<not> unit_char (hd t)) \<Longrightarrow>
     takeWhile unit_char (un @ t) = un \<and> dropWhile unit_char (un @ t) = t"
  by (induction un) (cases t, auto)

lemma unit_ends: "list_all unit_char un \<Longrightarrow> un \<noteq> [] \<Longrightarrow> ends_digits (un @ t)"
  by (cases un) (auto simp: ends_digits_def unit_char_def)

lemma unit_no_dot: "list_all unit_char un \<Longrightarrow> un \<noteq> [] \<Longrightarrow> \<exists>c cs. un @ t = c # cs \<and> c \<noteq> CHR ''.''"
  by (cases un) (auto simp: unit_char_def)

lemma showNat_front: "\<exists>c cs. showNat n = c # cs \<and> \<not> unit_char c"
  using showNat_hd_digit [of n] by (cases "showNat n") (auto simp: unit_char_def)

text \<open>A whole number of units, and a number with a fraction.\<close>

lemma parseTerm_int:
  assumes un: "list_all unit_char un" "un \<noteq> []" "unitMap un = Some k" and k: "0 < k" "v * k \<le> 2 ^ 63"
    and t: "t = [] \<or> \<not> unit_char (hd t)"
  shows "parseTerm fl (showNat v @ un @ t) = Inr (v * k, t)"
proof -
  obtain c cs where c: "showNat v = c # cs" "\<not> unit_char c" using showNat_front by blast
  obtain d ds where d: "un @ t = d # ds" "d \<noteq> CHR ''.''" using unit_no_dot [OF un(1,2)] by blast
  have "v \<le> v * k" using k(1) by simp
  then have "v \<le> 2 ^ 63" using k(2) by (rule le_trans)
  from leadingInt_showNat [OF this unit_ends [OF un(1,2)], of t]
  have i: "leadingInt 0 (c # cs @ un @ t) = Some (v, un @ t)" using c(1) by simp
  have v: "v \<le> 2 ^ 63 div k" using k by (simp add: less_eq_div_iff_mult_less_eq)
  have len: "length (un @ t) \<noteq> length (c # cs @ un @ t)" by simp
  from unit_split [OF un(1) t] d have sp: "takeWhile unit_char (d # ds) = un" "dropWhile unit_char (d # ds) = t"
    by auto
  show ?thesis
    unfolding parseTerm_def c(1) append_Cons list.case i
    using c(2) d un v sp len by (simp add: Let_def)
qed

lemma parseTerm_frac:
  assumes fl: "exact53 fl" and un: "list_all unit_char un" "un \<noteq> []" "unitMap un = Some (10 ^ prec)" "prec \<le> 9"
    and f: "fmtFrac u prec = (fr, q)" and w: "w = v * 10 ^ prec + u mod 10 ^ prec" "w \<le> 2 ^ 63"
    and t: "t = [] \<or> \<not> unit_char (hd t)"
  shows "parseTerm fl (showNat v @ fr @ un @ t) = Inr (w, t)"
proof (cases rule: fmtFrac_cases [of u prec])
  case whole
  with f w have "fr = []" "v * 10 ^ prec = w" by auto
  with parseTerm_int [OF un(1-3) _ _ t, of v fl] w(2) show ?thesis by simp
next
  case (part m y)
  with f have v: "fr = CHR ''.'' # pad m y" by auto
  have sum: "v * 10 ^ prec + y * 10 ^ (prec - m) = w" unfolding part(5) w(1) ..
  obtain c cs where c: "showNat v = c # cs" "\<not> unit_char c" using showNat_front by blast
  have vk: "v * 10 ^ prec \<le> w" using w(1) by simp
  then have "v \<le> w" using le_trans [of v "v * 10 ^ prec" w] by simp
  with w(2) have "v \<le> 2 ^ 63" by simp
  then have "leadingInt 0 (showNat v @ CHR ''.'' # pad m y @ un @ t) = Some (v, CHR ''.'' # pad m y @ un @ t)"
    by (rule leadingInt_showNat) (simp add: ends_digits_def)
  then have i: "leadingInt 0 (c # cs @ fr @ un @ t) = Some (v, CHR ''.'' # pad m y @ un @ t)"
    unfolding v c(1) append_Cons .
  have "10 ^ m \<le> (10 :: nat) ^ 9" by (rule power_increasing) (use part(2) un(4) in auto)
  with part(4) have "y < 10 ^ 9" by simp
  from leadingFraction_digits [OF fl parse_pad [OF part(4)] this, of 0 "un @ t"] part(2) un
  have lf: "leadingFraction fl 0 1 False (pad m y @ un @ t) = (y, of_nat (10 ^ m), un @ t)"
    by (simp add: unit_ends)
  have le: "v \<le> 2 ^ 63 div 10 ^ prec" using vk w(2) by (simp add: less_eq_div_iff_mult_less_eq)
  have "nat (dropFraction (fl (fl (of_nat y) * fl (of_nat (10 ^ prec) / of_nat (10 ^ m))))) = y * 10 ^ (prec - m)"
    unfolding exact_product [OF fl part(4,2) un(4)] by (rule nat_int)
  then have pr: "nat (dropFraction (fl (fl (rat_of_nat y) * fl (10 ^ prec / 10 ^ m)))) = y * 10 ^ (prec - m)"
    by simp
  from unit_split [OF un(1) t] have sp: "takeWhile unit_char (un @ t) = un" "dropWhile unit_char (un @ t) = t"
    by auto
  have "\<not> 2 ^ 63 < v * 10 ^ prec + y * 10 ^ (prec - m)" using sum w by simp
  then show ?thesis
    unfolding parseTerm_def c(1) append_Cons list.case i option.case prod.case lf
    using c(2) un le sp pr part(1,3) sum
    by (simp only: Let_def option.case sum.case if_True if_False) simp
qed

lemma parseTerms_step:
  "parseTerm fl s = Inr (v, r) \<Longrightarrow> d + v \<le> 2 ^ 63 \<Longrightarrow> parseTerms fl d s = parseTerms fl (d + v) r"
proof -
  assume p: "parseTerm fl s = Inr (v, r)" "d + v \<le> 2 ^ 63"
  then obtain c cs where "s = c # cs" by (cases s) (auto simp: parseTerm_def)
  with p show ?thesis by (simp add: Let_def)
qed

lemma units [simp]:
  "unitMap ''ns'' = Some (10 ^ 0)" "unitMap (microSign @ ''s'') = Some (10 ^ 3)" "unitMap ''ms'' = Some (10 ^ 6)"
  "unitMap ''s'' = Some (10 ^ 9)" "unitMap ''m'' = Some 60000000000" "unitMap ''h'' = Some 3600000000000"
  by (simp_all add: unitMap_def microSign_def)

lemma unit_letter [simp]:
  "unit_char (CHR ''n'')" "unit_char (CHR ''s'')" "unit_char (CHR ''m'')" "unit_char (CHR ''h'')"
  by code_simp+

lemma unit_letters [simp]:
  "list_all unit_char ''ns''" "list_all unit_char microSign" "list_all unit_char (microSign @ ''s'')" "list_all unit_char ''ms''"
  "list_all unit_char ''s''" "list_all unit_char ''m''" "list_all unit_char ''h''"
  by code_simp+

lemma parse_belowSecond:
  assumes fl: "exact53 fl" and u: "u < 10 ^ 9"
  shows "parseTerms fl 0 (formatBelowSecond u) = Inr u"
proof (cases "u = 0")
  case True
  have z: "parseTerm fl (showNat 0 @ ''s'' @ []) = Inr (0 * 10 ^ 9, [])" by (rule parseTerm_int) simp_all
  have "formatBelowSecond u = showNat 0 @ ''s'' @ []"
    using True by (simp add: formatBelowSecond_def showNat.simps digit_char_def) code_simp
  with parseTerms_step [OF z, of 0] True show ?thesis by simp
next
  case False
  have fr: "parseTerms fl 0 (showNat v @ fr @ un @ []) = Inr u"
    if "fmtFrac u prec = (fr, v)" "list_all unit_char un" "un \<noteq> []" "unitMap un = Some (10 ^ prec)" "prec \<le> 9"
    for prec fr v un
  proof -
    have "v = u div 10 ^ prec" using that(1) by (cases rule: fmtFrac_cases [of u prec]) auto
    then have "u = v * 10 ^ prec + u mod 10 ^ prec" by (simp only: div_mult_mod_eq)
    from parseTerm_frac [OF fl that(2-5,1) this, of "[]"] u
      parseTerms_step [of fl "showNat v @ fr @ un @ []" u "[]" 0] show ?thesis by simp
  qed
  show ?thesis
    using False fr [of 0 _ _ "''ns''"] fr [of 3 _ _ "microSign @ ''s''"] fr [of 6 _ _ "''ms''"]
    by (auto simp: formatBelowSecond_def split: prod.splits)
qed

lemma ten9: "(10 :: nat) ^ 9 = 1000000000"
  by simp

lemma front_digit: "showNat n @ t = [] \<or> \<not> unit_char (hd (showNat n @ t))"
  using showNat_front [of n] by auto

lemma parse_seconds:
  assumes fl: "exact53 fl" and u: "u \<le> 2 ^ 63"
  shows "parseTerms fl 0 (formatSeconds u) = Inr u"
proof -
  obtain fr secs where f: "fmtFrac u 9 = (fr, secs)" by fastforce
  then have s: "secs = u div 10 ^ 9" by (cases rule: fmtFrac_cases [of u 9]) auto
  define mins hours w where d: "mins = secs div 60" "hours = mins div 60" "w = secs mod 60 * 10 ^ 9 + u mod 10 ^ 9"
  have "hours * 60 + mins mod 60 = mins" "mins * 60 + secs mod 60 = secs" "secs * 10 ^ 9 + u mod 10 ^ 9 = u"
    unfolding d s by (rule div_mult_mod_eq)+
  then have sum: "hours * 3600000000000 + mins mod 60 * 60000000000 + w = u"
    unfolding d(3) by (simp only: ten9)
  have last: "parseTerm fl (showNat (secs mod 60) @ fr @ ''s'' @ []) = Inr (w, [])"
    by (rule parseTerm_frac [OF fl _ _ _ _ f d(3)]) (use sum u in simp_all)
  have mid: "parseTerm fl (showNat (mins mod 60) @ ''m'' @ showNat (secs mod 60) @ fr @ ''s'' @ []) =
      Inr (mins mod 60 * 60000000000, showNat (secs mod 60) @ fr @ ''s'' @ [])"
    by (rule parseTerm_int) (use sum u front_digit in simp_all)
  have first: "parseTerm fl (showNat hours @ ''h'' @ showNat (mins mod 60) @ ''m'' @ showNat (secs mod 60) @ fr @ ''s'' @ []) =
      Inr (hours * 3600000000000, showNat (mins mod 60) @ ''m'' @ showNat (secs mod 60) @ fr @ ''s'' @ [])"
    by (rule parseTerm_int) (use sum u front_digit in simp_all)
  have body: "formatSeconds u =
    (if 0 < mins then (if 0 < hours then showNat hours @ ''h'' else []) @ showNat (mins mod 60) @ ''m'' else []) @
      showNat (secs mod 60) @ fr @ ''s'' @ []"
    by (simp add: formatSeconds_def f d Let_def)
  consider "0 < hours" "0 < mins" | "hours = 0" "0 < mins" | "mins = 0" using d by fastforce
  then show ?thesis
  proof cases
    case 1
    from parseTerms_step [OF first, of 0] parseTerms_step [OF mid, of "hours * 3600000000000"]
      parseTerms_step [OF last, of "hours * 3600000000000 + mins mod 60 * 60000000000"] sum u 1 body
    show ?thesis by simp
  next
    case 2
    from parseTerms_step [OF mid, of 0] parseTerms_step [OF last, of "mins mod 60 * 60000000000"] sum u 2 body
    show ?thesis by simp
  next
    case 3
    from parseTerms_step [OF last, of 0] sum u 3 body d show ?thesis by simp
  qed
qed

text \<open>\<^verbatim>\<open>ParseDuration\<close> undoes \<^verbatim>\<open>String\<close> on every value.\<close>

lemma formatted_front:
  "\<exists>c cs. formatBelowSecond u = c # cs \<and> is_digit c" "\<exists>c cs. formatSeconds u = c # cs \<and> is_digit c"
proof -
  have f: "\<exists>c cs. showNat n @ t = c # cs \<and> is_digit c" for n t
    using showNat_hd_digit [of n] by (cases "showNat n") auto
  have "is_digit (CHR ''0'')" by code_simp
  then show "\<exists>c cs. formatBelowSecond u = c # cs \<and> is_digit c"
    using f by (auto simp: formatBelowSecond_def split: prod.splits)
  show "\<exists>c cs. formatSeconds u = c # cs \<and> is_digit c"
    using f by (auto simp: formatSeconds_def Let_def split: prod.splits)
qed

lemma parse_zero: "parseTerms fl d ''0'' = Inl MissingUnit"
proof -
  have "is_digit (CHR ''0'')" "\<not> unit_char (CHR ''0'')" "digit_value (CHR ''0'') = 0" by code_simp+
  then show ?thesis by (simp add: parseTerm_def)
qed

lemma ParseDuration_String:
  assumes fl: "exact53 fl" and d: "in_int64 d"
  shows "ParseDuration fl (DurationString d) = Inr d"
proof -
  define u where "u = nat \<bar>d\<bar>"
  define body where "body = (if u < nat Second then formatBelowSecond u else formatSeconds u)"
  have u: "u \<le> 2 ^ 63" "d < 0 \<Longrightarrow> d = - int u" "\<not> d < 0 \<Longrightarrow> d = int u \<and> u < 2 ^ 63"
    using d by (auto simp: u_def in_int64_def)
  have p: "parseTerms fl 0 body = Inr u"
    using parse_belowSecond [OF fl, of u] parse_seconds [OF fl u(1)] by (simp add: body_def Second_def)
  obtain c cs where c: "body = c # cs" "is_digit c"
    using formatted_front [of u] unfolding body_def by (cases "u < nat Second") auto
  have no: "body \<noteq> ''0''" using p parse_zero [of fl 0] by auto
  have s: "DurationString d = (if d < 0 then CHR ''-'' # body else body)"
    by (simp add: DurationString_def u_def body_def Let_def)
  show ?thesis
  proof (cases "d < 0")
    case True
    with s p no c u(2) d show ?thesis by (simp add: ParseDuration_def)
  next
    case False
    from c(2) have "c \<noteq> CHR ''-''" "c \<noteq> CHR ''+''" by auto
    with False s p no c u(3) show ?thesis by (auto simp: ParseDuration_def)
  qed
qed

text \<open>What is parsed fits in 64 bits, also where the sum of the terms wraps around.\<close>

lemma parseTerms_range: "d \<le> 2 ^ 63 \<Longrightarrow> parseTerms fl d s = Inr x \<Longrightarrow> x \<le> 2 ^ 63"
  by (induction fl d s rule: parseTerms.induct) (auto simp: Let_def split: sum.splits prod.splits if_splits)

lemma ParseDuration_range: "ParseDuration fl s = Inr d \<Longrightarrow> in_int64 d"
  using parseTerms_range [of 0 fl]
  by (auto simp: ParseDuration_def Let_def in_int64_def [of 0] split: prod.splits if_splits sum.splits list.splits)
    (auto simp: in_int64_def)

end
