(* ===== verification/ClientRun.thy ===== *)
theory ClientRun
  imports Durations
begin

text \<open>
  The outer loop of the client, \<^verbatim>\<open>Client.Run\<close> of \<^verbatim>\<open>internal/client/client.go\<close>: one
  connection after the other, and how long it waits in between. Durations are nanoseconds of
  Go's \<^verbatim>\<open>int64\<close>. What happens to a connection is the argument of each iteration.
\<close>

section \<open>Waiting times\<close>

text \<open>
  \<open>fl\<close> is the rounding of one floating-point operation, \<open>r\<close> the value of \<^verbatim>\<open>rand.Float64()\<close>.
\<close>

definition jitter :: "(rat \<Rightarrow> rat) \<Rightarrow> rat \<Rightarrow> int \<Rightarrow> int" where
  "jitter fl r backoff = wrap64 (dropFraction (fl (fl (r * fl (2 / 5)) - fl (1 / 5))) * backoff)"

definition waitTime :: "(rat \<Rightarrow> rat) \<Rightarrow> rat \<Rightarrow> int \<Rightarrow> int" where
  "waitTime fl r backoff =
     (let wait = wrap64 (backoff + jitter fl r backoff) in if wait < 0 then 0 else wait)"

definition nextBackoff :: "int \<Rightarrow> int \<Rightarrow> int" where
  "nextBackoff maxD backoff = (let b = wrap64 (backoff * 2) in if maxD < b then maxD else b)"

section \<open>The loop\<close>

text \<open>
  What one iteration meets: \<^verbatim>\<open>ctx.Err()\<close> before and after the connection, the state the
  connection leaves, \<^verbatim>\<open>time.Since(stableAt)\<close>, the random number, and whether the context
  ends while it waits.
\<close>

record 'c iteration =
  it_cancelled :: bool
  it_conn :: "'c \<Rightarrow> 'c"
  it_cancelledAfter :: bool
  it_since :: int
  it_rand :: rat
  it_done :: bool

text \<open>
  The waits announced, in order, whether \<^verbatim>\<open>Run\<close> has returned, and the state of the client.
  \<^verbatim>\<open>stableAt\<close> is set once, before the loop, so \<open>it_since\<close> is the age of the process.
\<close>

fun runLoop ::
    "(rat \<Rightarrow> rat) \<Rightarrow> int \<Rightarrow> int \<Rightarrow> int \<Rightarrow> 'c iteration list \<Rightarrow> 'c \<Rightarrow> int list \<times> bool \<times> 'c" where
  "runLoop fl base maxD backoff [] c = ([], False, c)"
| "runLoop fl base maxD backoff (it # its) c =
     (if it_cancelled it then ([], True, c)
      else
        let c1 = it_conn it c in
        if it_cancelledAfter it then ([], True, c1)
        else
          let b = (if 5 * Minute < it_since it then base else backoff);
              wait = waitTime fl (it_rand it) b
          in if it_done it then ([wait], True, c1)
             else (case runLoop fl base maxD (nextBackoff maxD b) its c1 of
                     (ws, r, c2) \<Rightarrow> (wait # ws, r, c2)))"

definition Run ::
    "(rat \<Rightarrow> rat) \<Rightarrow> ClientCfg \<Rightarrow> 'c iteration list \<Rightarrow> 'c \<Rightarrow> int list \<times> bool \<times> 'c" where
  "Run fl cfg its c =
     (let base = rc_Base (cc_Reconnect cfg) in
      runLoop fl base (rc_Max (cc_Reconnect cfg)) base its c)"

section \<open>No jitter\<close>

text \<open>
  Rounding errs by less than \<open>1/100\<close> on the numbers that occur here, which are below 1; the
  actual error of \<^verbatim>\<open>float64\<close> is below $2^{-53}$.
\<close>

definition rounding :: "(rat \<Rightarrow> rat) \<Rightarrow> bool" where
  "rounding fl \<longleftrightarrow> (\<forall>x. \<bar>x\<bar> \<le> 1 \<longrightarrow> \<bar>fl x - x\<bar> < 1 / 100)"

lemma roundingD: "rounding fl \<Longrightarrow> \<bar>x\<bar> \<le> 1 \<Longrightarrow> \<bar>fl x - x\<bar> < 1 / 100"
  by (simp add: rounding_def)

lemma dropFraction_small: "\<bar>x\<bar> < 1 \<Longrightarrow> dropFraction x = 0"
  by (auto simp: dropFraction_def floor_eq_iff)

lemma jitter_zero:
  assumes fl: "rounding fl" and r: "0 \<le> r" "r < 1"
  shows "jitter fl r backoff = 0"
proof -
  let ?a = "fl (2 / 5)" and ?b = "fl (1 / 5)"
  have a: "\<bar>?a - 2 / 5\<bar> < 1 / 100" and b: "\<bar>?b - 1 / 5\<bar> < 1 / 100"
    by (rule roundingD [OF fl], simp)+
  then have "0 \<le> ?a" "?a \<le> 1 / 2" by (auto simp: abs_if split: if_splits)
  with r have m: "0 \<le> r * ?a" "r * ?a \<le> 1 / 2"
    using mult_mono [of r 1 ?a "1 / 2"] by auto
  then have "\<bar>fl (r * ?a) - r * ?a\<bar> < 1 / 100" by (intro roundingD [OF fl]) simp
  with m b have d: "\<bar>fl (r * ?a) - ?b\<bar> \<le> 3 / 5" by (auto simp: abs_if split: if_splits)
  then have "\<bar>fl (fl (r * ?a) - ?b) - (fl (r * ?a) - ?b)\<bar> < 1 / 100"
    by (intro roundingD [OF fl]) simp
  with d have "\<bar>fl (fl (r * ?a) - ?b)\<bar> < 1" by (auto simp: abs_if split: if_splits)
  then show ?thesis by (simp add: jitter_def dropFraction_small in_int64_def)
qed

lemma waitTime_exact:
  "rounding fl \<Longrightarrow> 0 \<le> r \<Longrightarrow> r < 1 \<Longrightarrow> 0 \<le> b \<Longrightarrow> b < 2 ^ 63 \<Longrightarrow> waitTime fl r b = b"
  by (simp add: waitTime_def jitter_zero in_int64_def)

lemma nextBackoff_exact:
  "0 \<le> b \<Longrightarrow> b < 2 ^ 62 \<Longrightarrow> nextBackoff maxD b = min maxD (2 * b)"
  by (auto simp: nextBackoff_def in_int64_def min_def Let_def)

section \<open>The schedule\<close>

text \<open>The waits of a client that has been up for at most five minutes, and of an older one.\<close>

definition schedule_wait :: "int \<Rightarrow> int \<Rightarrow> nat \<Rightarrow> int" where
  "schedule_wait base maxD n = min maxD (base * 2 ^ n)"

definition drawn :: "'c iteration \<Rightarrow> bool" where
  "drawn it \<longleftrightarrow> 0 \<le> it_rand it \<and> it_rand it < 1"

lemma runLoop_young:
  assumes fl: "rounding fl" and m: "0 < base" "base \<le> maxD" "maxD < 2 ^ 62"
    and its: "\<forall>it \<in> set its. drawn it \<and> it_since it \<le> 5 * Minute"
    and b: "backoff = schedule_wait base maxD k"
  shows "\<forall>n < length (fst (runLoop fl base maxD backoff its c)).
    fst (runLoop fl base maxD backoff its c) ! n = schedule_wait base maxD (k + n)"
  using its b
proof (induction its arbitrary: backoff k c)
  case (Cons it its)
  have pos: "0 < schedule_wait base maxD k" "schedule_wait base maxD k < 2 ^ 62"
    using m by (auto simp: schedule_wait_def min_def)
  from Cons.prems have it: "drawn it" "it_since it \<le> 5 * Minute" by auto
  have w: "waitTime fl (it_rand it) backoff = schedule_wait base maxD k"
    using it(1) pos Cons.prems(2) by (simp add: drawn_def waitTime_exact [OF fl])
  have nb: "nextBackoff maxD backoff = schedule_wait base maxD (Suc k)"
    using pos Cons.prems(2) m by (simp add: nextBackoff_exact) (simp add: schedule_wait_def min_def)
  have IH: "\<forall>n < length (fst (runLoop fl base maxD (nextBackoff maxD backoff) its (it_conn it c))).
    fst (runLoop fl base maxD (nextBackoff maxD backoff) its (it_conn it c)) ! n =
      schedule_wait base maxD (Suc k + n)"
    by (rule Cons.IH) (use Cons.prems nb in auto)
  show ?case
    using it(2) w IH by (auto simp: Let_def nth_Cons split: prod.splits nat.splits)
qed simp

lemma runLoop_old:
  assumes fl: "rounding fl" and m: "0 < base" "base < 2 ^ 62"
    and its: "\<forall>it \<in> set its. drawn it \<and> 5 * Minute < it_since it"
  shows "set (fst (runLoop fl base maxD backoff its c)) \<subseteq> {base}"
  using its
proof (induction its arbitrary: backoff c)
  case (Cons it its)
  then have it: "drawn it" "5 * Minute < it_since it" by auto
  have w: "waitTime fl (it_rand it) base = base"
    using it(1) m by (simp add: drawn_def waitTime_exact [OF fl])
  have "set (fst (runLoop fl base maxD (nextBackoff maxD base) its (it_conn it c))) \<subseteq> {base}"
    by (rule Cons.IH) (use Cons.prems in auto)
  with it(2) w show ?case by (auto simp: Let_def split: prod.splits)
qed simp

text \<open>Whatever the age, the wait lies between the base and the maximum.\<close>

lemma runLoop_bounds:
  assumes fl: "rounding fl" and m: "0 < base" "base \<le> maxD" "maxD < 2 ^ 62"
    and its: "\<forall>it \<in> set its. drawn it"
    and b: "base \<le> backoff" "backoff \<le> maxD"
  shows "set (fst (runLoop fl base maxD backoff its c)) \<subseteq> {base..maxD}"
  using its b
proof (induction its arbitrary: backoff c)
  case (Cons it its)
  define b1 where "b1 = (if 5 * Minute < it_since it then base else backoff)"
  have b1: "base \<le> b1" "b1 \<le> maxD" using Cons.prems m by (auto simp: b1_def)
  have w: "waitTime fl (it_rand it) b1 = b1"
    using Cons.prems(1) b1 m by (simp add: drawn_def waitTime_exact [OF fl])
  have "base \<le> nextBackoff maxD b1 \<and> nextBackoff maxD b1 \<le> maxD"
    using b1 m by (auto simp: nextBackoff_exact)
  then have "set (fst (runLoop fl base maxD (nextBackoff maxD b1) its (it_conn it c))) \<subseteq> {base..maxD}"
    by (intro Cons.IH) (use Cons.prems in auto)
  with w b1 show ?case by (auto simp: Let_def b1_def [symmetric] split: prod.splits)
qed simp

end
