(* ===== verification/EndToEnd.thy ===== *)
theory EndToEnd
  imports Reload ServerSys
begin

text \<open>
  Client and server together: what the requests of the client, in the order it sends them, do to
  the registry of the server. The proxies are TCP proxies with a port of their own, the case the
  documentation promises stable addresses for.
\<close>

section \<open>Serving requests\<close>

text \<open>
  A request arrives with its number, and the answer of \<^verbatim>\<open>net.Listen\<close> should it be called.
\<close>

type_synonym request = "task \<times> int \<times> gostring option"

fun serveTask ::
    "(gostring \<Rightarrow> gostring) \<Rightarrow> sid \<Rightarrow> request \<Rightarrow> Server \<Rightarrow> NewProxyResp list \<times> Server" where
  "serveTask u i (TRegister p, r, bind) s =
     (case registerProxy u s i (newProxyMsg p r) bind of (resp, s1) \<Rightarrow> ([resp], s1))"
| "serveTask u i (TClose n, r, bind) s = ([], closeProxy s i n)"
| "serveTask u i (TDiff oldM newM, r, bind) s = ([], s)"

fun serveTasks ::
    "(gostring \<Rightarrow> gostring) \<Rightarrow> sid \<Rightarrow> request list \<Rightarrow> Server \<Rightarrow> NewProxyResp list \<times> Server" where
  "serveTasks u i [] s = ([], s)"
| "serveTasks u i (t # ts) s =
     (case serveTask u i t s of
        (rs, s1) \<Rightarrow> (case serveTasks u i ts s1 of (rs', s2) \<Rightarrow> (rs @ rs', s2)))"

text \<open>This is what the control loop of the server does with the frames of these requests.\<close>

lemma ctlHandle_serves:
  "decNewProxy J payload = Some (newProxyMsg p r) \<Longrightarrow>
     ctlHandle J u bind TypeNewProxy payload s i =
       (Some (SNewProxyResp (hd (fst (serveTask u i (TRegister p, r, bind) s)))),
        snd (serveTask u i (TRegister p, r, bind) s))"
  "decCloseProxy J payload = Some \<lparr>cp_Name = n\<rparr> \<Longrightarrow>
     ctlHandle J u bind TypeCloseProxy payload s i = (None, snd (serveTask u i (TClose n, r, bind) s))"
  by (simp_all add: ctlHandle_def frame_types split: prod.splits)

lemma serveTasks_append:
  "serveTasks u i (ts @ ts') s =
     (case serveTasks u i ts s of
        (rs, s1) \<Rightarrow> (case serveTasks u i ts' s1 of (rs', s2) \<Rightarrow> (rs @ rs', s2)))"
  by (induction ts arbitrary: s) (auto split: prod.splits)

section \<open>TCP proxies with a port of their own\<close>

definition tcp_fixed :: "ProxyCfg \<Rightarrow> bool" where
  "tcp_fixed p \<longleftrightarrow>
     pc_Type p = ''tcp'' \<and> pc_RemotePort p \<noteq> 0 \<and> SplitHostPort (pc_Local p) \<noteq> None"

text \<open>The session serves the proxy: the server has it under its name, on its port.\<close>

definition serves :: "Server \<Rightarrow> sid \<Rightarrow> ProxyCfg \<Rightarrow> bool" where
  "serves s i p \<longleftrightarrow>
     (\<exists>q. se_proxies (hp_session s i) (pc_Name p) = Some q \<and>
          sv_byPort s (pc_RemotePort p) = Some q \<and> px_typ (hp_proxy s q) = ''tcp'' \<and>
          px_local (hp_proxy s q) = pc_Local p \<and> px_remotePort (hp_proxy s q) = pc_RemotePort p)"

text \<open>Name and port are free, or held by the session's own proxy of that name.\<close>

definition free_for :: "Server \<Rightarrow> sid \<Rightarrow> ProxyCfg \<Rightarrow> bool" where
  "free_for s i p \<longleftrightarrow>
     (\<forall>q. sv_byPort s (pc_RemotePort p) = Some q \<longrightarrow> se_proxies (hp_session s i) (pc_Name p) = Some q) \<and>
     (\<forall>q. sv_proxies s (proxyKey (se_clientID (hp_session s i)) (pc_Name p)) = Some q \<longrightarrow>
          se_proxies (hp_session s i) (pc_Name p) = Some q)"

lemma proxyKey_inj [simp]: "proxyKey c n = proxyKey c m \<longleftrightarrow> n = m"
  by (simp add: proxyKey_def)

text \<open>Closing a proxy of the session: it goes, everything else stays.\<close>

lemma closeProxy_effect:
  fixes s :: Server and i :: sid and n :: gostring
  assumes inv: "reg_inv s"
  defines "t \<equiv> closeProxy s i n" and "own \<equiv> se_proxies (hp_session s i) n"
  shows "se_proxies (hp_session t i) = (se_proxies (hp_session s i))(n := None)"
    and "se_clientID (hp_session t j) = se_clientID (hp_session s j)"
    and "sv_proxies t k = Some q \<longleftrightarrow> sv_proxies s k = Some q \<and> own \<noteq> Some q"
    and "sv_byPort t port = Some q \<longleftrightarrow> sv_byPort s port = Some q \<and> own \<noteq> Some q"
    and "sv_ranges t = sv_ranges s" and "nx_sid t = nx_sid s"
    and "px_typ (hp_proxy t q) = px_typ (hp_proxy s q)"
      "px_local (hp_proxy t q) = px_local (hp_proxy s q)"
      "px_remotePort (hp_proxy t q) = px_remotePort (hp_proxy s q)"
proof -
  have "(se_proxies (hp_session t i) = (se_proxies (hp_session s i))(n := None)) \<and>
    se_clientID (hp_session t j) = se_clientID (hp_session s j) \<and>
    (sv_proxies t k = Some q \<longleftrightarrow> sv_proxies s k = Some q \<and> own \<noteq> Some q) \<and>
    (sv_byPort t port = Some q \<longleftrightarrow> sv_byPort s port = Some q \<and> own \<noteq> Some q) \<and>
    sv_ranges t = sv_ranges s \<and> nx_sid t = nx_sid s \<and>
    px_typ (hp_proxy t q) = px_typ (hp_proxy s q) \<and> px_local (hp_proxy t q) = px_local (hp_proxy s q) \<and>
    px_remotePort (hp_proxy t q) = px_remotePort (hp_proxy s q)"
  proof (cases own)
    case None
    then show ?thesis by (auto simp: t_def own_def closeProxy_def)
  next
    case (Some p)
    then have o: "registered s p" "px_session (hp_proxy s p) = i" "px_name (hp_proxy s p) = n"
      using owned_registered [OF inv, of i n p] by (auto simp: own_def)
    have key: "sv_proxies s k = Some q \<Longrightarrow> k = pkey (hp_proxy s q)" for k q
      using inv by (simp add: reg_inv_def inv_keys_def)
    have port: "sv_byPort s m = Some q \<longleftrightarrow> registered s q \<and> px_remotePort (hp_proxy s q) = m \<and> m \<noteq> 0" for m q
      using inv by (simp add: reg_inv_def inv_ports_def)
    have "t = removeProxyLocked s p" using Some by (simp add: t_def own_def closeProxy_def)
    note tt = this
    have "sv_proxies t k = Some q \<longleftrightarrow> sv_proxies s k = Some q \<and> q \<noteq> p"
    proof (cases "k = pkey (hp_proxy s p)")
      case True
      with o(1) show ?thesis by (auto simp: tt reg_simps registered_def)
    next
      case False
      with key [of k p] show ?thesis by (auto simp: tt reg_simps)
    qed
    moreover have "sv_byPort t port = Some q \<longleftrightarrow> sv_byPort s port = Some q \<and> q \<noteq> p"
    proof (cases "port = px_remotePort (hp_proxy s p) \<and> port \<noteq> 0")
      case True
      with o(1) port [of port p] show ?thesis by (simp add: tt reg_simps)
    next
      case False
      with port [of port p] show ?thesis by (auto simp: tt reg_simps)
    qed
    ultimately show ?thesis using Some o by (auto simp: tt reg_simps)
  qed
  then show "se_proxies (hp_session t i) = (se_proxies (hp_session s i))(n := None)"
    "se_clientID (hp_session t j) = se_clientID (hp_session s j)"
    "sv_proxies t k = Some q \<longleftrightarrow> sv_proxies s k = Some q \<and> own \<noteq> Some q"
    "sv_byPort t port = Some q \<longleftrightarrow> sv_byPort s port = Some q \<and> own \<noteq> Some q"
    "sv_ranges t = sv_ranges s" "nx_sid t = nx_sid s"
    "px_typ (hp_proxy t q) = px_typ (hp_proxy s q)"
    "px_local (hp_proxy t q) = px_local (hp_proxy s q)"
    "px_remotePort (hp_proxy t q) = px_remotePort (hp_proxy s q)"
    by auto
qed

text \<open>Registering a proxy whose name and port are free.\<close>

lemma register_effect:
  fixes s :: Server
  assumes inv: "reg_inv s" and i: "i < nx_sid s" and p: "tcp_fixed p" "portAllowed s (pc_RemotePort p)"
    and free: "sv_byPort s (pc_RemotePort p) = None"
      "sv_proxies s (proxyKey (se_clientID (hp_session s i)) (pc_Name p)) = None"
  shows "\<exists>t. registerProxy u s i (newProxyMsg p r) None = (okResp (newProxyMsg p r) (pc_RemotePort p), t) \<and>
    reg_inv t \<and> nx_sid t = nx_sid s \<and> sv_ranges t = sv_ranges s \<and>
    (\<forall>j. se_clientID (hp_session t j) = se_clientID (hp_session s j)) \<and>
    se_proxies (hp_session t i) = (se_proxies (hp_session s i))(pc_Name p \<mapsto> nx_pid s) \<and>
    sv_byPort t = (sv_byPort s)(pc_RemotePort p \<mapsto> nx_pid s) \<and>
    sv_proxies t = (sv_proxies s)(proxyKey (se_clientID (hp_session s i)) (pc_Name p) \<mapsto> nx_pid s) \<and>
    px_typ (hp_proxy t (nx_pid s)) = ''tcp'' \<and> px_local (hp_proxy t (nx_pid s)) = pc_Local p \<and>
    px_remotePort (hp_proxy t (nx_pid s)) = pc_RemotePort p \<and>
    (\<forall>q. q \<noteq> nx_pid s \<longrightarrow> hp_proxy t q = hp_proxy s q)"
proof -
  let ?np = "newProxyMsg p r"
  let ?P = "newTCP s i ?np"
  have np: "np_Type ?np = ''tcp''" "np_Name ?np = pc_Name p" "np_Local ?np = pc_Local p"
    "np_RemotePort ?np = pc_RemotePort p"
    using p(1) by (simp_all add: newProxyMsg_def tcp_fixed_def)
  have w: "wantedPort s ?np = pc_RemotePort p" using p(1) by (simp add: wantedPort_def np tcp_fixed_def)
  have k: "sv_proxies s (regKey s i ?np) = None" using free(2) by (simp add: regKey_def np)
  have r: "registerProxy u s i ?np None = (okResp ?np (pc_RemotePort p), installProxy s ?P)"
    using p free k by (auto simp: registerProxy_def registerTCPProxy_spec np w tcp_fixed_def)
  have ins: "installable s ?P"
    by (rule installable_TCP [OF inv i k]) (use p free in \<open>auto simp: np w tcp_fixed_def\<close>)
  have P: "pkey ?P = proxyKey (se_clientID (hp_session s i)) (pc_Name p)" "px_session ?P = i"
    "px_name ?P = pc_Name p" "px_remotePort ?P = pc_RemotePort p" "px_typ ?P = ''tcp''"
    "px_local ?P = pc_Local p"
    by (simp_all add: tcpProxy_def pkey_def np w)
  have "sv_ranges (installProxy s ?P) = sv_ranges s" by (rule installProxy_fields)
  moreover have "pc_RemotePort p \<noteq> 0" using p(1) by (simp add: tcp_fixed_def)
  ultimately show ?thesis
    by (intro exI [of _ "installProxy s ?P"])
      (simp add: r install_inv [OF inv ins] reg_simps P del: wantedPort_def)
qed

text \<open>One step of a reload: close what the session has under the name, register the new proxy.\<close>

lemma replace_step:
  fixes s :: Server
  assumes inv: "reg_inv s" and i: "i < nx_sid s" and p: "tcp_fixed p" "portAllowed s (pc_RemotePort p)"
    and free: "free_for s i p"
  defines "s1 \<equiv> closeProxy s i (pc_Name p)"
  obtains t where "registerProxy u s1 i (newProxyMsg p r) None = (okResp (newProxyMsg p r) (pc_RemotePort p), t)"
    "reg_inv t" "nx_sid t = nx_sid s" "sv_ranges t = sv_ranges s" "serves t i p"
    "dom (se_proxies (hp_session t i)) = insert (pc_Name p) (dom (se_proxies (hp_session s i)))"
    "\<And>q. pc_Name q \<noteq> pc_Name p \<Longrightarrow> serves s i q \<Longrightarrow> serves t i q"
    "\<And>q. pc_Name q \<noteq> pc_Name p \<Longrightarrow> pc_RemotePort q \<noteq> pc_RemotePort p \<Longrightarrow> free_for s i q \<Longrightarrow> free_for t i q"
proof -
  note c = closeProxy_effect [OF inv, of i "pc_Name p", folded s1_def]
  let ?key = "proxyKey (se_clientID (hp_session s i)) (pc_Name p)"
  have s1: "reg_inv s1" "i < nx_sid s1" "portAllowed s1 (pc_RemotePort p)"
    using inv i p c(5,6) by (simp_all add: s1_def closeProxy_inv portAllowed_def)
  have "sv_byPort s1 (pc_RemotePort p) \<noteq> Some q" for q
    using free c(4) by (auto simp: free_for_def)
  moreover have "sv_proxies s1 (proxyKey (se_clientID (hp_session s1 i)) (pc_Name p)) \<noteq> Some q" for q
    using free c(2,3) by (auto simp: free_for_def)
  ultimately have f1: "sv_byPort s1 (pc_RemotePort p) = None"
    "sv_proxies s1 (proxyKey (se_clientID (hp_session s1 i)) (pc_Name p)) = None"
    by (simp_all add: not_Some_eq [symmetric] del: not_Some_eq)
  obtain t where t: "registerProxy u s1 i (newProxyMsg p r) None = (okResp (newProxyMsg p r) (pc_RemotePort p), t)"
    "reg_inv t" "nx_sid t = nx_sid s1" "sv_ranges t = sv_ranges s1"
    "\<And>j. se_clientID (hp_session t j) = se_clientID (hp_session s1 j)"
    "se_proxies (hp_session t i) = (se_proxies (hp_session s1 i))(pc_Name p \<mapsto> nx_pid s1)"
    "sv_byPort t = (sv_byPort s1)(pc_RemotePort p \<mapsto> nx_pid s1)"
    "sv_proxies t = (sv_proxies s1)(proxyKey (se_clientID (hp_session s1 i)) (pc_Name p) \<mapsto> nx_pid s1)"
    "px_typ (hp_proxy t (nx_pid s1)) = ''tcp''" "px_local (hp_proxy t (nx_pid s1)) = pc_Local p"
    "px_remotePort (hp_proxy t (nx_pid s1)) = pc_RemotePort p"
    "\<And>q. q \<noteq> nx_pid s1 \<Longrightarrow> hp_proxy t q = hp_proxy s1 q"
    using register_effect [OF s1(1,2) p(1) s1(3) f1, of u r] by blast
  show ?thesis
  proof (rule that [OF t(1,2)])
    show "nx_sid t = nx_sid s" "sv_ranges t = sv_ranges s" using t(3,4) c(5,6) by simp_all
    show "serves t i p" using t(6,7,9-11) by (auto simp: serves_def)
    show "dom (se_proxies (hp_session t i)) = insert (pc_Name p) (dom (se_proxies (hp_session s i)))"
      using t(6) c(1) by auto
  next
    fix q assume q: "pc_Name q \<noteq> pc_Name p" "serves s i q"
    from q(2) obtain x where x: "se_proxies (hp_session s i) (pc_Name q) = Some x"
      "sv_byPort s (pc_RemotePort q) = Some x" "px_typ (hp_proxy s x) = ''tcp''"
      "px_local (hp_proxy s x) = pc_Local q" "px_remotePort (hp_proxy s x) = pc_RemotePort q"
      by (auto simp: serves_def)
    have own: "se_proxies (hp_session s i) (pc_Name p) \<noteq> Some x"
      using owned_registered [OF inv x(1)] owned_registered [OF inv, of i "pc_Name p" x] q(1) by auto
    with x(2) have port: "sv_byPort s1 (pc_RemotePort q) = Some x" by (simp add: c(4))
    then have "registered s1 x" using s1(1) by (simp add: reg_inv_def inv_ports_def)
    then have "x \<noteq> nx_pid s1" using s1(1) registered_bound [of s1 x] by (auto simp: reg_inv_def)
    moreover have "pc_RemotePort q \<noteq> pc_RemotePort p" using port f1(1) by auto
    ultimately have h: "hp_proxy t x = hp_proxy s1 x" "sv_byPort t (pc_RemotePort q) = Some x"
      using t(12) port by (simp_all add: t(7))
    have "se_proxies (hp_session t i) (pc_Name q) = Some x"
      using q(1) x(1) by (simp add: t(6) c(1))
    moreover have "px_typ (hp_proxy t x) = ''tcp''" "px_local (hp_proxy t x) = pc_Local q"
      "px_remotePort (hp_proxy t x) = pc_RemotePort q"
      using x(3-5) by (simp_all add: h(1) c(7-9))
    ultimately show "serves t i q" using h(2) unfolding serves_def by blast
  next
    fix q assume q: "pc_Name q \<noteq> pc_Name p" "pc_RemotePort q \<noteq> pc_RemotePort p" "free_for s i q"
    have "se_proxies (hp_session t i) (pc_Name q) = se_proxies (hp_session s i) (pc_Name q)"
      using q(1) by (simp add: t(6) c(1))
    moreover have "sv_byPort t (pc_RemotePort q) = Some x \<Longrightarrow> sv_byPort s (pc_RemotePort q) = Some x" for x
      using q(2) c(4) [of "pc_RemotePort q" x] by (simp add: t(7))
    moreover have "sv_proxies t (proxyKey d (pc_Name q)) = Some x \<Longrightarrow> sv_proxies s (proxyKey d (pc_Name q)) = Some x"
      if "d = se_clientID (hp_session s i)" for d x
      using q(1) that c(2) [of i] c(3) [of "proxyKey d (pc_Name q)" x] by (simp add: t(8))
    moreover have "se_clientID (hp_session t i) = se_clientID (hp_session s i)"
      by (simp add: t(5) c(2))
    ultimately show "free_for t i q"
      using q(3) by (simp add: free_for_def)
  qed
qed

section \<open>A client that comes back\<close>

text \<open>A list of registrations under free names and ports: all of them succeed.\<close>

definition ok_replies :: "NewProxyResp list \<Rightarrow> bool" where
  "ok_replies rs \<longleftrightarrow> (\<forall>r \<in> set rs. nr_OK r)"

lemma ok_replies_simps [simp]:
  "ok_replies []" "ok_replies (r # rs) \<longleftrightarrow> nr_OK r \<and> ok_replies rs"
  "ok_replies (rs @ rs') \<longleftrightarrow> ok_replies rs \<and> ok_replies rs'"
  by (auto simp: ok_replies_def)

definition all_bound :: "request list \<Rightarrow> bool" where
  "all_bound xs \<longleftrightarrow> (\<forall>(t, r, bind) \<in> set xs. bind = None)"

lemma all_bound_Cons [simp]: "all_bound ((t, r, bind) # xs) \<longleftrightarrow> bind = None \<and> all_bound xs"
  by (auto simp: all_bound_def)

definition good_proxy :: "Server \<Rightarrow> ProxyCfg \<Rightarrow> bool" where
  "good_proxy s p \<longleftrightarrow> tcp_fixed p \<and> portAllowed s (pc_RemotePort p)"

lemma good_proxy_ranges: "sv_ranges t = sv_ranges s \<Longrightarrow> good_proxy t p = good_proxy s p"
  by (simp add: good_proxy_def portAllowed_def)

lemma okResp_OK [simp]: "nr_OK (okResp np port)" "nr_RemotePort (okResp np port) = port"
  by (simp_all add: okResp_def)

text \<open>
  The first loop of \<^verbatim>\<open>Reload\<close>: \<open>ns\<close> are the names still to come. What the session serves
  under a name is the old proxy until the name has been visited and the new one after that.
\<close>

definition reload_state ::
    "Server \<Rightarrow> sid \<Rightarrow> (gostring \<rightharpoonup> ProxyCfg) \<Rightarrow> (gostring \<rightharpoonup> ProxyCfg) \<Rightarrow> gostring set \<Rightarrow> bool" where
  "reload_state s i oldM newM N \<longleftrightarrow>
     reg_inv s \<and> i < nx_sid s \<and>
     dom (se_proxies (hp_session s i)) = dom oldM \<union> (dom newM - N) \<and>
     (\<forall>n p. n \<notin> N \<longrightarrow> newM n = Some p \<longrightarrow> serves s i p) \<and>
     (\<forall>n p. n \<in> N \<longrightarrow> oldM n = Some p \<longrightarrow> serves s i p) \<and>
     (\<forall>n p. n \<in> N \<longrightarrow> newM n = Some p \<longrightarrow>
        (\<forall>q. oldM n = Some q \<longrightarrow> \<not> proxyEqual q p) \<longrightarrow> free_for s i p)"

definition keyed :: "(gostring \<rightharpoonup> ProxyCfg) \<Rightarrow> bool" where
  "keyed m \<longleftrightarrow> (\<forall>n p. m n = Some p \<longrightarrow> pc_Name p = n)"

definition ports_distinct :: "(gostring \<rightharpoonup> ProxyCfg) \<Rightarrow> bool" where
  "ports_distinct m \<longleftrightarrow> (\<forall>n n' p p'. m n = Some p \<longrightarrow> m n' = Some p' \<longrightarrow>
     pc_RemotePort p = pc_RemotePort p' \<longrightarrow> n = n')"

lemma serves_equal: "proxyEqual q p \<Longrightarrow> serves s i q \<Longrightarrow> serves s i p"
  by (simp add: serves_def proxyEqual_def)

text \<open>A name whose proxy is the same in both configurations.\<close>

lemma reload_state_keep:
  assumes "reload_state s i oldM newM (insert n N)" "oldM n = Some q" "newM n = Some p" "proxyEqual q p"
    "n \<notin> N"
  shows "reload_state s i oldM newM N"
proof -
  from assms have "serves s i p" by (auto simp: reload_state_def intro: serves_equal)
  moreover have "dom oldM \<union> (dom newM - insert n N) = dom oldM \<union> (dom newM - N)"
    using assms(2) by auto
  moreover have "serves s i x" if "m \<notin> N" "newM m = Some x" for m x
    using that assms(1,3) \<open>serves s i p\<close> unfolding reload_state_def by (cases "m = n") simp_all
  ultimately show ?thesis using assms(1) unfolding reload_state_def by simp
qed

text \<open>A name whose proxy is new or has changed.\<close>

lemma reload_state_replace:
  assumes st: "reload_state s i oldM newM (insert n N)" and p: "newM n = Some p" "good_proxy s p"
    and ch: "\<forall>q. oldM n = Some q \<longrightarrow> \<not> proxyEqual q p" and n: "n \<notin> N"
    and k: "keyed oldM" "keyed newM" "ports_distinct newM"
  obtains t where
    "registerProxy u (closeProxy s i n) i (newProxyMsg p r) None = (okResp (newProxyMsg p r) (pc_RemotePort p), t)"
    "reload_state t i oldM newM N" "sv_ranges t = sv_ranges s"
proof -
  from p(1) k(2) have name: "pc_Name p = n" by (simp add: keyed_def)
  from st p ch have s: "reg_inv s" "i < nx_sid s" "free_for s i p"
    by (auto simp: reload_state_def)
  from p(2) have g: "tcp_fixed p" "portAllowed s (pc_RemotePort p)" by (simp_all add: good_proxy_def)
  obtain t where t:
    "registerProxy u (closeProxy s i n) i (newProxyMsg p r) None = (okResp (newProxyMsg p r) (pc_RemotePort p), t)"
    "reg_inv t" "nx_sid t = nx_sid s" "sv_ranges t = sv_ranges s" "serves t i p"
    "dom (se_proxies (hp_session t i)) = insert n (dom (se_proxies (hp_session s i)))"
    "\<And>q. pc_Name q \<noteq> n \<Longrightarrow> serves s i q \<Longrightarrow> serves t i q"
    "\<And>q. pc_Name q \<noteq> n \<Longrightarrow> pc_RemotePort q \<noteq> pc_RemotePort p \<Longrightarrow> free_for s i q \<Longrightarrow> free_for t i q"
    by (rule replace_step [OF s(1,2) g s(3), where u = u and r = r, unfolded name]) blast
  have "reload_state t i oldM newM N"
    unfolding reload_state_def
  proof (intro conjI allI impI)
    show "reg_inv t" "i < nx_sid t" using t(2,3) s(2) by simp_all
    show "dom (se_proxies (hp_session t i)) = dom oldM \<union> (dom newM - N)"
      using st p(1) n unfolding t(6) reload_state_def by auto
  next
    fix m q assume m: "m \<notin> N" "newM m = Some q"
    show "serves t i q"
    proof (cases "m = n")
      case True
      with m p t(5) show ?thesis by simp
    next
      case False
      with m k(2) st show ?thesis by (intro t(7)) (auto simp: keyed_def reload_state_def)
    qed
  next
    fix m q assume m: "m \<in> N" "oldM m = Some q"
    with n k(1) st show "serves t i q" by (intro t(7)) (auto simp: keyed_def reload_state_def)
  next
    fix m q assume m: "m \<in> N" "newM m = Some q" "\<forall>x. oldM m = Some x \<longrightarrow> \<not> proxyEqual x q"
    with n have "m \<noteq> n" by auto
    then have "pc_RemotePort q \<noteq> pc_RemotePort p"
      using m(2) p(1) k(3) unfolding ports_distinct_def by metis
    moreover have "pc_Name q \<noteq> n" using m(2) k(2) \<open>m \<noteq> n\<close> by (auto simp: keyed_def)
    moreover have "free_for s i q" using st m unfolding reload_state_def by blast
    ultimately show "free_for t i q" by (intro t(8))
  qed
  from that [OF t(1) this t(4)] show ?thesis .
qed

text \<open>The whole first loop.\<close>

lemma newTasks_serve:
  assumes "reload_state s i oldM newM (set ns)" "distinct ns" "set ns \<subseteq> dom newM"
    and "map fst xs = newTasks oldM newM ns" "all_bound xs"
    and "\<forall>p \<in> ran newM. good_proxy s p" "keyed oldM" "keyed newM" "ports_distinct newM"
  shows "reload_state (snd (serveTasks u i xs s)) i oldM newM {} \<and>
    ok_replies (fst (serveTasks u i xs s))"
  using assms
proof (induction ns arbitrary: s xs)
  case (Cons n ns)
  from Cons.prems(3) obtain p where p: "newM n = Some p" by auto
  with Cons.prems(6) have gp: "good_proxy s p" by (auto intro: ranI)
  from p Cons.prems(8) have name: "pc_Name p = n" by (simp add: keyed_def)
  from Cons.prems(1) have st: "reload_state s i oldM newM (insert n (set ns))" by simp
  from Cons.prems(2) have n: "n \<notin> set ns" by simp
  show ?case
  proof (cases "\<exists>q. oldM n = Some q \<and> proxyEqual q p")
    case True
    then obtain q where q: "oldM n = Some q" "proxyEqual q p" by blast
    from reload_state_keep [OF st q(1) p q(2) n] have "reload_state s i oldM newM (set ns)" .
    moreover have "map fst xs = newTasks oldM newM ns" using Cons.prems(4) p q by simp
    ultimately show ?thesis using Cons.prems by (intro Cons.IH) auto
  next
    case False
    then have ch: "\<forall>q. oldM n = Some q \<longrightarrow> \<not> proxyEqual q p" by blast
    have step: "\<exists>ys r t. serveTasks u i xs s =
        (okResp (newProxyMsg p r) (pc_RemotePort p) # fst (serveTasks u i ys t), snd (serveTasks u i ys t)) \<and>
        map fst ys = newTasks oldM newM ns \<and> all_bound ys \<and>
        reload_state t i oldM newM (set ns) \<and> sv_ranges t = sv_ranges s"
    proof (cases "oldM n")
      case None
      with Cons.prems(4) p obtain r b ys where xs: "xs = (TRegister p, r, b) # ys"
        "map fst ys = newTasks oldM newM ns" by (cases xs) auto
      from st have "dom (se_proxies (hp_session s i)) = dom oldM \<union> (dom newM - insert n (set ns))"
        by (simp add: reload_state_def)
      with None have "n \<notin> dom (se_proxies (hp_session s i))" by auto
      then have "se_proxies (hp_session s i) n = None" by (simp add: domIff)
      then have c: "closeProxy s i n = s" by (simp add: closeProxy_def)
      obtain t where t: "registerProxy u (closeProxy s i n) i (newProxyMsg p r) None =
          (okResp (newProxyMsg p r) (pc_RemotePort p), t)"
        "reload_state t i oldM newM (set ns)" "sv_ranges t = sv_ranges s"
        by (rule reload_state_replace [OF st p gp ch n Cons.prems(7-9), of u r])
      with xs c Cons.prems(5) show ?thesis
        by (intro exI [of _ ys] exI [of _ r] exI [of _ t]) (auto split: prod.splits)
    next
      case (Some q)
      with ch have "\<not> proxyEqual q p" by simp
      with Some Cons.prems(4) p obtain r r' b b' ys where
        xs: "xs = (TClose n, r', b') # (TRegister p, r, b) # ys" "map fst ys = newTasks oldM newM ns"
        by (cases xs; cases "tl xs") auto
      obtain t where t: "registerProxy u (closeProxy s i n) i (newProxyMsg p r) None =
          (okResp (newProxyMsg p r) (pc_RemotePort p), t)"
        "reload_state t i oldM newM (set ns)" "sv_ranges t = sv_ranges s"
        by (rule reload_state_replace [OF st p gp ch n Cons.prems(7-9), of u r])
      with xs Cons.prems(5) show ?thesis
        by (intro exI [of _ ys] exI [of _ r] exI [of _ t]) (auto split: prod.splits)
    qed
    then obtain ys r t where y: "serveTasks u i xs s =
        (okResp (newProxyMsg p r) (pc_RemotePort p) # fst (serveTasks u i ys t), snd (serveTasks u i ys t))"
      "map fst ys = newTasks oldM newM ns" "all_bound ys" "reload_state t i oldM newM (set ns)"
      "sv_ranges t = sv_ranges s" by blast
    have "reload_state (snd (serveTasks u i ys t)) i oldM newM {} \<and> ok_replies (fst (serveTasks u i ys t))"
      by (rule Cons.IH [OF y(4) _ _ y(2,3)])
        (use Cons.prems good_proxy_ranges [OF y(5)] in auto)
    then show ?thesis by (simp add: y(1))
  qed
qed simp

text \<open>The second loop only takes away what the new configuration does not have.\<close>

lemma serves_close:
  assumes "reg_inv s" "serves s i p" "pc_Name p \<noteq> n"
  shows "serves (closeProxy s i n) i p"
proof -
  note c = closeProxy_effect [OF assms(1), of i n]
  from assms(2) obtain x where x: "se_proxies (hp_session s i) (pc_Name p) = Some x"
    "sv_byPort s (pc_RemotePort p) = Some x" "px_typ (hp_proxy s x) = ''tcp''"
    "px_local (hp_proxy s x) = pc_Local p" "px_remotePort (hp_proxy s x) = pc_RemotePort p"
    by (auto simp: serves_def)
  have "se_proxies (hp_session s i) n \<noteq> Some x"
    using owned_registered [OF assms(1) x(1)] owned_registered [OF assms(1), of i n x] assms(3) by auto
  with x assms(3) show ?thesis by (auto simp: serves_def c)
qed

lemma oldTasks_serve:
  assumes "reg_inv s" "map fst xs = oldTasks newM ns" "keyed newM" "\<forall>n p. newM n = Some p \<longrightarrow> serves s i p"
  shows "reg_inv (snd (serveTasks u i xs s)) \<and>
    (\<forall>n p. newM n = Some p \<longrightarrow> serves (snd (serveTasks u i xs s)) i p) \<and>
    dom (se_proxies (hp_session (snd (serveTasks u i xs s)) i)) =
      dom (se_proxies (hp_session s i)) - (set ns - dom newM) \<and>
    fst (serveTasks u i xs s) = []"
  using assms(1,2,4)
proof (induction ns arbitrary: s xs)
  case (Cons n ns)
  show ?case
  proof (cases "newM n = None")
    case True
    with Cons.prems(2) obtain r b ys where xs: "xs = (TClose n, r, b) # ys" "map fst ys = oldTasks newM ns"
      by (cases xs) auto
    let ?s = "closeProxy s i n"
    have "\<forall>m p. newM m = Some p \<longrightarrow> serves ?s i p"
    proof (intro allI impI)
      fix m p assume "newM m = Some p"
      with Cons.prems(3) True assms(3) show "serves ?s i p"
        by (intro serves_close [OF Cons.prems(1)]) (auto simp: keyed_def)
    qed
    note IH = Cons.IH [OF closeProxy_inv [OF Cons.prems(1)] xs(2) this]
    have "dom (se_proxies (hp_session ?s i)) - (set ns - dom newM) =
        dom (se_proxies (hp_session s i)) - (set (n # ns) - dom newM)"
      unfolding closeProxy_effect(1) [OF Cons.prems(1)] dom_fun_upd using True by auto
    with IH show ?thesis by (simp add: xs(1) split: prod.splits)
  next
    case False
    then have e: "map fst xs = oldTasks newM ns" "set (n # ns) - dom newM = set ns - dom newM"
      using Cons.prems(2) by auto
    from Cons.IH [OF Cons.prems(1) e(1) Cons.prems(3)] e(2) show ?thesis by simp
  qed
qed simp

text \<open>
  A session serves a configuration: exactly its proxies, each on its port.
\<close>

definition serves_config :: "Server \<Rightarrow> sid \<Rightarrow> (gostring \<rightharpoonup> ProxyCfg) \<Rightarrow> bool" where
  "serves_config s i m \<longleftrightarrow>
     dom (se_proxies (hp_session s i)) = dom m \<and> (\<forall>n p. m n = Some p \<longrightarrow> serves s i p)"

text \<open>A served proxy is on an allowed port, and two names are never on the same one.\<close>

lemma served_port:
  assumes "reg_inv s" "serves_config s i m" "keyed m" "m n = Some p"
  shows "pc_Name p = n \<and> (pc_RemotePort p \<noteq> 0 \<longrightarrow> portAllowed s (pc_RemotePort p)) \<and>
    (\<exists>q. se_proxies (hp_session s i) n = Some q \<and> sv_byPort s (pc_RemotePort p) = Some q)"
proof -
  from assms(2-4) have n: "pc_Name p = n" and "serves s i p" by (auto simp: serves_config_def keyed_def)
  then obtain q where q: "se_proxies (hp_session s i) n = Some q"
    "sv_byPort s (pc_RemotePort p) = Some q" "px_remotePort (hp_proxy s q) = pc_RemotePort p"
    by (auto simp: serves_def)
  with owned_registered [OF assms(1) q(1)] assms(1) n show ?thesis
    by (auto simp: reg_inv_def inv_ports_def)
qed

lemma served_once:
  "reg_inv s \<Longrightarrow> se_proxies (hp_session s i) n = Some q \<Longrightarrow> se_proxies (hp_session s i) n' = Some q \<Longrightarrow> n = n'"
  by (auto simp: reg_inv_def inv_owner_def)

lemma map_fst_append:
  "map fst xs = as @ bs \<Longrightarrow> \<exists>ys zs. xs = ys @ zs \<and> map fst ys = as \<and> map fst zs = bs"
  by (metis append_eq_map_conv)

lemma all_bound_append [simp]: "all_bound (xs @ ys) \<longleftrightarrow> all_bound xs \<and> all_bound ys"
  unfolding all_bound_def by (simp only: set_append ball_Un)

lemma reload_serves:
  assumes s: "reg_inv s" "i < nx_sid s" "serves_config s i oldM"
    and o: "lists_map ns newM" "lists_map os oldM"
    and xs: "map fst xs = reloadTasks oldM newM ns os" "all_bound xs"
    and m: "keyed oldM" "keyed newM" "ports_distinct newM" "\<forall>p \<in> ran newM. good_proxy s p"
    and free: "\<And>n p. newM n = Some p \<Longrightarrow> (\<forall>q. oldM n = Some q \<longrightarrow> \<not> proxyEqual q p) \<Longrightarrow> free_for s i p"
  shows "serves_config (snd (serveTasks u i xs s)) i newM \<and> ok_replies (fst (serveTasks u i xs s)) \<and>
    reg_inv (snd (serveTasks u i xs s))"
proof -
  from map_fst_append [OF xs(1) [unfolded reloadTasks_def]] obtain ys zs where
    yz: "xs = ys @ zs" "map fst ys = newTasks oldM newM ns" "map fst zs = oldTasks newM os" by blast
  let ?t = "snd (serveTasks u i ys s)"
  have "reload_state s i oldM newM (set ns)"
    using s o free by (auto simp: reload_state_def serves_config_def lists_map_def)
  then have t: "reload_state ?t i oldM newM {}" "ok_replies (fst (serveTasks u i ys s))"
    using newTasks_serve [of s i oldM newM ns ys u] o xs(2) yz(1,2) m by (auto simp: lists_map_def)
  then have t': "reg_inv ?t" "\<forall>n p. newM n = Some p \<longrightarrow> serves ?t i p"
    "dom (se_proxies (hp_session ?t i)) = dom oldM \<union> dom newM"
    by (auto simp: reload_state_def)
  have "dom oldM \<union> dom newM - (set os - dom newM) = dom newM"
    using o(2) by (auto simp: lists_map_def)
  with oldTasks_serve [OF t'(1) yz(3) m(2) t'(2), of u] t(2) t'(3) show ?thesis
    by (cases "serveTasks u i ys s"; cases "serveTasks u i zs (snd (serveTasks u i ys s))")
      (simp add: yz(1) serveTasks_append serves_config_def)
qed

text \<open>
  The order matters when a port moves from one name to another: the registration comes before the
  old proxy is closed, is refused, and nothing asks again.
\<close>

lemma register_in_use:
  assumes "tcp_fixed p" "portAllowed s (pc_RemotePort p)"
    "sv_proxies s (proxyKey (se_clientID (hp_session s i)) (pc_Name p)) = None"
    "sv_byPort s (pc_RemotePort p) = Some q"
  shows "registerProxy u s i (newProxyMsg p r) b = (errResp (newProxyMsg p r) (PORT_IN_USE (pc_RemotePort p)), s)"
  using assms
  by (auto simp: registerProxy_def registerTCPProxy_def newProxyMsg_def tcp_fixed_def Let_def)

lemma reload_moves_port:
  assumes s: "reg_inv s" "serves s i po"
    and old: "oldM = [pc_Name po \<mapsto> po]" and new: "newM = [pc_Name pn \<mapsto> pn]"
    and n: "pc_Name pn \<noteq> pc_Name po" "pc_RemotePort pn = pc_RemotePort po" "good_proxy s pn"
    and k: "sv_proxies s (proxyKey (se_clientID (hp_session s i)) (pc_Name pn)) = None"
      "se_proxies (hp_session s i) (pc_Name pn) = None"
    and xs: "map fst xs = reloadTasks oldM newM [pc_Name pn] [pc_Name po]"
  shows "\<exists>r. fst (serveTasks u i xs s) = [errResp (newProxyMsg pn r) (PORT_IN_USE (pc_RemotePort pn))] \<and>
    se_proxies (hp_session (snd (serveTasks u i xs s)) i) (pc_Name pn) = None \<and>
    se_proxies (hp_session (snd (serveTasks u i xs s)) i) (pc_Name po) = None \<and>
    sv_byPort (snd (serveTasks u i xs s)) (pc_RemotePort pn) = None"
proof -
  from xs old new n(1) obtain r b r' b' where x: "xs = [(TRegister pn, r, b), (TClose (pc_Name po), r', b')]"
    by (cases xs; cases "tl xs") (auto simp: reloadTasks_def)
  from s(2) obtain q where q: "se_proxies (hp_session s i) (pc_Name po) = Some q"
    "sv_byPort s (pc_RemotePort po) = Some q" by (auto simp: serves_def)
  with n k have r: "registerProxy u s i (newProxyMsg pn r) b =
      (errResp (newProxyMsg pn r) (PORT_IN_USE (pc_RemotePort pn)), s)"
    by (intro register_in_use) (auto simp: good_proxy_def)
  note c = closeProxy_effect [OF s(1), of i "pc_Name po"]
  have "sv_byPort (closeProxy s i (pc_Name po)) (pc_RemotePort pn) \<noteq> Some y" for y
    using q n(2) by (auto simp: c(4))
  then have "sv_byPort (closeProxy s i (pc_Name po)) (pc_RemotePort pn) = None"
    by (cases "sv_byPort (closeProxy s i (pc_Name po)) (pc_RemotePort pn)") auto
  with k(2) show ?thesis by (intro exI [of _ r]) (simp add: x r c(1))
qed

section \<open>Coming back after a lost connection\<close>

text \<open>
  All registrations of a fresh session, in any order: each proxy gets the port it asks for.
\<close>

lemma register_all:
  assumes s: "reg_inv s" "i < nx_sid s" "se_proxies (hp_session s i) = Map.empty"
    and o: "lists_map ns m" and xs: "map fst xs = map TRegister (List.map_filter m ns)" "all_bound xs"
    and m: "keyed m" "ports_distinct m" "\<forall>p \<in> ran m. good_proxy s p"
    and free: "\<And>n p. m n = Some p \<Longrightarrow> free_for s i p"
  shows "serves_config (snd (serveTasks u i xs s)) i m \<and> ok_replies (fst (serveTasks u i xs s)) \<and>
    reg_inv (snd (serveTasks u i xs s))"
proof (rule reload_serves [OF s(1,2) _ o, where oldM = Map.empty and os = "[]"])
  show "serves_config s i Map.empty" using s(3) by (simp add: serves_config_def)
  show "map fst xs = reloadTasks Map.empty m ns []"
  proof -
    have "newTasks Map.empty m ns = map TRegister (List.map_filter m ns)"
      by (induction ns) (auto simp: List.map_filter_simps split: option.splits)
    with xs(1) show ?thesis by (simp add: reloadTasks_def)
  qed
qed (use xs m free in \<open>auto simp: lists_map_def keyed_def\<close>)

text \<open>The session a login opens is empty, and the rest of the registry is the old one, shrunk.\<close>

lemma CloseSession_ranges: "sv_ranges (CloseSession ord s i) = sv_ranges s"
  by (simp add: CloseSession_def Let_def dropSession_frame)

lemma login_opens:
  assumes inv: "reg_inv s" and l: "login s conn lg ra now ok ord = (Some i, t)"
    and cov: "\<And>j. sv_sessions s (lg_ClientID lg) = Some j \<Longrightarrow> covers ord s j"
  shows "nx_sid t = Suc (nx_sid s)" "sv_ranges t = sv_ranges s"
    and "se_clientID (hp_session t i) = lg_ClientID lg"
    and "px_session (hp_proxy t p) = px_session (hp_proxy s p)"
      "px_remotePort (hp_proxy t p) = px_remotePort (hp_proxy s p)"
      "pkey (hp_proxy t p) = pkey (hp_proxy s p)"
proof -
  let ?c = "lg_ClientID lg" and ?a = "admitted s conn lg ra now"
  define s2 where "s2 = (case sv_sessions s ?c of None \<Rightarrow> ?a | Some j \<Rightarrow> CloseSession ord ?a j)"
  from l have i: "i = nx_sid s" and t: "t = snd (sendMsg True i (loginOK now) s2)"
    by (auto simp: login_spec Let_def s2_def loginFail_def split: if_splits)
  have a: "nx_sid ?a = Suc (nx_sid s)" "sv_ranges ?a = sv_ranges s" "hp_proxy ?a = hp_proxy s"
    "se_clientID (hp_session ?a i) = ?c"
    by (simp_all add: admitted_def newSession_def i)
  have "nx_sid s2 = Suc (nx_sid s) \<and> sv_ranges s2 = sv_ranges s \<and> se_clientID (hp_session s2 i) = ?c \<and>
    (hp_proxy s2 p = hp_proxy s p \<or> hp_proxy s2 p = (hp_proxy s p)\<lparr>px_visitors := []\<rparr>)"
  proof (cases "sv_sessions s ?c")
    case None
    with a show ?thesis by (simp add: s2_def)
  next
    case (Some k)
    from inv Some have k: "k < nx_sid s" "\<not> se_closed (hp_session s k)"
      by (auto simp: reg_inv_def inv_sessions_def)
    then have o: "\<not> se_closed (hp_session ?a k)" "covers ord ?a k"
      using cov [OF Some] by (auto simp: admitted_def covers_def)
    note cl = CloseSession_releases [OF admitted_inv [OF inv] o]
    show ?thesis using a by (auto simp: s2_def Some cl CloseSession_ranges)
  qed
  then show "nx_sid t = Suc (nx_sid s)" "sv_ranges t = sv_ranges s"
    "se_clientID (hp_session t i) = ?c"
    "px_session (hp_proxy t p) = px_session (hp_proxy s p)"
    "px_remotePort (hp_proxy t p) = px_remotePort (hp_proxy s p)"
    "pkey (hp_proxy t p) = pkey (hp_proxy s p)"
    by (auto simp: t sendMsg_def pkey_def)
qed

text \<open>
  The ports and names a session served are free for the session that replaces it.
\<close>

lemma login_frees:
  assumes inv: "reg_inv s" and l: "login s conn lg ra now ok ord = (Some i, t)"
    and old: "sv_sessions s (lg_ClientID lg) = Some j" and cov: "covers ord s j"
    and m: "serves_config s j m" "keyed m"
  shows "reg_inv t" "i < nx_sid t" "se_proxies (hp_session t i) = Map.empty"
    and "m n = Some p \<Longrightarrow> free_for t i p"
proof -
  have cov': "\<And>k. sv_sessions s (lg_ClientID lg) = Some k \<Longrightarrow> covers ord s k"
    using old cov by simp
  note ls = login_success [OF inv l cov'] and lo = login_opens [OF inv l cov']
  show it: "reg_inv t" using login_inv [OF inv, of conn lg ra now ok ord] l by simp
  show "i < nx_sid t" using ls(1) lo(1) by simp
  have reg: "registered t q \<Longrightarrow> registered s q \<and> px_session (hp_proxy s q) \<noteq> j" for q
    using ls(5) [of q] old by simp
  show e: "se_proxies (hp_session t i) = Map.empty"
  proof
    fix k show "se_proxies (hp_session t i) k = None"
    proof (cases "se_proxies (hp_session t i) k")
      case (Some q)
      from owned_registered [OF it Some] have "registered t q" "px_session (hp_proxy t q) = i" by simp_all
      moreover from this reg have "px_session (hp_proxy s q) < nx_sid s"
        using inv registered_owner [of s q] by (simp add: reg_inv_def)
      ultimately show ?thesis using ls(1) lo(4) [of q] by simp
    qed
  qed
  assume mp: "m n = Some p"
  with m have sp: "serves s j p" and name: "pc_Name p = n" by (auto simp: serves_config_def keyed_def)
  from sp name obtain q where q: "se_proxies (hp_session s j) n = Some q"
    "sv_byPort s (pc_RemotePort p) = Some q" "px_remotePort (hp_proxy s q) = pc_RemotePort p"
    by (auto simp: serves_def)
  from owned_registered [OF inv q(1)] have o: "registered s q" "px_session (hp_proxy s q) = j"
    "px_name (hp_proxy s q) = n" by auto
  have np: "sv_byPort t (pc_RemotePort p) \<noteq> Some x" for x
  proof
    assume "sv_byPort t (pc_RemotePort p) = Some x"
    with it have x: "registered t x" "px_remotePort (hp_proxy t x) = pc_RemotePort p" "pc_RemotePort p \<noteq> 0"
      by (auto simp: reg_inv_def inv_ports_def)
    with reg [OF x(1)] lo(5) [of x] inv have "sv_byPort s (pc_RemotePort p) = Some x"
      by (simp add: reg_inv_def inv_ports_def)
    with q(2) o(2) reg [OF x(1)] show False by simp
  qed
  have "se_clientID (hp_session s j) = px_clientID (hp_proxy s q)"
    using inv registered_owner [OF _ o(1)] o(2) by (simp add: reg_inv_def)
  moreover have "se_clientID (hp_session s j) = lg_ClientID lg"
    using inv old by (simp add: reg_inv_def inv_sessions_def)
  ultimately have key: "pkey (hp_proxy s q) = proxyKey (se_clientID (hp_session t i)) n"
    using o(3) lo(3) by (simp add: pkey_def)
  have nk: "sv_proxies t (proxyKey (se_clientID (hp_session t i)) n) \<noteq> Some x" for x
  proof
    assume a: "sv_proxies t (proxyKey (se_clientID (hp_session t i)) n) = Some x"
    with it have "proxyKey (se_clientID (hp_session t i)) n = pkey (hp_proxy t x)"
      by (simp add: reg_inv_def inv_keys_def)
    with a have r: "registered t x" and k: "pkey (hp_proxy s x) = pkey (hp_proxy s q)"
      by (simp_all add: registered_def key lo(6))
    from reg [OF r] have "sv_proxies s (pkey (hp_proxy s x)) = Some x" by (simp add: registered_def)
    moreover from o(1) have "sv_proxies s (pkey (hp_proxy s q)) = Some q" by (simp add: registered_def)
    ultimately have "x = q" unfolding k by simp
    with o(2) reg [OF r] show False by simp
  qed
  from np nk name show "free_for t i p" by (simp add: free_for_def)
qed

text \<open>The client's own signature is accepted while the clocks agree within five minutes.\<close>

lemma clientLogin_accepted:
  assumes "cc_ClientID cfg \<noteq> []" "cc_Token cfg = sc_Token (sv_cfg s)"
    and "in_int64 ts" "0 \<le> now" "now < 2 ^ 63" "\<bar>now - ts * Second\<bar> \<le> 5 * Minute"
  shows "loginVerdict s (clientLogin cfg ts) now = None"
proof -
  have "(0::int) \<le> 5 * Minute" "5 * Minute < (2 ^ 62 :: int)" by (simp_all add: Minute_def Second_def)
  note v = VerifyLogin_iff [OF assms(3-5) this]
  have "VerifyLogin (sc_Token (sv_cfg s)) (cc_ClientID cfg) ts
      (HmacLogin (sc_Token (sv_cfg s)) (cc_ClientID cfg) ts) (5 * Minute) now"
    unfolding v using assms(6) by simp
  with assms(1,2) show ?thesis by (simp add: loginVerdict_def clientLogin_def)
qed

lemma login_accepts:
  "loginVerdict s lg now = None \<Longrightarrow> \<exists>t. login s conn lg ra now True ord = (Some (nx_sid s), t)"
  by (simp add: login_split Let_def)

end
