(* ===== verification/Vhost.thy ===== *)
theory Vhost
  imports Session Mux
begin

text \<open>
  \<^verbatim>\<open>internal/server/vhost.go\<close>: the request head of a connection to the HTTP port is read
  for its \<^verbatim>\<open>Host\<close>, the proxy is looked up, and the connection is handed over with the bytes
  already consumed put in front of it. \<open>bufio.Reader\<close> is modelled as the file uses it.
\<close>

section \<open>Buffered reading\<close>

definition newline :: byte where "newline = 10"

definition brSize :: nat where "brSize = 64 * 1024"

text \<open>Buffered bytes, the error that came with the last of them, the underlying reader.\<close>

record 'r bufr =
  br_buf :: bytes
  br_err :: "ioerr option"
  br_src :: 'r

definition newBufr :: "'r \<Rightarrow> 'r bufr" where
  "newBufr r = \<lparr>br_buf = [], br_err = None, br_src = r\<rparr>"

text \<open>The bytes up to and including the first newline.\<close>

fun cutLine :: "bytes \<Rightarrow> (bytes \<times> bytes) option" where
  "cutLine [] = None"
| "cutLine (b # bs) =
     (if b = newline then Some ([b], bs)
      else (case cutLine bs of None \<Rightarrow> None | Some (l, r) \<Rightarrow> Some (b # l, r)))"

text \<open>
  \<^verbatim>\<open>ReadString('\\n')\<close>: a full buffer without a newline is set aside in \<open>acc\<close>; an error is
  returned with what was read before it.
\<close>

partial_function (option) readString ::
  "'r read_fn \<Rightarrow> bytes \<Rightarrow> 'r bufr \<Rightarrow> (bytes \<times> ioerr option \<times> 'r bufr) option" where
  "readString rd acc br =
     (case cutLine (br_buf br) of
        Some (l, r) \<Rightarrow> Some (acc @ l, None, br\<lparr>br_buf := r\<rparr>)
      | None \<Rightarrow>
          (case br_err br of
             Some e \<Rightarrow> Some (acc @ br_buf br, Some e, br\<lparr>br_buf := [], br_err := None\<rparr>)
           | None \<Rightarrow>
               if brSize \<le> length (br_buf br)
               then readString rd (acc @ br_buf br) (br\<lparr>br_buf := []\<rparr>)
               else (case rd (br_src br) (brSize - length (br_buf br)) of (bs, e, src) \<Rightarrow>
                       readString rd acc \<lparr>br_buf = br_buf br @ bs, br_err = e, br_src = src\<rparr>)))"

text \<open>\<^verbatim>\<open>bufio.Reader.Read\<close>: from the buffer, or else one read of the underlying reader.\<close>

definition bufRead :: "'r read_fn \<Rightarrow> 'r bufr read_fn" where
  "bufRead rd br n =
     (if br_buf br \<noteq> [] then (take n (br_buf br), None, br\<lparr>br_buf := drop n (br_buf br)\<rparr>)
      else (case br_err br of
              Some e \<Rightarrow> ([], Some e, br\<lparr>br_err := None\<rparr>)
            | None \<Rightarrow>
                if brSize \<le> n
                then (case rd (br_src br) n of (bs, e, src) \<Rightarrow> (bs, e, br\<lparr>br_src := src\<rparr>))
                else (case rd (br_src br) brSize of (bs, e, src) \<Rightarrow>
                        if bs = [] then ([], e, br\<lparr>br_src := src\<rparr>)
                        else (take n bs, None, \<lparr>br_buf = drop n bs, br_err = e, br_src = src\<rparr>))))"

section \<open>The connection with its head replayed\<close>

record 'r vhostConn =
  vc_br :: "'r bufr"
  vc_head :: bytes

definition vhostRead :: "'r read_fn \<Rightarrow> 'r vhostConn read_fn" where
  "vhostRead rd c n =
     (if 0 < length (vc_head c)
      then (take n (vc_head c), None, c\<lparr>vc_head := drop n (vc_head c)\<rparr>)
      else (case bufRead rd (vc_br c) n of (bs, e, br) \<Rightarrow> (bs, e, c\<lparr>vc_br := br\<rparr>)))"

section \<open>The request head\<close>

datatype vhost_head = HeadClosed | HeadBad | HeadHost gostring bytes

definition headLimit :: nat where "headLimit = 16 * 1024"

partial_function (option) headerLoop ::
  "(gostring \<Rightarrow> gostring) \<Rightarrow> 'r read_fn \<Rightarrow> bytes \<Rightarrow> gostring \<Rightarrow> 'r bufr \<Rightarrow> (vhost_head \<times> 'r bufr) option" where
  "headerLoop ucase rd head host br =
     (case readString rd [] br of
        None \<Rightarrow> None
      | Some (hl, Some e, br1) \<Rightarrow> Some (HeadClosed, br1)
      | Some (hl, None, br1) \<Rightarrow>
          let head1 = head @ hl; s = string_of_bytes hl in
          if s = [CHR 0x0D, CHR 0x0A] \<or> s = [CHR 0x0A]
          then Some (if host = [] then HeadBad else HeadHost host head1, br1)
          else if headLimit < length head1 then Some (HeadClosed, br1)
          else headerLoop ucase rd head1
                 (if HasPrefix (ToLower ucase s) ''host:'' then TrimSpace (drop 5 s) else host) br1)"

definition readHead ::
    "(gostring \<Rightarrow> gostring) \<Rightarrow> 'r read_fn \<Rightarrow> 'r \<Rightarrow> (vhost_head \<times> 'r bufr) option" where
  "readHead ucase rd r =
     (case readString rd [] (newBufr r) of
        None \<Rightarrow> None
      | Some (line, Some e, br) \<Rightarrow> Some (HeadClosed, br)
      | Some (line, None, br) \<Rightarrow>
          if length (Fields (string_of_bytes line)) < 2 then Some (HeadBad, br)
          else headerLoop ucase rd line [] br)"

section \<open>Routing\<close>

definition lookupVhost :: "Server \<Rightarrow> gostring \<Rightarrow> pid option" where
  "lookupVhost s host = sv_vhost s host"

definition routeKey :: "(gostring \<Rightarrow> gostring) \<Rightarrow> gostring \<Rightarrow> gostring" where
  "routeKey ucase host =
     (let h = ToLower ucase host in
      case IndexByte h (CHR '':'') of None \<Rightarrow> h | Some i \<Rightarrow> take i h)"

definition crlf :: gostring where "crlf = [CHR 0x0D, CHR 0x0A]"

definition vhostReply :: "nat \<Rightarrow> gostring \<Rightarrow> gostring" where
  "vhostReply code txt =
     (let body = showNat code @ '' '' @ txt in
      ''HTTP/1.1 '' @ showNat code @ '' '' @ txt @ crlf @ ''Content-Length: '' @ showNat (length body) @
      crlf @ ''Connection: close'' @ crlf @ crlf @ body)"

datatype 'r vhost_result =
    VhostClosed
  | VhostReplied gostring
  | VhostDelivered pid "'r vhostConn"
  | VhostRefused pid

text \<open>
  \<^verbatim>\<open>handleVhostConn\<close> for connection \<open>c\<close>: \<open>ok\<close> is the outcome of the notification. The result
  says what became of the connection.
\<close>

definition handleVhostConn ::
    "(gostring \<Rightarrow> gostring) \<Rightarrow> 'r read_fn \<Rightarrow> Server \<Rightarrow> cid \<Rightarrow> 'r \<Rightarrow> bool \<Rightarrow>
     ('r vhost_result \<times> Server) option" where
  "handleVhostConn ucase rd s c r ok =
     (case readHead ucase rd r of
        None \<Rightarrow> None
      | Some (HeadClosed, br) \<Rightarrow> Some (VhostClosed, closeConn c s)
      | Some (HeadBad, br) \<Rightarrow> Some (VhostReplied (vhostReply 400 ''Bad Request''), closeConn c s)
      | Some (HeadHost host head, br) \<Rightarrow>
          (case lookupVhost s (routeKey ucase host) of
             None \<Rightarrow> Some (VhostReplied (vhostReply 404 ''Not Found''), closeConn c s)
           | Some p \<Rightarrow>
               (case deliverVisitor s p c ok of
                  (True, s1) \<Rightarrow> Some (VhostDelivered p \<lparr>vc_br = br, vc_head = head\<rparr>, s1)
                | (False, s1) \<Rightarrow> Some (VhostRefused p, closeConn c s1))))"

section \<open>What is read\<close>

lemma cutLine_Some:
  "cutLine bs = Some (l, r) \<Longrightarrow> bs = l @ r \<and> l \<noteq> [] \<and> last l = newline \<and> newline \<notin> set (butlast l)"
  by (induction bs arbitrary: l r) (auto split: if_splits option.splits)

lemma cutLine_None: "cutLine bs = None \<longleftrightarrow> newline \<notin> set bs"
  by (induction bs) (auto split: option.splits)

lemma cutLine_append: "newline \<notin> set l \<Longrightarrow> cutLine (l @ newline # r) = Some (l @ [newline], r)"
  by (induction l) auto

lemma cutLine_extend: "cutLine bs = Some (l, r) \<Longrightarrow> cutLine (bs @ x) = Some (l, r @ x)"
  by (induction bs arbitrary: l r) (auto split: if_splits option.splits)

lemma cutLine_skip:
  "newline \<notin> set bs \<Longrightarrow>
     cutLine (bs @ x) = (case cutLine x of None \<Rightarrow> None | Some (l, r) \<Rightarrow> Some (bs @ l, r))"
  by (induction bs) (auto split: option.splits)

lemma cutLine_shorter: "cutLine bs = Some (l, r) \<Longrightarrow> length r < length bs"
  using cutLine_Some [of bs l r] by (cases l) auto

text \<open>
  The reference: what the head of a byte sequence says, as a function of the bytes alone, and what
  follows the head.
\<close>

function scanHead ::
  "(gostring \<Rightarrow> gostring) \<Rightarrow> bytes \<Rightarrow> gostring \<Rightarrow> bytes \<Rightarrow> vhost_head" where
  "scanHead ucase head host s =
     (case cutLine s of
        None \<Rightarrow> HeadClosed
      | Some (hl, r) \<Rightarrow>
          let head1 = head @ hl; t = string_of_bytes hl in
          if t = [CHR 0x0D, CHR 0x0A] \<or> t = [CHR 0x0A]
          then if host = [] then HeadBad else HeadHost host head1
          else if headLimit < length head1 then HeadClosed
          else scanHead ucase head1
                 (if HasPrefix (ToLower ucase t) ''host:'' then TrimSpace (drop 5 t) else host) r)"
  by pat_completeness auto
termination
  by (relation "measure (\<lambda>(ucase, head, host, s). length s)") (auto dest: cutLine_shorter)

declare scanHead.simps [simp del]

definition parseHead :: "(gostring \<Rightarrow> gostring) \<Rightarrow> bytes \<Rightarrow> vhost_head" where
  "parseHead ucase s =
     (case cutLine s of
        None \<Rightarrow> HeadClosed
      | Some (line, r) \<Rightarrow>
          if length (Fields (string_of_bytes line)) < 2 then HeadBad else scanHead ucase line [] r)"

context byte_reader
begin

text \<open>The bytes a buffered reader still has to give.\<close>

definition buf_rest :: "'r bufr \<Rightarrow> bytes" where
  "buf_rest br = br_buf br @ rest (br_src br)"

definition buf_ok :: "'r bufr \<Rightarrow> bool" where
  "buf_ok br \<longleftrightarrow> ok (br_src br) \<and> (\<forall>x. br_err br = Some x \<longrightarrow> rest (br_src br) = [] \<and> x = fin (br_src br))"

definition buf_fin :: "'r bufr \<Rightarrow> ioerr" where
  "buf_fin br = fin (br_src br)"

definition buf_size :: "'r bufr \<Rightarrow> nat" where
  "buf_size br = 2 * length (rest (br_src br)) + length (br_buf br) + (if br_err br = None then 1 else 0)"

definition line_read :: "bytes \<Rightarrow> 'r bufr \<Rightarrow> 'r bufr \<Rightarrow> bool" where
  "line_read acc br br' \<longleftrightarrow>
     (case cutLine (buf_rest br) of
        None \<Rightarrow> readString rd acc br = Some (acc @ buf_rest br, Some (buf_fin br), br')
      | Some (l, r) \<Rightarrow> readString rd acc br = Some (acc @ l, None, br') \<and> buf_ok br' \<and>
          buf_rest br' = r \<and> buf_fin br' = buf_fin br)"

lemma readString_line:
  assumes "buf_ok br"
  shows "\<exists>br'. line_read acc br br'"
  using assms
proof (induction "buf_size br" arbitrary: br acc rule: less_induct)
  case less
  show ?case
  proof (cases "cutLine (br_buf br)")
    case (Some lr)
    obtain l r where lr: "lr = (l, r)" by fastforce
    with Some have "cutLine (buf_rest br) = Some (l, r @ rest (br_src br))"
      by (simp add: buf_rest_def cutLine_extend)
    moreover have "readString rd acc br = Some (acc @ l, None, br\<lparr>br_buf := r\<rparr>)"
      using Some lr by (subst readString.simps) simp
    ultimately show ?thesis using less.prems
      by (auto simp: line_read_def buf_rest_def buf_ok_def buf_fin_def intro!: exI [of _ "br\<lparr>br_buf := r\<rparr>"])
  next
    case None
    then have nl: "newline \<notin> set (br_buf br)" by (simp add: cutLine_None)
    show ?thesis
    proof (cases "br_err br")
      case (Some e)
      with less.prems have "rest (br_src br) = []" "e = fin (br_src br)" by (auto simp: buf_ok_def)
      then show ?thesis using None Some
        by (intro exI [of _ "br\<lparr>br_buf := [], br_err := None\<rparr>"], subst line_read_def, subst readString.simps)
          (simp add: buf_rest_def buf_fin_def)
    next
      case noerr: None
      show ?thesis
      proof (cases "brSize \<le> length (br_buf br)")
        case True
        let ?b = "br\<lparr>br_buf := []\<rparr>"
        have "buf_size ?b < buf_size br" using True by (auto simp: buf_size_def brSize_def)
        moreover have "buf_ok ?b" using less.prems by (simp add: buf_ok_def)
        ultimately obtain br' where br': "line_read (acc @ br_buf br) ?b br'" using less.hyps by blast
        have "readString rd acc br = readString rd (acc @ br_buf br) ?b"
          using None noerr True by (subst readString.simps) simp
        moreover have "cutLine (buf_rest br) = (case cutLine (buf_rest ?b) of None \<Rightarrow> None
            | Some (l, r) \<Rightarrow> Some (br_buf br @ l, r))"
          using nl by (simp add: buf_rest_def cutLine_skip)
        moreover have "buf_rest br = br_buf br @ buf_rest ?b" "buf_fin br = buf_fin ?b"
          by (simp_all add: buf_rest_def buf_fin_def)
        ultimately have "line_read acc br br'" using br'
          by (auto simp: line_read_def split: option.splits)
        then show ?thesis ..
      next
        case False
        then have pos: "0 < brSize - length (br_buf br)" by simp
        have ok: "ok (br_src br)" using less.prems by (simp add: buf_ok_def)
        obtain bs e src where r: "rd (br_src br) (brSize - length (br_buf br)) = (bs, e, src)"
          by (cases "rd (br_src br) (brSize - length (br_buf br))")
        note st = read_step [OF ok pos r]
        let ?b = "\<lparr>br_buf = br_buf br @ bs, br_err = e, br_src = src\<rparr>"
        have okb: "buf_ok ?b" using st read_end [OF ok pos] r by (auto simp: buf_ok_def)
        have "e = None \<Longrightarrow> bs \<noteq> []" using read_progress [OF ok pos] r by simp
        then have "buf_size ?b < buf_size br" using st noerr
          by (cases e; cases bs) (auto simp: buf_size_def)
        from less.hyps [OF this okb] obtain br' where br': "line_read acc ?b br'" by blast
        have eqs: "readString rd acc br = readString rd acc ?b"
          "buf_rest br = buf_rest ?b" "buf_fin br = buf_fin ?b"
          using None noerr False r st by (subst readString.simps, simp_all add: buf_rest_def buf_fin_def)
        have "line_read acc br br'" using br' unfolding line_read_def eqs .
        then show ?thesis ..
      qed
    qed
  qed
qed

text \<open>The header loop returns, and computes the reference from the bytes, however they arrive.\<close>

lemma headerLoop_scan:
  assumes "buf_ok br"
  shows "\<exists>br'. headerLoop ucase rd head host br = Some (scanHead ucase head host (buf_rest br), br') \<and>
    (\<forall>h hd. scanHead ucase head host (buf_rest br) = HeadHost h hd \<longrightarrow>
       hd @ buf_rest br' = head @ buf_rest br \<and> buf_ok br' \<and> buf_fin br' = buf_fin br)"
  using assms
proof (induction "length (buf_rest br)" arbitrary: br head host rule: less_induct)
  case less
  obtain br1 where l: "line_read [] br br1" using readString_line [OF less.prems] by blast
  show ?case
  proof (cases "cutLine (buf_rest br)")
    case None
    with l have "readString rd [] br = Some (buf_rest br, Some (buf_fin br), br1)"
      by (simp add: line_read_def)
    with None show ?thesis
      by (subst headerLoop.simps, subst (1 2) scanHead.simps) simp
  next
    case (Some lr)
    obtain hl r where lr: "lr = (hl, r)" by fastforce
    with l Some have r: "readString rd [] br = Some (hl, None, br1)" and ok1: "buf_ok br1"
      and rest1: "buf_rest br1 = r" and fin1: "buf_fin br1 = buf_fin br" by (auto simp: line_read_def)
    from Some lr have parts: "buf_rest br = hl @ r" using cutLine_Some by blast
    from Some lr have lt: "length (buf_rest br1) < length (buf_rest br)"
      using cutLine_shorter rest1 by blast
    let ?t = "string_of_bytes hl"
    let ?h = "if HasPrefix (ToLower ucase ?t) ''host:'' then TrimSpace (drop 5 ?t) else host"
    from less.hyps [OF lt ok1, of "head @ hl" ?h] obtain br' where
      ih: "headerLoop ucase rd (head @ hl) ?h br1 = Some (scanHead ucase (head @ hl) ?h r, br')"
      "\<forall>h hd. scanHead ucase (head @ hl) ?h r = HeadHost h hd \<longrightarrow>
         hd @ buf_rest br' = (head @ hl) @ r \<and> buf_ok br' \<and> buf_fin br' = buf_fin br1"
      unfolding rest1 by blast
    have sc: "scanHead ucase head host (buf_rest br) =
        (if ?t = [CHR 0x0D, CHR 0x0A] \<or> ?t = [CHR 0x0A]
         then if host = [] then HeadBad else HeadHost host (head @ hl)
         else if headLimit < length (head @ hl) then HeadClosed
         else scanHead ucase (head @ hl) ?h r)"
      by (subst scanHead.simps) (simp add: Some lr Let_def)
    have hl: "headerLoop ucase rd head host br =
        (if ?t = [CHR 0x0D, CHR 0x0A] \<or> ?t = [CHR 0x0A]
         then Some (if host = [] then HeadBad else HeadHost host (head @ hl), br1)
         else if headLimit < length (head @ hl) then Some (HeadClosed, br1)
         else headerLoop ucase rd (head @ hl) ?h br1)"
      by (subst headerLoop.simps) (simp add: r Let_def)
    show ?thesis
      unfolding sc hl using ih ok1 rest1 fin1 parts
      by (cases "?t = [CHR 0x0D, CHR 0x0A] \<or> ?t = [CHR 0x0A]"; cases "headLimit < length (head @ hl)") auto
  qed
qed

lemma readHead_parse:
  assumes "ok r"
  shows "\<exists>br. readHead ucase rd r = Some (parseHead ucase (rest r), br) \<and>
    (\<forall>h hd. parseHead ucase (rest r) = HeadHost h hd \<longrightarrow>
       hd @ buf_rest br = rest r \<and> buf_ok br \<and> buf_fin br = fin r)"
proof -
  have ok: "buf_ok (newBufr r)" and re: "buf_rest (newBufr r) = rest r" and fi: "buf_fin (newBufr r) = fin r"
    using assms by (simp_all add: buf_ok_def buf_rest_def buf_fin_def newBufr_def)
  obtain br where l: "line_read [] (newBufr r) br" using readString_line [OF ok] by blast
  show ?thesis
  proof (cases "cutLine (rest r)")
    case None
    with l show ?thesis by (simp add: readHead_def parseHead_def line_read_def re)
  next
    case (Some lr)
    obtain line s where lr: "lr = (line, s)" by fastforce
    with l Some have r: "readString rd [] (newBufr r) = Some (line, None, br)" and okb: "buf_ok br"
      and rest: "buf_rest br = s" and fin: "buf_fin br = fin r" by (auto simp: line_read_def re fi)
    from Some lr have parts: "rest r = line @ s" using cutLine_Some by blast
    obtain br' where "headerLoop ucase rd line [] br = Some (scanHead ucase line [] s, br')"
      "\<forall>h hd. scanHead ucase line [] s = HeadHost h hd \<longrightarrow>
         hd @ buf_rest br' = line @ s \<and> buf_ok br' \<and> buf_fin br' = buf_fin br"
      using headerLoop_scan [OF okb, of ucase line "[]"] unfolding rest by blast
    with r Some lr parts fin show ?thesis
      by (auto simp: readHead_def parseHead_def)
  qed
qed

text \<open>Buffered reads and reads of the replaying connection obey the laws of a reader.\<close>

lemma bufRead_step:
  assumes "buf_ok br" "0 < n" "bufRead rd br n = (bs, e, br')"
  shows "buf_ok br' \<and> buf_rest br = bs @ buf_rest br' \<and> length bs \<le> n \<and> buf_fin br' = buf_fin br"
    and "e = None \<Longrightarrow> bs \<noteq> []"
    and "e = Some x \<Longrightarrow> buf_rest br' = [] \<and> x = buf_fin br"
proof -
  have ok: "ok (br_src br)" using assms(1) by (simp add: buf_ok_def)
  have size: "0 < brSize" by (simp add: brSize_def)
  have "(buf_ok br' \<and> buf_rest br = bs @ buf_rest br' \<and> length bs \<le> n \<and> buf_fin br' = buf_fin br) \<and>
    (e = None \<longrightarrow> bs \<noteq> []) \<and> (\<forall>x. e = Some x \<longrightarrow> buf_rest br' = [] \<and> x = buf_fin br)"
  proof (cases "br_buf br = [] \<and> br_err br = None")
    case False
    show ?thesis
    proof (cases "br_buf br = []")
      case True
      with False obtain x where x: "br_err br = Some x" by auto
      with assms(1) have f: "rest (br_src br) = []" "x = fin (br_src br)" by (auto simp: buf_ok_def)
      have "bs = []" "e = Some x" "br' = br\<lparr>br_err := None\<rparr>"
        using assms(3) x True by (simp_all add: bufRead_def)
      with f True ok show ?thesis by (simp add: buf_ok_def buf_rest_def buf_fin_def)
    next
      case no: False
      then have "bs = take n (br_buf br)" "e = None" "br' = br\<lparr>br_buf := drop n (br_buf br)\<rparr>"
        using assms(3) by (simp_all add: bufRead_def)
      with no assms(1,2) show ?thesis by (simp add: buf_ok_def buf_rest_def buf_fin_def)
    qed
  next
    case True
    let ?m = "if brSize \<le> n then n else brSize"
    have pos: "0 < ?m" using assms(2) size by simp
    obtain cs e1 src where r: "rd (br_src br) ?m = (cs, e1, src)" by (cases "rd (br_src br) ?m")
    note st = read_step [OF ok pos r]
    have pr: "e1 = None \<Longrightarrow> cs \<noteq> []" using read_progress [OF ok pos] r by simp
    have en: "e1 = Some x \<Longrightarrow> rest src = [] \<and> x = fin (br_src br)" for x
      using read_end [OF ok pos] r by simp
    consider (direct) "bs = cs" "e = e1" "br' = br\<lparr>br_src := src\<rparr>" "length cs \<le> n"
      | (none) "cs = []" "bs = []" "e = e1" "br' = br\<lparr>br_src := src\<rparr>"
      | (some) "cs \<noteq> []" "bs = take n cs" "e = None"
          "br' = \<lparr>br_buf = drop n cs, br_err = e1, br_src = src\<rparr>"
    proof (cases "brSize \<le> n")
      case big: True
      then have "bs = cs \<and> e = e1 \<and> br' = br\<lparr>br_src := src\<rparr>"
        using assms(3) True r by (simp add: bufRead_def)
      moreover have "length cs \<le> n" using st big by simp
      ultimately show ?thesis using direct by blast
    next
      case False
      then have "(bs, e, br') = (if cs = [] then ([], e1, br\<lparr>br_src := src\<rparr>)
          else (take n cs, None, \<lparr>br_buf = drop n cs, br_err = e1, br_src = src\<rparr>))"
        using assms(3) True r by (simp add: bufRead_def)
      then show ?thesis using none some by (cases "cs = []") simp_all
    qed
    then show ?thesis
    proof cases
      case direct
      with st pr en True show ?thesis by (simp add: buf_ok_def buf_rest_def buf_fin_def)
    next
      case none
      with pr obtain x where "e1 = Some x" by (cases e1) auto
      with none st en [of x] True show ?thesis by (simp add: buf_ok_def buf_rest_def buf_fin_def)
    next
      case some
      with st en True assms(2) show ?thesis by (simp add: buf_ok_def buf_rest_def buf_fin_def)
    qed
  qed
  then show "buf_ok br' \<and> buf_rest br = bs @ buf_rest br' \<and> length bs \<le> n \<and> buf_fin br' = buf_fin br"
    and "e = None \<Longrightarrow> bs \<noteq> []"
    and "e = Some x \<Longrightarrow> buf_rest br' = [] \<and> x = buf_fin br" by auto
qed

definition vhost_rest :: "'r vhostConn \<Rightarrow> bytes" where
  "vhost_rest c = vc_head c @ buf_rest (vc_br c)"

lemma vhostRead_reader:
  "byte_reader (vhostRead rd) vhost_rest (\<lambda>c. buf_fin (vc_br c)) (\<lambda>c. buf_ok (vc_br c))"
proof
  fix c c' :: "'r vhostConn" and n :: nat and bs e
  assume a: "buf_ok (vc_br c)" "0 < n" "vhostRead rd c n = (bs, e, c')"
  show "buf_ok (vc_br c') \<and> vhost_rest c = bs @ vhost_rest c' \<and> length bs \<le> n \<and>
      buf_fin (vc_br c') = buf_fin (vc_br c)"
    using a bufRead_step(1) [OF a(1,2)]
    by (auto simp: vhostRead_def vhost_rest_def split: if_splits prod.splits)
next
  fix c c' :: "'r vhostConn" and n :: nat and bs
  assume a: "buf_ok (vc_br c)" "0 < n" "vhostRead rd c n = (bs, None, c')"
  show "bs \<noteq> []"
    using a bufRead_step(2) [OF a(1,2)] by (auto simp: vhostRead_def split: if_splits prod.splits)
next
  fix c c' :: "'r vhostConn" and n :: nat and bs x
  assume a: "buf_ok (vc_br c)" "0 < n" "vhostRead rd c n = (bs, Some x, c')"
  show "vhost_rest c' = [] \<and> x = buf_fin (vc_br c)"
    using a bufRead_step(3) [OF a(1,2)]
    by (auto simp: vhostRead_def vhost_rest_def split: if_splits prod.splits)
qed

end

text \<open>A connection handed to a proxy by the virtual host port, and the relay from it to a stream.\<close>

interpretation vhost_in:
  byte_reader "vhostRead connRead" conn_in.vhost_rest "\<lambda>c. conn_in.buf_fin (vc_br c)"
    "\<lambda>c. conn_in.buf_ok (vc_br c)"
  by (rule conn_in.vhostRead_reader)

interpretation vhost_relay:
  relay "vhostRead connRead" conn_in.vhost_rest "\<lambda>c. conn_in.buf_fin (vc_br c)"
    "\<lambda>c. conn_in.buf_ok (vc_br c)" connWrite c_out
  by unfold_locales

section \<open>What becomes of a connection\<close>

text \<open>Every outcome, by what the head says and whom it names.\<close>

definition vhostOutcome ::
    "(gostring \<Rightarrow> gostring) \<Rightarrow> Server \<Rightarrow> cid \<Rightarrow> bool \<Rightarrow> vhost_head \<Rightarrow> 'r bufr \<Rightarrow> 'r vhost_result \<times> Server" where
  "vhostOutcome u s c ok hh br =
    (case hh of
       HeadClosed \<Rightarrow> (VhostClosed, closeConn c s)
     | HeadBad \<Rightarrow> (VhostReplied (vhostReply 400 ''Bad Request''), closeConn c s)
     | HeadHost host head \<Rightarrow>
         (case sv_vhost s (routeKey u host) of
            None \<Rightarrow> (VhostReplied (vhostReply 404 ''Not Found''), closeConn c s)
          | Some p \<Rightarrow>
              if fst (deliverVisitor s p c ok)
              then (VhostDelivered p \<lparr>vc_br = br, vc_head = head\<rparr>, snd (deliverVisitor s p c ok))
              else (VhostRefused p, closeConn c (snd (deliverVisitor s p c ok)))))"

lemma handleVhostConn_outcome:
  assumes "conn_ok r"
  shows "\<exists>br.
    handleVhostConn u connRead s c r ok = Some (vhostOutcome u s c ok (parseHead u (conn_pending r)) br) \<and>
    (\<forall>host head. parseHead u (conn_pending r) = HeadHost host head \<longrightarrow>
       conn_in.vhost_rest \<lparr>vc_br = br, vc_head = head\<rparr> = conn_pending r \<and> conn_in.buf_ok br)"
proof -
  obtain br where rh: "readHead u connRead r = Some (parseHead u (conn_pending r), br)"
    "\<forall>h hd. parseHead u (conn_pending r) = HeadHost h hd \<longrightarrow>
       hd @ conn_in.buf_rest br = conn_pending r \<and> conn_in.buf_ok br"
    using conn_in.readHead_parse [OF assms, of u] by blast
  show ?thesis
  proof (intro exI [of _ br] conjI)
    show "handleVhostConn u connRead s c r ok = Some (vhostOutcome u s c ok (parseHead u (conn_pending r)) br)"
      using rh(1) by (simp add: handleVhostConn_def vhostOutcome_def lookupVhost_def
          split: vhost_head.split option.split prod.split bool.split)
  qed (use rh(2) in \<open>simp add: conn_in.vhost_rest_def\<close>)
qed

lemma vhostOutcome_delivered:
  "vhostOutcome u s c ok hh br = (VhostDelivered p vc, t) \<Longrightarrow>
     \<exists>host head. hh = HeadHost host head \<and> sv_vhost s (routeKey u host) = Some p \<and>
       deliverVisitor s p c ok = (True, t) \<and> vc = \<lparr>vc_br = br, vc_head = head\<rparr>"
  by (auto simp: vhostOutcome_def prod_eq_iff split: vhost_head.splits option.splits if_splits)

lemma handleVhostConn_delivered:
  assumes "conn_ok r" "handleVhostConn u connRead s c r ok = Some (VhostDelivered p vc, t)"
  shows "conn_in.vhost_rest vc = conn_pending r" "conn_in.buf_ok (vc_br vc)"
    "\<exists>host head. parseHead u (conn_pending r) = HeadHost host head \<and> sv_vhost s (routeKey u host) = Some p"
    "deliverVisitor s p c ok = (True, t)"
proof -
  obtain br where br: "handleVhostConn u connRead s c r ok =
      Some (vhostOutcome u s c ok (parseHead u (conn_pending r)) br)"
    "\<forall>host head. parseHead u (conn_pending r) = HeadHost host head \<longrightarrow>
       conn_in.vhost_rest \<lparr>vc_br = br, vc_head = head\<rparr> = conn_pending r \<and> conn_in.buf_ok br"
    using handleVhostConn_outcome [OF assms(1), of u s c ok] by blast
  with assms(2) have "vhostOutcome u s c ok (parseHead u (conn_pending r)) br = (VhostDelivered p vc, t)"
    by simp
  from vhostOutcome_delivered [OF this] obtain host head where
    h: "parseHead u (conn_pending r) = HeadHost host head" "sv_vhost s (routeKey u host) = Some p"
    "deliverVisitor s p c ok = (True, t)" "vc = \<lparr>vc_br = br, vc_head = head\<rparr>" by blast
  with br(2) show "conn_in.vhost_rest vc = conn_pending r" "conn_in.buf_ok (vc_br vc)"
    "\<exists>host head. parseHead u (conn_pending r) = HeadHost host head \<and> sv_vhost s (routeKey u host) = Some p"
    "deliverVisitor s p c ok = (True, t)" by auto
qed

lemma vhostOutcome_inv: "reg_inv s \<Longrightarrow> reg_inv (snd (vhostOutcome u s c ok hh br))"
  by (auto simp: vhostOutcome_def closeConn_inv deliverVisitor_inv split: vhost_head.split option.split)

lemma handleVhostConn_inv:
  assumes "conn_ok r" "reg_inv s" "handleVhostConn u connRead s c r ok = Some (res, t)"
  shows "reg_inv t"
proof -
  obtain br where "handleVhostConn u connRead s c r ok =
      Some (vhostOutcome u s c ok (parseHead u (conn_pending r)) br)"
    using handleVhostConn_outcome [OF assms(1), of u s c ok] by blast
  with assms(3) vhostOutcome_inv [OF assms(2), of u c ok] show ?thesis by (metis option.inject snd_conv)
qed

text \<open>Which names a registered host answers to: any case, any port.\<close>

lemma routeKey_plain: "CHR '':'' \<notin> set (ToLower u h) \<Longrightarrow> routeKey u h = ToLower u h"
  by (simp add: routeKey_def Let_def IndexByte_None [THEN iffD2])

lemma lower_ascii_colon: "lower_ascii c = CHR '':'' \<longleftrightarrow> c = CHR '':''"
proof -
  have "(of_char c :: nat) + 32 < 256 \<Longrightarrow> 65 \<le> (of_char c :: nat) \<Longrightarrow>
      char_of ((of_char c :: nat) + 32) \<noteq> CHR '':''"
    by (auto dest!: arg_cong [of "char_of _" _ "of_char :: char \<Rightarrow> nat"])
  then show ?thesis by (auto simp: lower_ascii_def Let_def)
qed

lemma routeKey_port:
  assumes "is_ascii h" "CHR '':'' \<notin> set h" "is_ascii port"
  shows "routeKey u (h @ CHR '':'' # port) = ToLower u h"
proof -
  have a: "is_ascii (h @ CHR '':'' # port)" using assms by (simp add: is_ascii_def)
  have l: "ToLower u (h @ CHR '':'' # port) = map lower_ascii h @ CHR '':'' # map lower_ascii port"
    using a by (simp add: ToLower_def lower_ascii_colon)
  have n: "CHR '':'' \<notin> set (map lower_ascii h)" using assms(2) by (auto simp: lower_ascii_colon [THEN iffD2, OF refl] eq_commute [of "CHR '':''"] lower_ascii_colon)
  show ?thesis using assms(1)
    by (simp add: routeKey_def l IndexByte_append [OF n]) (simp add: ToLower_def)
qed

text \<open>Domains that neither normalisation changes except for their case.\<close>

definition plain_domain :: "gostring \<Rightarrow> bool" where
  "plain_domain d \<longleftrightarrow> d \<noteq> [] \<and> is_ascii d \<and> CHR '':'' \<notin> set d \<and> visible (hd d) \<and> visible (last d) \<and>
     last d \<noteq> CHR ''.''"

lemma lower_ascii_dot: "lower_ascii c = CHR ''.'' \<longleftrightarrow> c = CHR ''.''"
proof -
  have "(of_char c :: nat) + 32 < 256 \<Longrightarrow> 65 \<le> (of_char c :: nat) \<Longrightarrow>
      char_of ((of_char c :: nat) + 32) \<noteq> CHR ''.''"
    by (auto dest!: arg_cong [of "char_of _" _ "of_char :: char \<Rightarrow> nat"])
  then show ?thesis by (auto simp: lower_ascii_def Let_def)
qed

lemma normalizeHost_plain:
  assumes "plain_domain d"
  shows "normalizeHost u d = map lower_ascii d"
proof -
  from assms have "TrimSpace d = d" by (simp add: plain_domain_def TrimSpace_visible)
  moreover have "ToLower u d = map lower_ascii d" using assms by (simp add: plain_domain_def ToLower_def)
  moreover have "\<not> HasSuffix (map lower_ascii d) ''.''"
  proof
    assume "HasSuffix (map lower_ascii d) ''.''"
    then obtain x where "map lower_ascii d = x @ ''.''"
      by (auto simp: HasSuffix_def) (metis append_take_drop_id)
    then have "last (map lower_ascii d) = CHR ''.''" by simp
    with assms show False by (simp add: plain_domain_def last_map lower_ascii_dot)
  qed
  ultimately show ?thesis by (simp add: normalizeHost_def TrimSuffix_def)
qed

lemma route_plain:
  assumes "plain_domain d" "plain_domain h" "map lower_ascii h = map lower_ascii d" "is_ascii port"
  shows "routeKey u h = normalizeHost u d" "routeKey u (h @ CHR '':'' # port) = normalizeHost u d"
proof -
  have l: "ToLower u h = map lower_ascii d" using assms(2,3) by (simp add: plain_domain_def ToLower_def)
  have n: "CHR '':'' \<notin> set (map lower_ascii h)"
    using assms(2) by (auto simp: plain_domain_def lower_ascii_colon [THEN iffD2, OF refl]
        eq_commute [of "CHR '':''"] lower_ascii_colon)
  with assms(3) l have "routeKey u h = map lower_ascii d" by (simp add: routeKey_plain)
  with normalizeHost_plain [OF assms(1)] show "routeKey u h = normalizeHost u d" by simp
  have "routeKey u (h @ CHR '':'' # port) = ToLower u h"
    using assms(2,4) by (intro routeKey_port) (simp_all add: plain_domain_def)
  with l normalizeHost_plain [OF assms(1)]
  show "routeKey u (h @ CHR '':'' # port) = normalizeHost u d" by simp
qed

lemma registered_domain:
  assumes "reg_inv s" "i < nx_sid s" "np_Type np = ''http''" "registerProxy u s i np bind = (resp, t)"
    and "t \<noteq> s" "d \<in> set (np_CustomDomains np)"
  shows "sv_vhost t (normalizeHost u d) = Some (nx_pid s)"
proof -
  have t: "t = installProxy s (newHTTP u s i np)"
    using assms(3-5) by (auto simp: registerProxy_def registerHTTPProxy_spec split: if_splits option.splits)
  have "normalizeHost u d \<in> set (httpHosts u s np)" using assms(6) by (simp add: httpHosts_def)
  then show ?thesis unfolding t by (simp add: reg_simps httpProxy_def)
qed

text \<open>Lines given as strings.\<close>

lemma newline_char [simp]: "of_char (CHR 0x0A) = newline"
  by (simp add: newline_def)

lemma newline_byte: "newline \<in> set (bytes_of_string s) \<longleftrightarrow> CHR 0x0A \<in> set s"
proof
  assume "newline \<in> set (bytes_of_string s)"
  then obtain c where c: "c \<in> set s" "of_char c = newline" by auto
  then have "char_of (unat (of_char c :: byte)) = char_of (unat (of_char (CHR 0x0A) :: byte))"
    by (simp only: newline_char)
  then have "c = CHR 0x0A" by (simp only: char_byte)
  with c show "CHR 0x0A \<in> set s" by simp
next
  assume "CHR 0x0A \<in> set s"
  then have "of_char (CHR 0x0A) \<in> set (bytes_of_string s)" unfolding set_map by (rule imageI)
  then show "newline \<in> set (bytes_of_string s)" by (simp only: newline_char)
qed

lemma cutLine_line:
  assumes "CHR 0x0A \<notin> set s"
  shows "cutLine (bytes_of_string (s @ crlf) @ r) = Some (bytes_of_string (s @ crlf), r)"
proof -
  have "newline \<notin> set (bytes_of_string (s @ [CHR 0x0D]))" using assms by (subst newline_byte) simp
  from cutLine_append [OF this, of r] show ?thesis by (simp add: crlf_def del: of_char_Char)
qed

lemma Fields_newline: "Fields [CHR 0x0A] = []"
  by (simp add: Fields_def space_front_ascii ascii_space_def)

end
