(* ===== verification/Scenario.thy ===== *)
theory Scenario
  imports ServerInv Vhost
begin

text \<open>
  One concrete server and one short execution, at which the theorems of the development are
  instantiated: client \<open>c\<close> logs in and asks for a TCP proxy on port 30000; in a second continuation
  the same client logs in again before that request is handled.
\<close>

definition exCfg :: ServerCfg where
  "exCfg = defaultServer\<lparr>sc_Token := ''tok'', sc_AllowPorts := ''30000-30001'',
     sc_VhostHTTPPort := 8080, sc_VhostDomain := ''ex.com''\<rparr>"

definition exRanges :: "PortRange list" where
  "exRanges = [\<lparr>pr_Min = 30000, pr_Max = 30001\<rparr>]"

definition exServer :: Server where "exServer = emptyServer exCfg exRanges False 0"

definition exLogin :: Login where
  "exLogin = \<lparr>lg_Version = Version, lg_ClientID = ''c'', lg_Ts = 0, lg_Hmac = HmacLogin ''tok'' ''c'' 0\<rparr>"

definition exNP :: NewProxy where
  "exNP = \<lparr>np_Name = ''ssh'', np_Type = ''tcp'', np_Local = ''127.0.0.1:22'', np_RemotePort = 30000,
     np_Subdomain = [], np_CustomDomains = [], np_ReqID = 1\<rparr>"

definition exHTTP :: NewProxy where
  "exHTTP = \<lparr>np_Name = ''web'', np_Type = ''http'', np_Local = ''127.0.0.1:80'', np_RemotePort = 0,
     np_Subdomain = ''www'', np_CustomDomains = [], np_ReqID = 2\<rparr>"

definition exJ :: json_decoders where
  "exJ = \<lparr>decLogin = (\<lambda>_. Some exLogin), decNewProxy = (\<lambda>_. Some exNP),
     decCloseProxy = (\<lambda>_. Some \<lparr>cp_Name = ''ssh''\<rparr>), decPing = (\<lambda>_. Some \<lparr>ping_Ts = 0\<rparr>),
     decStreamMeta = (\<lambda>_. Some \<lparr>sm_ProxyName = ''ssh''\<rparr>)\<rparr>"

abbreviation exStart :: "sys \<Rightarrow> bool" where "exStart \<equiv> sys_start (\<lambda>_ _. None)"

abbreviation exStep :: "sys \<Rightarrow> label \<Rightarrow> sys \<Rightarrow> bool" where "exStep \<equiv> sstep exJ (\<lambda>s. s)"

section \<open>The execution\<close>

definition ex0 :: sys where "ex0 = sys_init exServer"

definition ex1 :: sys where
  "ex1 = ex0\<lparr>srv := admitted (srv ex0) 1 exLogin ''h'' 0, pcs := [0 \<mapsto> PcWelcome]\<rparr>"

definition ex2 :: sys where
  "ex2 = ex1\<lparr>srv := snd (sendMsg True 0 (loginOK 0) (srv ex1)), pcs := [0 \<mapsto> PcRead]\<rparr>"

definition ex3 :: sys where "ex3 = ex2\<lparr>pcs := [0 \<mapsto> PcFrame TypeNewProxy []]\<rparr>"

definition ex4 :: sys where
  "ex4 = ex3\<lparr>srv := installProxy (srv ex3) (newTCP (srv ex3) 0 exNP),
     pcs := [0 \<mapsto> PcReply (SNewProxyResp (okResp exNP 30000))]\<rparr>"

text \<open>The second continuation.\<close>

definition ex4b :: sys where
  "ex4b = ex3\<lparr>srv := admitted (srv ex3) 2 exLogin ''h'' 0, pcs := (pcs ex3)(1 \<mapsto> PcKick 0)\<rparr>"

definition ex5b :: sys where
  "ex5b = ex4b\<lparr>srv := CloseSession [] (srv ex4b) 0, pcs := (pcs ex4b)(1 \<mapsto> PcWelcome)\<rparr>"

lemma ex_ranges: "ParsePortRanges ''30000-30001'' = Inr exRanges"
proof -
  have "showRanges exRanges = ''30000-30001''"
    by (simp add: exRanges_def showRange_def Itoa_pos showNat.simps digit_char_def) code_simp
  with parseParts_showRanges [of exRanges "[]"] show ?thesis
    by (simp add: ParsePortRanges_def exRanges_def valid_range_def)
qed

lemma ex_local: "SplitHostPort ''127.0.0.1:22'' \<noteq> None" "SplitHostPort ''127.0.0.1:80'' \<noteq> None"
  by code_simp+

lemma ex_start: "exStart ex0"
  by (auto simp: sys_start_def ex0_def New_def exServer_def exCfg_def defaultServer_def ex_ranges
      intro!: exI [of _ 0] exI [of _ exCfg])

lemma ex_verdict:
  assumes "sv_cfg s = exCfg"
  shows "loginVerdict s exLogin 0 = None"
proof -
  have "VerifyLogin ''tok'' ''c'' 0 (HmacLogin ''tok'' ''c'' 0) (5 * Minute) 0"
    by (subst VerifyLogin_iff) (simp_all add: in_int64_def Minute_def Second_def)
  with assms show ?thesis by (simp add: loginVerdict_def exLogin_def exCfg_def defaultServer_def)
qed

lemmas ex_srv = ex0_def ex1_def ex2_def ex3_def ex4_def ex4b_def ex5b_def sys_init_def

lemma ex_cfg [simp]: "sv_cfg (srv ex0) = exCfg" "sv_cfg (srv ex3) = exCfg"
  by (simp_all add: ex_srv exServer_def emptyServer_def admitted_def sendMsg_def)

lemma ex_step1: "exStep ex0 (LAdmit 1 exLogin ''h'' 0) ex1"
  using sstep.admit [of ex0 exLogin 0 exJ "\<lambda>s. s" 1 "''h''"] ex_verdict
  by (simp add: ex1_def) (simp add: ex_srv exServer_def emptyServer_def)

lemma ex_step2: "exStep ex1 (LWelcome 0 0 True) ex2"
  using sstep.greet [of ex1 0 exJ "\<lambda>s. s" 0 True] by (simp add: ex2_def) (simp add: ex1_def)

lemma ex_step3: "exStep ex2 (LFrame 0 TypeNewProxy []) ex3"
  using sstep.frame [of ex2 0 exJ "\<lambda>s. s" TypeNewProxy "[]"] by (simp add: ex3_def) (simp add: ex2_def)

lemma ex_alloc:
  "wantedPort (srv ex3) exNP = 30000" "sv_byPort (srv ex3) 30000 = None" "nx_pid (srv ex3) = 0"
  "portAllowed (srv ex3) 30000" "sv_proxies (srv ex3) k = None" "nx_sid (srv ex3) = 1"
  by (simp_all add: wantedPort_def exNP_def ex_srv exServer_def emptyServer_def admitted_def sendMsg_def
      portAllowed_def exRanges_def Contains_def)

lemma ex_register:
  "registerProxy (\<lambda>s. s) (srv ex3) 0 exNP None =
     (okResp exNP 30000, installProxy (srv ex3) (newTCP (srv ex3) 0 exNP))"
proof -
  have f: "np_Type exNP = ''tcp''" "np_Local exNP = ''127.0.0.1:22''" "np_RemotePort exNP = 30000"
    by (simp_all add: exNP_def)
  obtain hp where "SplitHostPort ''127.0.0.1:22'' = Some hp" using ex_local(1) by blast
  with ex_alloc show ?thesis by (simp add: registerProxy_def registerTCPProxy_spec f)
qed

lemma ex_handle:
  "registerProxy u s i exNP None = (resp, t) \<Longrightarrow>
     ctlHandle exJ u None TypeNewProxy [] s i = (Some (SNewProxyResp resp), t)"
  by (simp add: ctlHandle_def exJ_def)

lemma ex_step4: "exStep ex3 (LHandle 0 None) ex4"
  using sstep.handle [of ex3 0 TypeNewProxy "[]" exJ "\<lambda>s. s" None] ex_handle [OF ex_register]
  by (simp add: ex4_def) (simp add: ex3_def)

lemma ex_step4b: "exStep ex3 (LAdmit 2 exLogin ''h'' 0) ex4b"
  using sstep.admit [of ex3 exLogin 0 exJ "\<lambda>s. s" 2 "''h''"] ex_verdict
  by (simp add: ex4b_def ex_alloc) (simp add: ex_srv exServer_def emptyServer_def admitted_def sendMsg_def exLogin_def)

lemma ex_step5b: "exStep ex4b (LKick 1 []) ex5b"
  using sstep.kick [of ex4b 1 0 "[]" exJ "\<lambda>s. s"]
  by (simp add: ex5b_def)
    (simp add: ex_srv exServer_def emptyServer_def admitted_def sendMsg_def iterates_def covers_def newSession_def)

lemma ex_reach3: "reachable exStart exStep ex3"
  using ex_start ex_step1 ex_step2 ex_step3 by (blast intro: reach_init reach_step)

lemma ex_reach4: "reachable exStart exStep ex4"
  using ex_reach3 ex_step4 by (blast intro: reach_step)

lemma ex_reach4b: "reachable exStart exStep ex4b"
  using ex_reach3 ex_step4b by (blast intro: reach_step)

lemma ex_reach5b: "reachable exStart exStep ex5b"
  using ex_reach4b ex_step5b by (blast intro: reach_step)

lemma ex_lease4: "lease (srv ex4) (RPort 30000) = Some 0"
  using ex_alloc by (simp add: ex4_def installProxy_def tcpProxy_def Let_def)

lemma server_inv3: "reg_inv (srv ex3)" and server_inv4: "reg_inv (srv ex4)"
  using server.reachable_inv [OF ex_reach3] server.reachable_inv [OF ex_reach4] by (simp_all add: sys_inv_def)

lemma ex_register5b:
  "\<exists>resp s1. registerProxy (\<lambda>s. s) (srv ex5b) 0 exNP None = (resp, s1) \<and> s1 \<noteq> srv ex5b"
proof -
  let ?s = "srv ex5b"
  have f: "np_Type exNP = ''tcp''" "np_Local exNP = ''127.0.0.1:22''" "np_RemotePort exNP = 30000"
    by (simp_all add: exNP_def)
  obtain hp where "SplitHostPort ''127.0.0.1:22'' = Some hp" using ex_local(1) by blast
  moreover have "portAllowed ?s 30000" "sv_proxies ?s = Map.empty" "sv_byPort ?s = Map.empty"
    by (simp_all add: ex_srv exServer_def emptyServer_def admitted_def sendMsg_def newSession_def
        CloseSession_def dropSession_def Let_def portAllowed_def exRanges_def Contains_def)
  moreover have "wantedPort ?s exNP = 30000" by (simp add: wantedPort_def f)
  moreover have "installProxy ?s Q \<noteq> ?s" for Q using installProxy_fields(7) [of ?s Q] by auto
  ultimately show ?thesis by (simp add: registerProxy_def registerTCPProxy_spec f)
qed

text \<open>The state in which the proxy of the second continuation is leaked.\<close>

definition exLeak :: sys where
  "exLeak = ex5b\<lparr>srv := installProxy (srv ex5b) (newTCP (srv ex5b) 0 exNP), pcs := (pcs ex5b)(0 \<mapsto> PcDone)\<rparr>"

lemma exNP_fields:
  "np_Type exNP = ''tcp''" "np_Local exNP = ''127.0.0.1:22''" "np_RemotePort exNP = 30000" "np_Name exNP = ''ssh''"
  by (simp_all add: exNP_def)

lemma ex_5b:
  "sv_proxies (srv ex5b) = Map.empty" "sv_byPort (srv ex5b) = Map.empty" "nx_pid (srv ex5b) = 0"
  "portAllowed (srv ex5b) 30000" "wantedPort (srv ex5b) exNP = 30000"
  "se_closed (hp_session (srv ex5b) 0)" "\<not> se_closed (hp_session (srv ex5b) 1)"
  "se_clientID (hp_session (srv ex5b) 1) = ''c''" "se_clientID (hp_session (srv ex5b) 0) = ''c''"
  by (simp_all add: ex_srv exServer_def emptyServer_def admitted_def sendMsg_def newSession_def wantedPort_def exNP_def exLogin_def
        CloseSession_def dropSession_def Let_def portAllowed_def exRanges_def Contains_def)

lemma ex_leak:
  "se_closed (hp_session (srv exLeak) 0)" "\<not> se_closed (hp_session (srv exLeak) 1)"
  "se_clientID (hp_session (srv exLeak) 1) = ''c''" "px_clientID (hp_proxy (srv exLeak) 0) = ''c''"
  "px_name (hp_proxy (srv exLeak) 0) = ''ssh''" "sameConfig (hp_proxy (srv exLeak) 0) exNP" "orphan 0 exLeak"
proof -
  show c: "se_closed (hp_session (srv exLeak) 0)" "\<not> se_closed (hp_session (srv exLeak) 1)"
    "se_clientID (hp_session (srv exLeak) 1) = ''c''"
    by (simp_all add: exLeak_def reg_simps ex_5b ex_5b(7,8) [simplified] tcpProxy_def)
  show "orphan 0 exLeak"
    using c(1) by (simp add: orphan_def exLeak_def registered_def reg_simps ex_5b tcpProxy_def pkey_def)
  show "px_clientID (hp_proxy (srv exLeak) 0) = ''c''" "px_name (hp_proxy (srv exLeak) 0) = ''ssh''"
    "sameConfig (hp_proxy (srv exLeak) 0) exNP"
    by (simp_all add: exLeak_def reg_simps ex_5b tcpProxy_def sameConfig_def exNP_fields)
qed

lemma ex_reach_leak: "reachable exStart exStep exLeak"
proof -
  have "SplitHostPort (np_Local exNP) \<noteq> None" using ex_local(1) by (simp add: exNP_fields)
  then have r: "registerProxy (\<lambda>s. s) (srv ex5b) 0 exNP None =
      (okResp exNP 30000, installProxy (srv ex5b) (newTCP (srv ex5b) 0 exNP))"
    by (auto simp: registerProxy_def registerTCPProxy_spec ex_5b exNP_fields(1,3))
  have p: "pcs ex5b 0 = Some (PcFrame TypeNewProxy [])" by (simp add: ex5b_def ex4b_def ex3_def)
  let ?h = "ex5b\<lparr>srv := installProxy (srv ex5b) (newTCP (srv ex5b) 0 exNP), pcs := (pcs ex5b)(0 \<mapsto> PcReply (SNewProxyResp (okResp exNP 30000)))\<rparr>"
  let ?r = "?h\<lparr>pcs := (pcs ex5b)(0 \<mapsto> PcClosing)\<rparr>"
  have "exStep ex5b (LHandle 0 None) ?h"
    using sstep.handle [of ex5b 0 TypeNewProxy "[]" exJ "\<lambda>s. s" None] ex_handle [OF r] by (simp add: p)
  moreover have "exStep ?h (LReply 0 False) ?r"
    using sstep.reply [where J = exJ and u = "\<lambda>s. s" and s = ?h and i = 0 and ok = False] by (simp add: sendMsg_def)
  moreover have "exStep ?r (LClose 0 []) exLeak"
    using sstep.close [where J = exJ and u = "\<lambda>s. s" and s = ?r and i = 0 and ord = "[]"] ex_leak(1)
    by (simp add: iterates_def CloseSession_def exLeak_def)
  ultimately show ?thesis
    using ex_reach5b by (blast intro: reach_step)
qed

text \<open>The same request for a port of the pool.\<close>

definition exDyn :: NewProxy where "exDyn = exNP\<lparr>np_RemotePort := 0\<rparr>"

definition ex4d :: sys where
  "ex4d = ex3\<lparr>srv := installProxy (srv ex3) (newTCP (srv ex3) 0 exDyn)\<rparr>"

lemma ex_registerD:
  "registerProxy (\<lambda>s. s) (srv ex3) 0 exDyn None =
     (okResp exDyn 30000, installProxy (srv ex3) (newTCP (srv ex3) 0 exDyn))"
proof -
  have f: "np_Type exDyn = ''tcp''" "np_Local exDyn = ''127.0.0.1:22''" "np_RemotePort exDyn = 0"
    by (simp_all add: exDyn_def exNP_def)
  have w: "wantedPort (srv ex3) exDyn = 30000"
    by (simp add: wantedPort_def f allocPortLocked_def allocRange.simps ex_srv exServer_def
        emptyServer_def admitted_def sendMsg_def exRanges_def)
  obtain hp where "SplitHostPort ''127.0.0.1:22'' = Some hp" using ex_local(1) by blast
  with ex_alloc w show ?thesis by (simp add: registerProxy_def registerTCPProxy_spec f)
qed

lemma ex_owner4: "registered (srv ex4) 0" "px_session (hp_proxy (srv ex4) 0) = 0"
  using lease_iff [OF server_inv4, of "RPort 30000" 0] ex_lease4 by simp
    (simp add: ex4_def reg_simps ex_alloc tcpProxy_def)

text \<open>No frame of a closed session is handled in the first continuation.\<close>

lemma ex_timely4: "reachable exStart (timely_step exJ (\<lambda>s. s)) ex4"
proof -
  have o: "\<not> se_closed (hp_session (srv ex3) 0)"
    by (simp add: ex_srv exServer_def emptyServer_def admitted_def sendMsg_def newSession_def)
  have t: "timely_step exJ (\<lambda>s. s) ex0 (LAdmit 1 exLogin ''h'' 0) ex1"
    "timely_step exJ (\<lambda>s. s) ex1 (LWelcome 0 0 True) ex2"
    "timely_step exJ (\<lambda>s. s) ex2 (LFrame 0 TypeNewProxy []) ex3"
    "timely_step exJ (\<lambda>s. s) ex3 (LHandle 0 None) ex4"
    using ex_step1 ex_step2 ex_step3 ex_step4 o by (simp_all add: timely_step_def late_def)
  have r: "reachable exStart (timely_step exJ (\<lambda>s. s)) ex0" by (rule reach_init) (rule ex_start)
  show ?thesis
    by (rule reach_step [OF reach_step [OF reach_step [OF reach_step [OF r t(1)] t(2)] t(3)] t(4)])
qed

section \<open>Connections and virtual hosts\<close>

definition exConn :: "bytes list \<Rightarrow> conn" where
  "exConn chunks = \<lparr>c_in = chunks, c_fin = EOF, c_out = [], c_room = None\<rparr>"

definition exWeb :: NewProxy where
  "exWeb = \<lparr>np_Name = ''web'', np_Type = ''http'', np_Local = ''127.0.0.1:80'', np_RemotePort = 0,
     np_Subdomain = [], np_CustomDomains = [''a.com''], np_ReqID = 2\<rparr>"

definition exVhost :: Server where
  "exVhost = snd (registerProxy (\<lambda>s. s) (srv ex3) 0 exWeb None)"

definition exRequest :: conn where
  "exRequest = exConn [bytes_of_string (''GET / HTTP/1.1'' @ crlf @ ''Ho''),
     bytes_of_string (''st: A.com:80'' @ crlf @ crlf @ ''body'')]"

lemma exVhost_new: "exVhost = installProxy (srv ex3) (newHTTP (\<lambda>s. s) (srv ex3) 0 exWeb)"
  and ex_registerH: "registerProxy (\<lambda>s. s) (srv ex3) 0 exWeb None = (okResp exWeb 0, exVhost)"
proof -
  have f: "np_Type exWeb = ''http''" "np_Local exWeb = ''127.0.0.1:80''" "np_Subdomain exWeb = []"
    "np_CustomDomains exWeb \<noteq> []"
    by (simp_all add: exWeb_def)
  have p: "sc_VhostHTTPPort exCfg \<noteq> 0" by (simp add: exCfg_def)
  have v: "firstTaken (sv_vhost (srv ex3)) hs = None" for hs
    by (simp add: firstTaken_None)
      (simp add: ex_srv exServer_def emptyServer_def admitted_def sendMsg_def)
  obtain hp where "SplitHostPort ''127.0.0.1:80'' = Some hp" using ex_local(2) by blast
  with ex_alloc p v have r: "registerProxy (\<lambda>s. s) (srv ex3) 0 exWeb None =
      (okResp exWeb 0, installProxy (srv ex3) (newHTTP (\<lambda>s. s) (srv ex3) 0 exWeb))"
    by (simp add: registerProxy_def registerHTTPProxy_spec f)
  then show "exVhost = installProxy (srv ex3) (newHTTP (\<lambda>s. s) (srv ex3) 0 exWeb)"
    by (simp add: exVhost_def)
  with r show "registerProxy (\<lambda>s. s) (srv ex3) 0 exWeb None = (okResp exWeb 0, exVhost)" by simp
qed

lemma exRequest_parse:
  "\<exists>head. parseHead (\<lambda>s. s) (conn_pending exRequest) = HeadHost ''A.com:80'' head"
proof -
  let ?get = "''GET / HTTP/1.1''" and ?host = "''Host: A.com:80''" and ?body = "bytes_of_string ''body''"
  have whole: "conn_pending exRequest = bytes_of_string (?get @ crlf) @
      bytes_of_string (?host @ crlf) @ bytes_of_string ([] @ crlf) @ ?body"
    by (simp add: exRequest_def exConn_def conn_pending_def)
  have fields: "\<not> length (Fields (?get @ crlf)) < 2"
    by (simp add: Fields_def crlf_def space_front_visible space_front_ascii visible_def ascii_space_def)
  have name: "HasPrefix (ToLower (\<lambda>s. s) (?host @ crlf)) ''host:''" by code_simp
  have trim: "TrimSpace (drop 5 (?host @ crlf)) = ''A.com:80''"
    using trim_ascii(2) [of "CHR 0x0A" "''A.com:80'' @ [CHR 0x0D]"] trim_ascii(2) [of "CHR 0x0D" "''A.com:80''"]
    by (simp add: TrimSpace_def crlf_def go_simps visible_def ascii_space_def)
  have "scanHead (\<lambda>s. s) head ''A.com:80'' (bytes_of_string ([] @ crlf) @ ?body) =
      HeadHost ''A.com:80'' (head @ bytes_of_string ([] @ crlf))" for head
    by (subst scanHead.simps, subst cutLine_line)
      (simp, simp only: string_bytes option.case prod.case Let_def, simp add: crlf_def)
  moreover have "length head \<le> 100 \<Longrightarrow>
      scanHead (\<lambda>s. s) head [] (bytes_of_string (?host @ crlf) @ bytes_of_string ([] @ crlf) @ ?body) =
      scanHead (\<lambda>s. s) (head @ bytes_of_string (?host @ crlf)) ''A.com:80'' (bytes_of_string ([] @ crlf) @ ?body)"
    for head
    by (subst scanHead.simps, subst cutLine_line)
      (simp, simp only: string_bytes name trim option.case prod.case Let_def, simp add: crlf_def headLimit_def)
  moreover have "length (bytes_of_string (?get @ crlf)) \<le> 100" by (simp add: crlf_def)
  ultimately show ?thesis
    unfolding whole parseHead_def using fields
    by (subst cutLine_line) (simp, simp only: string_bytes option.case prod.case, simp)
qed

lemma exVhost_delivers:
  "\<exists>vc t. handleVhostConn (\<lambda>s. s) connRead exVhost 9 exRequest True = Some (VhostDelivered 0 vc, t)"
proof -
  have ok: "conn_ok exRequest" by (simp add: exRequest_def exConn_def conn_ok_def crlf_def)
  obtain head where p: "parseHead (\<lambda>s. s) (conn_pending exRequest) = HeadHost ''A.com:80'' head"
    using exRequest_parse by blast
  have "routeKey (\<lambda>s. s) ''A.com:80'' = ''a.com''" by code_simp
  moreover have "normalizeHost (\<lambda>s. s) ''a.com'' = ''a.com''" by code_simp
  ultimately have r: "sv_vhost exVhost (routeKey (\<lambda>s. s) ''A.com:80'') = Some 0"
    by (simp add: exVhost_new reg_simps httpProxy_def httpHosts_def exWeb_def ex_alloc)
  have d: "fst (deliverVisitor exVhost 0 9 True)"
    by (simp add: exVhost_new reg_simps httpProxy_def ex_alloc deliverVisitor_def visitorSend_def
        visitorCap_def sendMsg_def)
  from handleVhostConn_outcome [OF ok, of "\<lambda>s. s" exVhost 9 True] p r d show ?thesis
    by (auto simp: vhostOutcome_def)
qed

end
