(* ===== verification/ClientScenario.thy ===== *)
theory ClientScenario
  imports ClientInv ClientRun EndToEnd Scenario
begin

text \<open>
  A concrete client and one short execution, at which the theorems about the client are
  instantiated: it connects, registers one proxy, receives the reply, and loses its connection.
\<close>

definition exP :: ProxyCfg where
  "exP = \<lparr>pc_Name = ''ssh'', pc_Type = ''tcp'', pc_Local = ''127.0.0.1:22'', pc_RemotePort = 30000,
     pc_Subdomain = [], pc_CustomDomains = []\<rparr>"

definition exQ :: ProxyCfg where
  "exQ = \<lparr>pc_Name = ''ssh2'', pc_Type = ''tcp'', pc_Local = ''127.0.0.1:22'', pc_RemotePort = 30000,
     pc_Subdomain = [], pc_CustomDomains = []\<rparr>"

definition exCC :: ClientCfg where
  "exCC = defaultClient\<lparr>cc_ServerAddr := ''h:17200'', cc_ClientID := ''c'', cc_Token := ''tok'',
     cc_TLS := \<lparr>ct_Enabled = False, ct_SkipVerify = False, ct_ServerFingerprint = []\<rparr>,
     cc_Proxies := [exP]\<rparr>"

definition exResp :: NewProxyResp where
  "exResp = \<lparr>nr_ReqID = 1, nr_Name = ''ssh'', nr_OK = True, nr_RemotePort = 30000, nr_Error = None\<rparr>"

definition exCJ :: client_decoders where
  "exCJ = \<lparr>decLoginResp = (\<lambda>_. Some \<lparr>lr_OK = True, lr_ServerTime = 0, lr_Error = None\<rparr>),
     decNewProxyResp = (\<lambda>_. Some exResp), decStartWorkConn = (\<lambda>_. Some \<lparr>sw_ProxyName = ''ssh''\<rparr>)\<rparr>"

definition exDial :: dial_env where
  "exDial = \<lparr>de_dial = (\<lambda>_. Inr 7), de_handshake = (\<lambda>_. Inr []), de_smux = None, de_stream = None,
     de_now = 0, de_write = (\<lambda>_. None), de_reply = Inr (TypeLoginResp, [])\<rparr>"

abbreviation exCStep :: "csys \<Rightarrow> clabel \<Rightarrow> csys \<Rightarrow> bool" where "exCStep \<equiv> cstep exCJ (\<lambda>s. s)"

text \<open>The client's own state after the connection, the request, and its transmission.\<close>

definition cl2 :: Client where
  "cl2 = (NewClient exCC)\<lparr>cl_session := Some 0, cl_writeCh := Some 0, os_conns := {7}, nx_chan := 1\<rparr>"
definition cl4 :: Client where
  "cl4 = cl2\<lparr>cl_pending := [1 \<mapsto> 0], cl_reqSeq := 1, nx_reply := 1\<rparr>"
definition cl5 :: Client where
  "cl5 = upd_chan 0 \<lparr>ch_buf = [newProxyReq exP 1], ch_closed = False\<rparr> cl4"
definition cl7 :: Client where "cl7 = cl5\<lparr>hp_reply := (hp_reply cl5)(0 := [exResp])\<rparr>"
definition cl8 :: Client where "cl8 = cl5\<lparr>hp_reply := (hp_reply cl5)(0 := [])\<rparr>"
definition cl9 :: Client where "cl9 = regLeave 1 cl8"

lemmas ex_client = cl2_def cl4_def cl5_def cl7_def cl8_def cl9_def NewClient_def regLeave_def

definition exConnOf :: "ctlpc \<Rightarrow> cconn" where
  "exConnOf x = \<lparr>cn_ctl = x, cn_writer = True, cn_wire = [], cn_ping = True, cn_stop = False\<rparr>"

definition exCallers :: "caller \<Rightarrow> who \<Rightarrow> caller" where
  "exCallers a = (\<lambda>g. if g = Main then a else idle_caller)"

definition exSys :: "Client \<Rightarrow> mainpc \<Rightarrow> caller \<Rightarrow> (kid \<rightharpoonup> cconn) \<Rightarrow> csys" where
  "exSys c m a n =
     \<lparr>cli = c, mpc = m, callers = exCallers a, conns = n, works = [],
      streams = [], cancelled = False, panicked = False\<rparr>"

definition exCaller :: "task list \<Rightarrow> rpc \<Rightarrow> (gostring \<times> reg_error option) list \<Rightarrow> caller" where
  "exCaller ts p l = \<lparr>ca_tasks = ts, ca_pc = p, ca_log = l\<rparr>"

definition c0 :: csys where "c0 = exSys (NewClient exCC) MIdle idle_caller Map.empty"
definition c1 :: csys where "c1 = exSys (NewClient exCC) (MDial exCC) idle_caller Map.empty"
definition c2 :: csys where "c2 = exSys cl2 (MList 0) idle_caller [0 \<mapsto> exConnOf CtlRead]"
definition c3 :: csys where
  "c3 = exSys cl2 (MTasks 0) (exCaller [TRegister exP] RNext []) [0 \<mapsto> exConnOf CtlRead]"
definition c4 :: csys where
  "c4 = exSys cl4 (MTasks 0) (exCaller [] (RSend 0 1 0 exP) []) [0 \<mapsto> exConnOf CtlRead]"
definition c5 :: csys where
  "c5 = exSys cl5 (MTasks 0) (exCaller [] (RWait 1 0 exP) []) [0 \<mapsto> exConnOf CtlRead]"
definition c6 :: csys where
  "c6 = exSys cl5 (MTasks 0) (exCaller [] (RWait 1 0 exP) []) [0 \<mapsto> exConnOf (CtlBlocked 0 exResp)]"
definition c7 :: csys where
  "c7 = exSys cl7 (MTasks 0) (exCaller [] (RWait 1 0 exP) []) [0 \<mapsto> exConnOf CtlRead]"
definition c8 :: csys where
  "c8 = exSys cl8 (MTasks 0) (exCaller [] (RLeave 1 None exP) []) [0 \<mapsto> exConnOf CtlRead]"
definition c9 :: csys where
  "c9 = exSys cl9 (MTasks 0) (exCaller [] RNext [(''ssh'', None)]) [0 \<mapsto> exConnOf CtlRead]"
definition c10 :: csys where
  "c10 = exSys cl9 (MAwait 0) (exCaller [] RNext [(''ssh'', None)]) [0 \<mapsto> exConnOf CtlRead]"
definition c11 :: csys where
  "c11 = exSys cl9 (MAwait 0) (exCaller [] RNext [(''ssh'', None)]) [0 \<mapsto> exConnOf (CtlEnded EOF)]"

lemma exSys_fields [simp]:
  "cli (exSys c m a n) = c" "mpc (exSys c m a n) = m" "conns (exSys c m a n) = n"
  "callers (exSys c m a n) = exCallers a" "exCallers a Main = a" "exCallers a Reloader = idle_caller"
  "works (exSys c m a n) = []" "\<not> cancelled (exSys c m a n)" "\<not> panicked (exSys c m a n)"
  by (simp_all add: exSys_def exCallers_def)

lemma exSys_upds [simp]:
  "(exSys c m a n)\<lparr>cli := c'\<rparr> = exSys c' m a n" "(exSys c m a n)\<lparr>mpc := m'\<rparr> = exSys c m' a n"
  "(exSys c m a n)\<lparr>conns := n'\<rparr> = exSys c m a n'"
  "(exCallers a)(Main := a') = exCallers a'" "(exSys c m a n)\<lparr>callers := exCallers a'\<rparr> = exSys c m a' n"
  by (auto simp: exSys_def exCallers_def fun_eq_iff)

lemma exConnOf_fields [simp]:
  "cn_ctl (exConnOf x) = x" "cn_writer (exConnOf x)" "cn_ping (exConnOf x)"
  "(exConnOf x)\<lparr>cn_ctl := y\<rparr> = exConnOf y"
  by (simp_all add: exConnOf_def)

lemma c0_init: "c0 = csys_init exCC"
  by (simp add: c0_def csys_init_def exSys_def exCallers_def fun_eq_iff)

lemma ex_handshakes: "handshakes exCJ u exDial exCC = None"
  by (simp add: handshakes_def exCC_def exDial_def exCJ_def readLoginReply_def)

lemma ex_dial: "de_dial exDial a = Inr 7"
  by (simp add: exDial_def)

lemma ex_connect: "connect exCJ (\<lambda>s. s) exDial exCC (NewClient exCC) = (Inr 0, cl2)"
  by (simp add: connect_def ex_handshakes ex_dial Let_def setSession_def clearSession_def cl2_def
      NewClient_def fun_eq_iff)

lemma c_proxies: "cl_proxies cl2 = [''ssh'' \<mapsto> exP]"
  by (simp add: ex_client exCC_def exP_def)

lemma c_step1: "exCStep c0 CAttempt c1"
  using cstep.c_attempt [of c0 exCJ "\<lambda>s. s"] by (simp add: c0_def c1_def) (simp add: NewClient_def)

lemma c_step2: "exCStep c1 (CConnect exDial 0) c2"
  using cstep.c_connect [of c1 exCC exCJ "\<lambda>s. s" exDial 0 cl2] ex_connect
  by (simp add: c1_def c2_def exConnOf_def)

lemma c_step3: "exCStep c2 (CList [''ssh'']) c3"
proof -
  have "lists_map [''ssh''] (cl_proxies cl2)" by (simp add: lists_map_def c_proxies)
  moreover have "proxyList [''ssh''] cl2 = [exP]"
    by (simp add: proxyList_def c_proxies List.map_filter_simps)
  ultimately show ?thesis
    using cstep.c_list [of c2 0 "[''ssh'']" exCJ "\<lambda>s. s"]
    by (simp add: c2_def c3_def exCaller_def idle_caller_def)
qed

text \<open>A step of the goroutine of \<^verbatim>\<open>Run\<close> inside \<^verbatim>\<open>registerProxy\<close>.\<close>

lemma ex_call:
  assumes "callerStep ev c a = Some (CallOK c' a')"
  shows "exCStep (exSys c (MTasks 0) a n) (CCall Main ev) (exSys c' (MTasks 0) a' n)"
  using cstep.c_call [of "exSys c (MTasks 0) a n" Main ev c' a' exCJ "\<lambda>s. s"] assms by simp

lemma c_step4: "exCStep c3 (CCall Main (EvNext [] [])) c4"
  unfolding c3_def c4_def
  by (rule ex_call)
    (simp add: callerStep_def beginTask_def exCaller_def regBegin_def nextReqID_def Let_def in_int64_def ex_client fun_eq_iff)

lemma c_step5: "exCStep c4 (CCall Main EvSend) c5"
  unfolding c4_def c5_def
  by (rule ex_call)
    (simp add: callerStep_def exCaller_def chanSend_def writeSend_def writeCap_def ex_client)

lemma c_step6: "exCStep c5 (CFrame 0 TypeNewProxyResp []) c6"
proof -
  have "clientFrame exCJ cl5 TypeNewProxyResp [] = CtlDeliver 0 exResp"
    by (simp add: clientFrame_def frame_types exCJ_def deliverPending_def ex_client exResp_def)
  then show ?thesis
    using cstep.c_frame [of c5 0 "exConnOf CtlRead" exCJ TypeNewProxyResp "[]" "CtlDeliver 0 exResp" "\<lambda>s. s"]
    by (simp add: c5_def c6_def)
qed

lemma c_step7: "exCStep c6 (CDeliverReply 0) c7"
  using cstep.c_deliver [of c6 0 "exConnOf (CtlBlocked 0 exResp)" 0 exResp "[exResp]" exCJ "\<lambda>s. s"]
  by (simp add: c6_def c7_def replySend_def) (simp add: ex_client)

lemma c_step8: "exCStep c7 (CCall Main EvReply) c8"
  unfolding c7_def c8_def
  by (rule ex_call)
    (simp add: callerStep_def exCaller_def replyRecv_def replyResult_def cl7_def cl8_def exResp_def)

lemma c_step9: "exCStep c8 (CCall Main EvLeave) c9"
  unfolding c8_def c9_def
  by (rule ex_call) (simp add: callerStep_def exCaller_def cl9_def exP_def)

lemma c_step10: "exCStep c9 CRegistered c10"
  using cstep.c_registered [of c9 0 exCJ "\<lambda>s. s"] by (simp add: c9_def c10_def exCaller_def)

lemma c_step11: "exCStep c10 (CReadError 0 EOF) c11"
  using cstep.c_readerr [of c10 0 "exConnOf CtlRead" exCJ "\<lambda>s. s" EOF] by (simp add: c10_def c11_def)

abbreviation exCReach :: "csys \<Rightarrow> bool" where
  "exCReach \<equiv> reachable (\<lambda>s. s = csys_init exCC) exCStep"

lemma c_next: "exCReach s \<Longrightarrow> exCStep s l t \<Longrightarrow> exCReach t"
  using reach_step [of "\<lambda>s. s = csys_init exCC" exCStep s l t] by blast

lemma c_reach0: "exCReach c0"
  using reach_init [of "\<lambda>s. s = csys_init exCC" c0 exCStep] c0_init by blast

lemmas c_reach3 = c_next [OF c_next [OF c_next [OF c_reach0 c_step1] c_step2] c_step3]

lemmas c_reach4 = c_next [OF c_reach3 c_step4]

lemmas c_reach7 = c_next [OF c_next [OF c_next [OF c_reach4 c_step5] c_step6] c_step7]

lemmas c_reach10 = c_next [OF c_next [OF c_next [OF c_reach7 c_step8] c_step9] c_step10]

lemmas c_reach11 = c_next [OF c_reach10 c_step11]

end
