(* ===== verification/NetScenario.thy ===== *)
theory NetScenario
  imports Net ClientScenario
begin

text \<open>
  The client and the server of the two scenarios, connected: the client logs in and registers its
  proxy, every message as the bytes that \<^verbatim>\<open>encoding/json\<close> makes of it.
\<close>

section \<open>Steps of the network\<close>

abbreviation exNet :: "net \<Rightarrow> bool" where
  "exNet \<equiv> reachable (net_start (\<lambda>_ _. None)) (unwrapped_net (\<lambda>s. s) (\<lambda>s. s))"

abbreviation goC :: "csys \<Rightarrow> clabel \<Rightarrow> csys \<Rightarrow> bool" where "goC \<equiv> go_cstep goClientDecoders (\<lambda>s. s)"
abbreviation goS :: "sys \<Rightarrow> label \<Rightarrow> sys \<Rightarrow> bool" where "goS \<equiv> go_sstep (\<lambda>s. s)"

text \<open>A reachable state in which the first connection is linked to the first session.\<close>

definition linked_at :: "csys \<Rightarrow> sys \<Rightarrow> nat \<Rightarrow> nat \<Rightarrow> bool" where
  "linked_at c sv a b \<longleftrightarrow>
     (\<exists>s. exNet s \<and> nt_cli s = c \<and> nt_srv s = sv \<and> nt_link s 0 = Some 0 \<and> 0 \<in> nt_mine s \<and>
        nt_up s 0 = a \<and> nt_down s 0 = b)"

lemma ex_net_next:
  "exNet s \<Longrightarrow> nstep (\<lambda>s. s) (\<lambda>s. s) s l t \<Longrightarrow> 0 \<le> cl_reqSeq (cli (nt_cli t)) \<Longrightarrow> exNet t"
  by (erule reach_step) (simp add: unwrapped_net_def)

lemma linked_step:
  "exNet s \<Longrightarrow> nstep (\<lambda>s. s) (\<lambda>s. s) s l t \<Longrightarrow> 0 \<le> cl_reqSeq (cli (nt_cli t)) \<Longrightarrow>
     nt_link t 0 = Some 0 \<Longrightarrow> 0 \<in> nt_mine t \<Longrightarrow> linked_at (nt_cli t) (nt_srv t) (nt_up t 0) (nt_down t 0)"
  unfolding linked_at_def by (blast intro: ex_net_next)

lemma linked_client:
  assumes "linked_at c sv a b" "goC c l c'" "client_alone l" "0 \<le> cl_reqSeq (cli c')"
  shows "linked_at c' sv a b"
proof -
  from assms(1) obtain s where s: "exNet s" "nt_cli s = c" "nt_srv s = sv" "nt_link s 0 = Some 0"
    "0 \<in> nt_mine s" "nt_up s 0 = a" "nt_down s 0 = b" by (auto simp: linked_at_def)
  from linked_step [OF s(1) n_client [OF assms(2) [folded s(2)] assms(3)]] assms(4) s show ?thesis by simp
qed

lemma linked_server:
  assumes "linked_at c sv a b" "goS sv l sv'" "\<And>mine. server_alone mine l" "0 \<le> cl_reqSeq (cli c)"
  shows "linked_at c sv' a b"
proof -
  from assms(1) obtain s where s: "exNet s" "nt_cli s = c" "nt_srv s = sv" "nt_link s 0 = Some 0"
    "0 \<in> nt_mine s" "nt_up s 0 = a" "nt_down s 0 = b" by (auto simp: linked_at_def)
  from linked_step [OF s(1) n_server [OF assms(2) [folded s(3)] assms(3)]] assms(4) s show ?thesis by simp
qed

lemma linked_handle:
  assumes "linked_at c sv a b" "goS sv (LHandle i bind) sv'" "0 \<le> cl_reqSeq (cli c)"
  shows "linked_at c sv' a b"
proof -
  from assms(1) obtain s where s: "exNet s" "nt_cli s = c" "nt_srv s = sv" "nt_link s 0 = Some 0"
    "0 \<in> nt_mine s" "nt_up s 0 = a" "nt_down s 0 = b" by (auto simp: linked_at_def)
  from linked_step [OF s(1) n_handle [OF assms(2) [folded s(3)]]] assms(3) s show ?thesis by simp
qed

lemma linked_up:
  assumes "linked_at c sv a b" "conns c 0 = Some n" "a < length (cn_wire n)" "r = cn_wire n ! a"
    "in_limit (encCMsg (wq_msg r))" "goS sv (LFrame 0 (wq_typ r) (encCMsg (wq_msg r))) sv'" "0 \<le> cl_reqSeq (cli c)"
  shows "linked_at c sv' (Suc a) b"
proof -
  from assms(1) obtain s where s: "exNet s" "nt_cli s = c" "nt_srv s = sv" "nt_link s 0 = Some 0"
    "0 \<in> nt_mine s" "nt_up s 0 = a" "nt_down s 0 = b" by (auto simp: linked_at_def)
  from linked_step [OF s(1) n_up [OF s(4)], of n r sv'] assms(2-7) s show ?thesis by simp
qed

lemma linked_down:
  assumes "linked_at c sv a b" "b < length (se_sent (hp_session (srv sv) 0))" "m = se_sent (hp_session (srv sv) 0) ! b"
    "in_limit (encSMsg (\<lambda>s. s) m)" "goC c (CFrame 0 (smsgType m) (encSMsg (\<lambda>s. s) m)) c'"
    "0 \<le> cl_reqSeq (cli c')"
  shows "linked_at c' sv a (Suc b)"
proof -
  from assms(1) obtain s where s: "exNet s" "nt_cli s = c" "nt_srv s = sv" "nt_link s 0 = Some 0"
    "0 \<in> nt_mine s" "nt_up s 0 = a" "nt_down s 0 = b" by (auto simp: linked_at_def)
  from linked_step [OF s(1) n_down [OF s(4)], of m c'] assms(2-6) s show ?thesis by simp
qed

lemma ex_in_limit:
  "in_limit (encCMsg (CNewProxy (newProxyMsg exP 1)))"
  "in_limit (encSMsg (\<lambda>s. s) (SNewProxyResp (okResp exNP 30000)))"
proof -
  show "in_limit (encCMsg (CNewProxy (newProxyMsg exP 1)))"
    using newProxy_length [of "newProxyMsg exP 1"] by (simp add: in_limit_def newProxyMsg_def exP_def in_int64_def)
  have "length (encNewProxyResp (\<lambda>s. s) (okResp exNP 30000)) \<le> 300"
    unfolding encNewProxyResp_def using Itoa_length [of 30000] Itoa_length [of 1]
    by (intro order_trans [OF marshal_length]) (simp add: okResp_def exNP_def omitEmpty_def errString_def in_int64_def)
  then show "in_limit (encSMsg (\<lambda>s. s) (SNewProxyResp (okResp exNP 30000)))" by (simp add: in_limit_def)
qed

section \<open>The execution\<close>

definition exDialN :: dial_env where
  "exDialN = exDial\<lparr>de_reply := Inr (smsgType (loginOK 0), encSMsg (\<lambda>s. s) (loginOK 0))\<rparr>"

definition cl6 :: Client where "cl6 = upd_chan 0 \<lparr>ch_buf = [], ch_closed = False\<rparr> cl4"

definition exConnW :: "ctlpc \<Rightarrow> cconn" where
  "exConnW x =
     \<lparr>cn_ctl = x, cn_writer = True, cn_wire = [newProxyReq exP 1], cn_ping = True, cn_stop = False\<rparr>"

definition d6 :: csys where
  "d6 = exSys cl6 (MTasks 0) (exCaller [] (RWait 1 0 exP) []) [0 \<mapsto> exConnW CtlRead]"
definition d7 :: csys where
  "d7 = exSys cl6 (MTasks 0) (exCaller [] (RWait 1 0 exP) []) [0 \<mapsto> exConnW (CtlBlocked 0 exResp)]"
definition d8 :: csys where
  "d8 = exSys (cl6\<lparr>hp_reply := (hp_reply cl6)(0 := [exResp])\<rparr>) (MTasks 0)
     (exCaller [] (RWait 1 0 exP) []) [0 \<mapsto> exConnW CtlRead]"

definition f3 :: sys where "f3 = ex2\<lparr>pcs := [0 \<mapsto> PcFrame TypeNewProxy (encNewProxy exNP)]\<rparr>"
definition f4 :: sys where
  "f4 = f3\<lparr>srv := installProxy (srv ex3) (newTCP (srv ex3) 0 exNP),
     pcs := [0 \<mapsto> PcReply (SNewProxyResp (okResp exNP 30000))]\<rparr>"
definition f5 :: sys where
  "f5 = f4\<lparr>srv := snd (sendMsg True 0 (SNewProxyResp (okResp exNP 30000)) (srv f4)), pcs := [0 \<mapsto> PcRead]\<rparr>"

lemma ex_messages: "newProxyMsg exP 1 = exNP" "clientLogin exCC 0 = exLogin"
  "sentNewProxyResp (\<lambda>s. s) (okResp exNP 30000) = exResp" "sentNewProxy exNP = exNP"
  by (simp_all add: newProxyMsg_def exP_def exNP_def clientLogin_def exCC_def exLogin_def defaultClient_def
      sentNewProxyResp_def okResp_def exResp_def sentError_def errString_def sentNewProxy_def valid_ascii)

lemma ex_fits: "in_int64 0" "in_int64 1" "in_int64 30000"
  by (simp_all add: in_int64_def)

lemma ex_connectN: "connect goClientDecoders (\<lambda>s. s) exDialN exCC (NewClient exCC) = (Inr 0, cl2)"
proof -
  have "readLoginReply goClientDecoders (de_reply exDialN) = None"
    by (simp add: exDialN_def loginOK_def readLoginReply_message in_int64_def)
  then have "handshakes goClientDecoders (\<lambda>s. s) exDialN exCC = None"
    by (simp add: handshakes_def exCC_def exDial_def exDialN_def)
  then show ?thesis
    by (simp add: connect_def exDialN_def exDial_def Let_def setSession_def clearSession_def cl2_def
        NewClient_def fun_eq_iff)
qed

text \<open>The client's steps with its real decoders.\<close>

lemma d_step1: "goC c0 CAttempt c1"
  using cstep.c_attempt [of c0 goClientDecoders "\<lambda>s. s"] by (simp add: go_cstep_def c0_def c1_def) (simp add: NewClient_def)

lemma d_step2: "goC c1 (CConnect exDialN 0) c2"
  using cstep.c_connect [of c1 exCC goClientDecoders "\<lambda>s. s" exDialN 0 cl2] ex_connectN
  by (simp add: go_cstep_def c1_def c2_def exConnOf_def)

lemma d_step3: "goC c2 (CList [''ssh'']) c3"
proof -
  have "lists_map [''ssh''] (cl_proxies cl2)" by (simp add: lists_map_def c_proxies)
  moreover have "proxyList [''ssh''] cl2 = [exP]"
    by (simp add: proxyList_def c_proxies List.map_filter_simps)
  ultimately show ?thesis
    using cstep.c_list [of c2 0 "[''ssh'']" goClientDecoders "\<lambda>s. s"]
    by (simp add: go_cstep_def c2_def c3_def exCaller_def idle_caller_def)
qed

lemma d_call:
  assumes "callerStep ev c a = Some (CallOK c' a')"
  shows "goC (exSys c (MTasks 0) a n) (CCall Main ev) (exSys c' (MTasks 0) a' n)"
  using cstep.c_call [of "exSys c (MTasks 0) a n" Main ev c' a' goClientDecoders "\<lambda>s. s"] assms
  by (simp add: go_cstep_def)

lemma d_step4: "goC c3 (CCall Main (EvNext [] [])) c4"
  unfolding c3_def c4_def
  by (rule d_call)
    (simp add: callerStep_def beginTask_def exCaller_def regBegin_def nextReqID_def Let_def in_int64_def ex_client fun_eq_iff)

lemma d_step5: "goC c4 (CCall Main EvSend) c5"
  unfolding c4_def c5_def
  by (rule d_call)
    (simp add: callerStep_def exCaller_def chanSend_def writeSend_def writeCap_def ex_client)

lemma d_step6: "goC c5 (CWrite 0 True) d6"
  using cstep.c_write [of c5 0 "exConnOf CtlRead" "newProxyReq exP 1" "\<lparr>ch_buf = [], ch_closed = False\<rparr>"
      goClientDecoders "\<lambda>s. s" True]
  by (simp add: go_cstep_def c5_def d6_def exConnW_def writeRecv_def cl5_def cl6_def)
    (simp add: exConnOf_def)

lemma d_step7: "goC d6 (CFrame 0 (smsgType (SNewProxyResp (okResp exNP 30000)))
    (encSMsg (\<lambda>s. s) (SNewProxyResp (okResp exNP 30000)))) d7"
proof -
  have f: "fitsSMsg (SNewProxyResp (okResp exNP 30000))" by (simp add: okResp_def exNP_def ex_fits)
  have "clientFrame goClientDecoders (cli d6) (smsgType (SNewProxyResp (okResp exNP 30000)))
      (encSMsg (\<lambda>s. s) (SNewProxyResp (okResp exNP 30000))) = CtlDeliver 0 exResp"
    unfolding clientFrame_message [OF f] takeSMsg.simps ex_messages
    by (simp add: deliverPending_def d6_def cl6_def cl4_def exResp_def)
  from cstep.c_frame [of d6 0 "exConnW CtlRead", OF _ _ _ this, of "\<lambda>s. s"]
  show ?thesis by (simp add: go_cstep_def d6_def d7_def exConnW_def)
qed

lemma d_step8: "goC d7 (CDeliverReply 0) d8"
  using cstep.c_deliver [of d7 0 "exConnW (CtlBlocked 0 exResp)" 0 exResp "[exResp]" goClientDecoders "\<lambda>s. s"]
  by (simp add: go_cstep_def d7_def d8_def replySend_def exConnW_def) (simp add: cl6_def ex_client)

text \<open>The server's.\<close>

lemma f_step1: "goS ex0 (LAdmit 1 exLogin ''h'' 0) ex1"
  using sstep.admit [of ex0 exLogin 0 goDecoders "\<lambda>s. s" 1 "''h''"] ex_verdict
  by (simp add: go_sstep_def ex1_def) (simp add: ex_srv exServer_def emptyServer_def)

lemma f_step2: "goS ex1 (LWelcome 0 0 True) ex2"
  using sstep.greet [of ex1 0 goDecoders "\<lambda>s. s" 0 True]
  by (simp add: go_sstep_def ex2_def in_int64_def) (simp add: ex1_def)

lemma f_step3: "goS ex2 (LFrame 0 TypeNewProxy (encNewProxy exNP)) f3"
  using sstep.frame [of ex2 0 goDecoders "\<lambda>s. s" TypeNewProxy "encNewProxy exNP"]
  by (simp add: go_sstep_def f3_def) (simp add: ex2_def)

lemma f_step4: "goS f3 (LHandle 0 None) f4"
proof -
  have "ctlHandle goDecoders (\<lambda>s. s) None TypeNewProxy (encNewProxy exNP) (srv f3) 0 =
      (Some (SNewProxyResp (okResp exNP 30000)), srv f4)"
    using ctlHandle_message [of "CNewProxy exNP" "\<lambda>s. s" None "srv f3" 0] ex_register
    by (simp add: ex_messages f3_def f4_def ex3_def) (simp add: exNP_def ex_fits)
  from sstep.handle [OF _ this] show ?thesis by (simp add: go_sstep_def f3_def f4_def)
qed

lemma f_step5: "goS f4 (LReply 0 True) f5"
  using sstep.reply [of f4 0 "SNewProxyResp (okResp exNP 30000)" goDecoders "\<lambda>s. s" True]
  by (simp add: go_sstep_def f5_def) (simp add: f4_def)

lemma ex_sent2: "se_sent (hp_session (srv ex2) 0) = [loginOK 0]"
  by (simp add: ex_srv sendMsg_def admitted_def newSession_def exServer_def emptyServer_def)

lemma ex_sent5: "se_sent (hp_session (srv f5) 0) = [loginOK 0, SNewProxyResp (okResp exNP 30000)]"
proof -
  have "se_sent (hp_session (installProxy (srv ex3) P) 0) = [loginOK 0]" for P
    using ex_sent2 by (simp add: installProxy_def Let_def ex3_def)
  then show ?thesis by (simp add: f5_def f4_def sendMsg_sent)
qed

text \<open>The two together, from the start to the reply.\<close>

lemma ex_net2: "linked_at c2 ex2 0 1"
proof -
  let ?n0 = "\<lparr>nt_cli = c0, nt_srv = ex0, nt_dialled = None, nt_link = Map.empty, nt_mine = {},
    nt_up = (\<lambda>_. 0), nt_down = (\<lambda>_. 0), nt_regs = []\<rparr>"
  have seq: "cl_reqSeq (cli c0) = 0" "cl_reqSeq (cli c1) = 0" "cl_reqSeq (cli c2) = 0"
    by (simp_all add: c0_def c1_def c2_def cl2_def NewClient_def)
  have "config_fits exCC" by (simp add: config_fits_def exCC_def exP_def ex_fits)
  then have "net_start (\<lambda>_ _. None) ?n0"
    using ex_start c0_init by (auto simp: net_start_def go_start_def)
  then have n0: "exNet ?n0" by (rule reach_init)
  have n1: "exNet (?n0\<lparr>nt_cli := c1\<rparr>)"
    using ex_net_next [OF n0 n_client [of "\<lambda>s. s" ?n0 CAttempt c1]] d_step1 seq by simp
  have "valid_utf8 (cc_ClientID exCC)" by (simp add: exCC_def valid_ascii)
  then have "goLogin (encLogin (clientLogin exCC 0)) = Some exLogin"
    using decoded_clientLogin [of exCC 0] by (simp add: ex_messages ex_fits)
  moreover have "mpc c1 = MDial exCC" by (simp add: c1_def)
  moreover have "nx_sid (srv ex0) = 0" by (simp add: ex0_def sys_init_def exServer_def emptyServer_def)
  ultimately have n2: "exNet (?n0\<lparr>nt_cli := c1, nt_srv := ex1, nt_dialled := Some 0, nt_mine := {0}\<rparr>)"
    using ex_net_next [OF n1 n_admit [of "?n0\<lparr>nt_cli := c1\<rparr>" exCC 0 exLogin "\<lambda>s. s" 1 "''h''" 0 ex1]]
      f_step1 seq by simp
  have n3: "exNet (?n0\<lparr>nt_cli := c1, nt_srv := ex2, nt_dialled := Some 0, nt_mine := {0}\<rparr>)"
    using ex_net_next [OF n2 n_server, of "LWelcome 0 0 True" ex2] f_step2 seq by simp
  show ?thesis
    using linked_step [OF n3 n_connect, of 0 "loginOK 0" "[]" exDialN 0 c2] d_step2 ex_sent2 seq
    by (simp add: exDialN_def)
qed

lemma ex_net5: "linked_at c5 ex2 0 1"
  by (rule linked_client [OF linked_client [OF linked_client [OF ex_net2 d_step3] d_step4] d_step5])
    (simp_all add: c3_def c4_def c5_def cl5_def cl4_def cl2_def NewClient_def)

lemma ex_net_seq: "cl_reqSeq (cli d6) = 1" "cl_reqSeq (cli d7) = 1" "cl_reqSeq (cli d8) = 1"
  by (simp_all add: d6_def d7_def d8_def cl6_def cl4_def)

lemma ex_net_up: "linked_at d6 f3 1 1"
proof -
  have "linked_at d6 ex2 0 1" by (rule linked_client [OF ex_net5 d_step6]) (simp_all add: ex_net_seq)
  moreover have "conns d6 0 = Some (exConnW CtlRead)" by (simp add: d6_def)
  moreover have "cn_wire (exConnW CtlRead) = [newProxyReq exP 1]" by (simp add: exConnW_def)
  ultimately have "linked_at d6 f3 (Suc 0) 1"
    using f_step3 ex_in_limit(1)
    by (intro linked_up [of d6 ex2 0 1 "exConnW CtlRead" "newProxyReq exP 1"])
      (simp_all add: newProxyReq_def ex_messages ex_net_seq)
  then show ?thesis by simp
qed

lemma ex_net_handled: "linked_at d6 f5 1 1"
  by (rule linked_server [OF linked_handle [OF ex_net_up f_step4] f_step5]) (simp_all add: ex_net_seq)

lemma ex_net8: "linked_at d8 f5 1 2"
proof -
  have "linked_at d7 f5 1 (Suc 1)"
    by (rule linked_down [OF ex_net_handled _ _ _ d_step7]) (simp_all add: ex_sent5 ex_in_limit(2) [simplified] ex_net_seq)
  from linked_client [OF this d_step8] show ?thesis by (simp add: ex_net_seq numeral_2_eq_2)
qed

end
