(* ===== verification/Counters.thy ===== *)
theory Counters
  imports ServerInv
begin

text \<open>
  The connection counters of \<^verbatim>\<open>internal/server/session.go\<close>: in every reachable state the
  counter of a session and that of a proxy are the numbers of their streams that are joined with a
  visitor. The counters wrap around at 64 bits like \<^verbatim>\<open>atomic.Int64\<close>.
\<close>

section \<open>Operations that do not count\<close>

definition counts_kept :: "Server \<Rightarrow> Server \<Rightarrow> bool" where
  "counts_kept s t \<longleftrightarrow>
     (\<forall>i. se_activeConns (hp_session t i) = se_activeConns (hp_session s i)) \<and>
     (\<forall>p. px_active (hp_proxy t p) = px_active (hp_proxy s p)) \<and>
     nx_sid s \<le> nx_sid t \<and> nx_pid s \<le> nx_pid t"

named_theorems count_intros \<open>operations that leave the connection counters alone\<close>

lemma counts_refl [simp, count_intros]: "counts_kept s s"
  by (simp add: counts_kept_def)

lemma counts_trans: "counts_kept s t \<Longrightarrow> counts_kept t u \<Longrightarrow> counts_kept s u"
  by (simp add: counts_kept_def)

lemma sendMsg_counts [count_intros]: "counts_kept s (snd (sendMsg ok i m s))"
  by (simp add: counts_kept_def sendMsg_def)

lemma closeConn_counts [count_intros]: "counts_kept s (closeConn c s)"
  by (simp add: counts_kept_def closeConn_def)

lemma requeue_counts:
  "px_active P = px_active (hp_proxy s p) \<Longrightarrow> counts_kept s (s\<lparr>hp_proxy := (hp_proxy s)(p := P)\<rparr>)"
  by (simp add: counts_kept_def)

lemma notifyFailed_counts [count_intros]: "counts_kept s (notifyFailed s p c)"
  by (auto simp: counts_kept_def notifyFailed_def closeConn_def dest!: visitorRecv_core
      split: option.splits)

lemma notifyClient_counts [count_intros]: "counts_kept s (notifyClient s p c ok)"
  by (cases ok)
    (simp add: notifyClient_def Let_def sendMsg_def counts_kept_def,
     simp add: notifyClient_def Let_def sendMsg_def notifyFailed_counts)

lemma queueVisitor_counts: "queueVisitor s p c = (b, t) \<Longrightarrow> counts_kept s t"
  by (auto simp: queueVisitor_def counts_kept_def closeConn_def dest!: visitorSend_core
      split: option.splits)

lemma remove_counts [count_intros]: "counts_kept s (removeProxyLocked s p)"
  by (simp add: counts_kept_def reg_simps)

lemma closeProxy_counts [count_intros]: "counts_kept s (closeProxy s i n)"
  by (auto simp: closeProxy_def intro: count_intros split: option.splits)

lemma dropLoop_counts [count_intros]: "counts_kept s (dropLoop ord i s)"
  by (induction ord arbitrary: s) (auto intro: counts_trans remove_counts split: option.splits)

lemma CloseSession_counts [count_intros]: "counts_kept s (CloseSession ord s i)"
proof -
  have "counts_kept s (dropSession ord s i)"
    using dropLoop_counts [of "forgotten s i" ord i]
    by (auto simp: dropSession_unfold Let_def counts_kept_def split: if_splits)
  then show ?thesis by (auto simp: CloseSession_def Let_def counts_kept_def)
qed

text \<open>New objects start at zero.\<close>

lemma install_counts:
  "px_active (hp_proxy s (nx_pid s)) = 0 \<Longrightarrow> px_active P = 0 \<Longrightarrow> counts_kept s (installProxy s P)"
  by (auto simp: counts_kept_def installProxy_def Let_def)

lemma registerProxy_counts:
  assumes "px_active (hp_proxy s (nx_pid s)) = 0"
  shows "counts_kept s (snd (registerProxy u s i np b))"
  using install_counts [OF assms]
  by (auto simp: registerProxy_def registerTCPProxy_spec registerHTTPProxy_spec tcpProxy_def httpProxy_def
      split: option.splits)

lemma ctlHandle_counts:
  assumes "px_active (hp_proxy s (nx_pid s)) = 0" "ctlHandle J u b ty payload s i = (m, t)"
  shows "counts_kept s t"
proof -
  have r: "registerProxy u s i np b = (resp, t) \<Longrightarrow> counts_kept s t" for np resp
    using registerProxy_counts [OF assms(1), of u i np b] by simp
  from assms(2) show ?thesis
    by (auto simp: ctlHandle_def intro: r closeProxy_counts split: if_splits option.splits prod.splits)
qed

lemma allocated_counts:
  "se_activeConns (hp_session s (nx_sid s)) = 0 \<Longrightarrow> counts_kept s (allocated s conn lg ra now)"
  by (simp add: counts_kept_def allocated_def newSession_def)

lemma admitted_counts:
  "se_activeConns (hp_session s (nx_sid s)) = 0 \<Longrightarrow> counts_kept s (admitted s conn lg ra now)"
  by (simp add: counts_kept_def admitted_def newSession_def)

lemma loginFail_counts [count_intros]: "counts_kept s (snd (loginFail ok i conn m s))"
  by (auto simp: loginFail_def intro: counts_trans closeConn_counts sendMsg_counts)

section \<open>The invariant\<close>

definition session_streams :: "sid \<Rightarrow> sys \<Rightarrow> nat" where
  "session_streams i s = length (filter (\<lambda>(j, p, v, c). j = i) (joined s))"

definition proxy_streams :: "pid \<Rightarrow> sys \<Rightarrow> nat" where
  "proxy_streams q s = length (filter (\<lambda>(j, p, v, c). p = q) (joined s))"

definition known :: "Server \<Rightarrow> sid \<Rightarrow> pid \<Rightarrow> bool" where
  "known s i p \<longleftrightarrow> i < nx_sid s \<and> p < nx_pid s"

definition counted :: "sys \<Rightarrow> bool" where
  "counted s \<longleftrightarrow>
     (\<forall>i. se_activeConns (hp_session (srv s) i) = of_nat (session_streams i s)) \<and>
     (\<forall>p. px_active (hp_proxy (srv s) p) = of_nat (proxy_streams p s)) \<and>
     (\<forall>(i, p, c) \<in> set (waiting s). known (srv s) i p) \<and>
     (\<forall>(i, p, v, c) \<in> set (joined s). known (srv s) i p)"

lemma known_mono: "counts_kept s t \<Longrightarrow> known s i p \<Longrightarrow> known t i p"
  by (auto simp: counts_kept_def known_def)

lemma counted_fresh:
  assumes "counted s"
  shows "se_activeConns (hp_session (srv s) (nx_sid (srv s))) = 0"
    and "px_active (hp_proxy (srv s) (nx_pid (srv s))) = 0"
proof -
  have "session_streams (nx_sid (srv s)) s = 0" "proxy_streams (nx_pid (srv s)) s = 0"
    using assms unfolding counted_def session_streams_def proxy_streams_def known_def
    by (fastforce simp: filter_empty_conv)+
  with assms show "se_activeConns (hp_session (srv s) (nx_sid (srv s))) = 0"
    "px_active (hp_proxy (srv s) (nx_pid (srv s))) = 0"
    by (simp_all add: counted_def)
qed

text \<open>A step that joins and finishes nothing.\<close>

lemma counted_frame:
  assumes "counted s" "counts_kept (srv s) (srv t)" "joined t = joined s"
    and "\<forall>(i, p, c) \<in> set (waiting t). (i, p, c) \<in> set (waiting s) \<or> known (srv t) i p"
  shows "counted t"
proof -
  have "known (srv t) i p" if "(i, p, c) \<in> set (waiting t)" for i p c
    using that assms(1,4) known_mono [OF assms(2), of i p] unfolding counted_def by fastforce
  moreover have "known (srv t) i p" if "(i, p, v, c) \<in> set (joined t)" for i p v c
    using that assms(1,3) known_mono [OF assms(2), of i p] unfolding counted_def by fastforce
  ultimately show ?thesis
    using assms(1-3) unfolding counted_def counts_kept_def session_streams_def proxy_streams_def by auto
qed

lemma filter_remove1_length:
  "x \<in> set xs \<Longrightarrow> length (filter P xs) = length (filter P (remove1 x xs)) + (if P x then 1 else 0)"
  by (induction xs) auto

text \<open>The proxy of a stream has been looked up in the table of its session.\<close>

lemma streamProxy_known:
  assumes "reg_inv s" "i < nx_sid s" "streamProxy J s i fr = Some p"
  shows "known s i p"
proof -
  from assms(3) obtain n where "se_proxies (hp_session s i) n = Some p"
    by (auto simp: streamProxy_def split: sum.splits if_splits option.splits)
  with assms(1,2) show ?thesis
    using owned_registered [OF assms(1), of i n p] registered_bound [of s p]
    by (auto simp: known_def reg_inv_def)
qed

lemma counted_take:
  assumes c: "counted s" and w: "(i, p, st) \<in> set (waiting s)"
    and t: "streamSelect (srv s) i p st = (Some v, s1)"
  shows "counted (s\<lparr>srv := s1, waiting := remove1 (i, p, st) (waiting s),
    joined := joined s @ [(i, p, v, st)]\<rparr>)"
proof -
  from t obtain P where P: "visitorRecv (hp_proxy (srv s) p) = Some (v, P)"
    "s1 = upd_session i (\<lambda>se. se\<lparr>se_activeConns := se_activeConns se + 1\<rparr>)
       ((srv s)\<lparr>hp_proxy := (hp_proxy (srv s))(p := P\<lparr>px_active := px_active P + 1\<rparr>)\<rparr>)"
    by (auto simp: streamSelect_def split: option.splits)
  have a: "px_active P = px_active (hp_proxy (srv s) p)"
    using visitorRecv_core [OF P(1)] by (auto dest: arg_cong [of _ _ px_active])
  have k: "known (srv s) i p" using c w by (auto simp: counted_def)
  have w': "known (srv s) j q" if "(j, q, d) \<in> set (remove1 (i, p, st) (waiting s))" for j q d
    using c set_mp [OF set_remove1_subset that] by (auto simp: counted_def)
  show ?thesis
    using c k a w' unfolding counted_def session_streams_def proxy_streams_def known_def
    by (auto simp: P(2))
qed

lemma streamDone_nx: "nx_sid (streamDone s i p v st out inn) = nx_sid s"
  "nx_pid (streamDone s i p v st out inn) = nx_pid s"
  by (simp_all add: streamDone_def)

lemma counted_finish:
  assumes c: "counted s" and j: "(i, p, v, st) \<in> set (joined s)"
  shows "counted (s\<lparr>srv := streamDone (srv s) i p v st out inn, joined := remove1 (i, p, v, st) (joined s)\<rparr>)"
proof -
  let ?j = "remove1 (i, p, v, st) (joined s)" and ?s = "streamDone (srv s) i p v st out inn"
  have sub: "x \<in> set ?j \<Longrightarrow> x \<in> set (joined s)" for x by (rule set_mp [OF set_remove1_subset])
  have n1: "length (filter (\<lambda>(j, p, v, c). j = k) (joined s)) =
      length (filter (\<lambda>(j, p, v, c). j = k) ?j) + (if i = k then 1 else 0)" for k
    using filter_remove1_length [OF j, of "\<lambda>(j, p, v, c). j = k"] by simp
  have n2: "length (filter (\<lambda>(j, p, v, c). p = q) (joined s)) =
      length (filter (\<lambda>(j, p, v, c). p = q) ?j) + (if p = q then 1 else 0)" for q
    using filter_remove1_length [OF j, of "\<lambda>(j, p, v, c). p = q"] by simp
  have a: "se_activeConns (hp_session ?s k) =
      se_activeConns (hp_session (srv s) k) - (if i = k then 1 else 0)" for k
    by (simp add: streamDone_def)
  have b: "px_active (hp_proxy ?s q) = px_active (hp_proxy (srv s) q) - (if p = q then 1 else 0)" for q
    by (simp add: streamDone_def)
  have "\<forall>(i, p, v, c) \<in> set ?j. known ?s i p"
    using c sub by (auto simp: counted_def known_def streamDone_nx)
  moreover have "\<forall>(i, p, c) \<in> set (waiting s). known ?s i p"
    using c by (auto simp: counted_def known_def streamDone_nx)
  ultimately show ?thesis
    using c unfolding counted_def session_streams_def proxy_streams_def
    by (simp add: a b n1 n2)
qed

lemma counted_step:
  assumes c: "counted s" and inv: "sys_inv s" and st: "sstep J u s l t"
  shows "counted t"
  using st
proof (cases rule: sstep.cases)
  case (reject lg now m conn ra ok)
  then show ?thesis
    using counts_trans [OF allocated_counts [OF counted_fresh(1) [OF c]] loginFail_counts]
    by (intro counted_frame [OF c]) auto
next
  case (admit lg now conn ra)
  then show ?thesis
    using admitted_counts [OF counted_fresh(1) [OF c]] by (intro counted_frame [OF c]) auto
next
  case (handle i ty payload bind m s1)
  then show ?thesis
    using ctlHandle_counts [OF counted_fresh(2) [OF c]] by (intro counted_frame [OF c]) auto
next
  case (visitor p c' b s1)
  then show ?thesis using queueVisitor_counts by (intro counted_frame [OF c]) auto
next
  case (stream i st fr)
  have k: "known (srv s) i p" if "streamProxy J (srv s) i fr = Some p" for p
    using streamProxy_known [OF _ stream(3) that] inv by (simp add: sys_inv_def)
  show ?thesis
    using stream k
    by (intro counted_frame [OF c]) (auto intro: closeConn_counts split: option.splits)
next
  case (take i p st v s1)
  with counted_take [OF c take(3,4)] show ?thesis by simp
next
  case (timeout i p st)
  then show ?thesis
    by (intro counted_frame [OF c])
      (auto intro: closeConn_counts dest: set_mp [OF set_remove1_subset])
next
  case (finish i p v st out inn)
  with counted_finish [OF c finish(3)] show ?thesis by simp
qed (intro counted_frame [OF c], auto intro: count_intros)+

lemma counted_start: "sys_start loadCert s \<Longrightarrow> counted s"
  by (auto simp: sys_start_def sys_init_def counted_def session_streams_def proxy_streams_def
      emptyServer_def newSession_def nilProxy_def elim!: New_Inr)

interpretation counters: strengthened_system "sys_start loadCert" "sstep J u" sys_inv counted for loadCert J u
proof
  show "sys_start loadCert s \<Longrightarrow> counted s" for s by (rule counted_start)
  show "sys_inv s \<Longrightarrow> counted s \<Longrightarrow> sstep J u s l t \<Longrightarrow> counted t" for s l t
    by (rule counted_step)
qed

end
