(* ===== verification/Isolation.thy ===== *)
theory Isolation
  imports ServerInv
begin

text \<open>
  Whose visitors the server relays: \<^verbatim>\<open>deliverVisitor\<close> of \<^verbatim>\<open>internal/server/server.go\<close> against
  \<^verbatim>\<open>handleDataStream\<close> of \<^verbatim>\<open>session.go\<close>. A stream is joined only with a visitor of a proxy of its own
  session, and neither twice. The theory ends with the visitor that comes too late for its proxy.
\<close>

section \<open>What a step does to a queue\<close>

abbreviation queue :: "Server \<Rightarrow> pid \<Rightarrow> cid list" where
  "queue s p \<equiv> px_visitors (hp_proxy s p)"

lemma notifyClient_queue:
  "queue (notifyClient s p c ok) q = (if q = p \<and> \<not> ok then tl (queue s p) else queue s q)"
  by (cases ok; cases "queue s p")
    (auto simp: notifyClient_def Let_def sendMsg_def notifyFailed_def closeConn_def visitorRecv_def)

lemma queueVisitor_queue:
  "queueVisitor s p c = (b, t) \<Longrightarrow> queue t q = (if q = p \<and> b then queue s p @ [c] else queue s q)"
  by (auto simp: queueVisitor_def closeConn_def visitorSend_def split: if_splits)

lemma streamSelect_queue:
  "streamSelect s i p st = (Some v, t) \<Longrightarrow>
     queue s p = v # queue t p \<and> (q \<noteq> p \<longrightarrow> queue t q = queue s q)"
  by (auto simp: streamSelect_def visitorRecv_def split: option.splits list.splits)

lemma streamDone_queue: "queue (streamDone s i p v st out inn) q = queue s q"
  by (simp add: streamDone_def)

lemma loginFail_queue: "queue (snd (loginFail ok i conn m s)) q = queue s q"
  by (simp add: loginFail_def closeConn_def)

lemma CloseSession_queue:
  assumes "reg_inv s" "iterates ord s i"
  shows "queue (CloseSession ord s i) q = queue s q \<or> registered s q \<and> queue (CloseSession ord s i) q = []"
proof (cases "se_closed (hp_session s i)")
  case False
  with assms(2) have "covers ord s i" by (simp add: iterates_def)
  from CloseSession_releases(2) [OF assms(1) False this, of q] show ?thesis by simp
qed (simp add: CloseSession_def)

lemma ctlHandle_queue:
  assumes "reg_inv s" "i < nx_sid s" "ctlHandle J u b ty payload s i = (m, t)"
  shows "queue t q = queue s q \<or> (registered s q \<or> q = nx_pid s) \<and> queue t q = []"
  using assms(3)
proof (cases rule: ctlHandle_cases)
  case (register np resp)
  have new: "px_visitors (newTCP s i np) = []" "px_visitors (newHTTP u s i np) = []"
    by (simp_all add: tcpProxy_def httpProxy_def)
  show ?thesis
    by (rule registerProxy_cases [OF assms(1,2) register(2)]) (simp_all add: reg_simps new)
next
  case (remove n)
  then show ?thesis
    using owned_registered [OF assms(1), of i n] by (auto simp: closeProxy_def reg_simps split: option.splits)
qed simp

text \<open>A queue loses its head, is emptied, or grows by the visitor that has just come.\<close>

lemma step_queue:
  assumes "sstep J u s l t" "sys_inv s"
  shows "queue (srv t) q = queue (srv s) q
    \<or> (registered (srv s) q \<or> q = nx_pid (srv s)) \<and> queue (srv t) q = []
    \<or> (\<exists>c. l = LVisitor q c \<and> queue (srv t) q = queue (srv s) q @ [c])
    \<or> (\<exists>c. l = LNotify q c False \<and> queue (srv t) q = tl (queue (srv s) q))
    \<or> (\<exists>i st v. l = LTake i q st \<and> (i, q, st) \<in> set (waiting s) \<and> queue (srv s) q = v # queue (srv t) q \<and>
         joined t = joined s @ [(i, q, v, st)])"
  using assms(1)
proof (cases rule: sstep.cases)
  case (handle i ty payload bind m s1)
  then have "i < nx_sid (srv s)" using assms(2) by (force simp: sys_inv_def)
  with ctlHandle_queue [OF _ this handle(4), of q] assms(2) handle show ?thesis by (auto simp: sys_inv_def)
next
  case (kick i j ord)
  with CloseSession_queue [of "srv s" ord j q] assms(2) show ?thesis by (auto simp: sys_inv_def)
next
  case (close i ord)
  with CloseSession_queue [of "srv s" ord i q] assms(2) show ?thesis by (auto simp: sys_inv_def)
next
  case (shutdown i ord)
  with CloseSession_queue [of "srv s" ord i q] assms(2) show ?thesis by (auto simp: sys_inv_def)
next
  case (visitor p c b s1)
  with queueVisitor_queue [OF visitor(4), of q] show ?thesis by auto
next
  case (notify p c ok)
  with notifyClient_queue [of "srv s" p c ok q] show ?thesis by auto
next
  case (take i p st v s1)
  with streamSelect_queue [OF take(4), of q] show ?thesis by auto
next
  case (stream i fr st)
  then show ?thesis by (auto simp: closeConn_def split: option.splits)
qed (simp_all add: loginFail_queue streamDone_queue allocated_def admitted_def closeConn_def)

section \<open>The session of a proxy never changes\<close>

lemma step_session_of:
  assumes "sstep J u s l t" "sys_inv s"
  shows "nx_pid (srv s) \<le> nx_pid (srv t)"
    and "p < nx_pid (srv s) \<Longrightarrow> px_session (hp_proxy (srv t) p) = px_session (hp_proxy (srv s) p)"
    and "p < nx_pid (srv s) \<Longrightarrow> registered (srv t) p \<Longrightarrow> registered (srv s) p"
proof -
  from assms(2) have k: "inv_keys (srv s)" by (simp add: sys_inv_def reg_inv_def)
  have "nx_pid (srv s) \<le> nx_pid (srv t) \<and> (p < nx_pid (srv s) \<longrightarrow>
      px_session (hp_proxy (srv t) p) = px_session (hp_proxy (srv s) p) \<and>
      (registered (srv t) p \<longrightarrow> registered (srv s) p))" (is "?C")
    using step_evolves [OF assms] unfolding evolves_def
  proof (elim disjE exE conjE)
    fix P assume "shrinks P (srv s) (srv t)"
    then show ?C by (simp add: shrinks_def same_core_def)
  next
    fix Pr assume "installable (srv s) Pr" "srv t = installProxy (srv s) Pr"
    with k show ?C by (auto simp: reg_simps installable_def install_registered)
  qed
  then show "nx_pid (srv s) \<le> nx_pid (srv t)"
    "p < nx_pid (srv s) \<Longrightarrow> px_session (hp_proxy (srv t) p) = px_session (hp_proxy (srv s) p)"
    "p < nx_pid (srv s) \<Longrightarrow> registered (srv t) p \<Longrightarrow> registered (srv s) p" by simp_all
qed

lemma streamProxy_registered:
  assumes "sys_inv s" "streamProxy J (srv s) i fr = Some p"
  shows "registered (srv s) p" "px_session (hp_proxy (srv s) p) = i" "p < nx_pid (srv s)"
proof -
  from assms(2) obtain n where "se_proxies (hp_session (srv s) i) n = Some p"
    by (auto simp: streamProxy_def split: sum.splits prod.splits if_splits option.splits)
  with assms(1) show "registered (srv s) p" "px_session (hp_proxy (srv s) p) = i"
    by (auto simp: sys_inv_def dest: owned_registered)
  with assms(1) show "p < nx_pid (srv s)" by (simp add: sys_inv_def reg_inv_def registered_bound)
qed

section \<open>Visitors and streams, counted\<close>

definition tally :: "('a \<Rightarrow> bool) \<Rightarrow> 'a list \<Rightarrow> nat" where
  "tally P xs = length (filter P xs)"

lemma tally_simps [simp]:
  "tally P [] = 0" "tally P (x # xs) = (if P x then 1 else 0) + tally P xs"
  "tally P (xs @ ys) = tally P xs + tally P ys"
  by (simp_all add: tally_def)

lemma tally_remove1:
  "x \<in> set xs \<Longrightarrow> (if P x then 1 else 0) + tally P (remove1 x xs) = tally P xs"
  by (induction xs) auto

lemma tally_tl: "tally P (tl xs) \<le> tally P xs"
  by (cases xs) simp_all

fun visitComes :: "pid \<Rightarrow> cid \<Rightarrow> label \<Rightarrow> bool" where
  "visitComes p v (LVisitor q c) = (q = p \<and> c = v)"
| "visitComes p v _ = False"

fun streamComes :: "sid \<Rightarrow> cid \<Rightarrow> label \<Rightarrow> bool" where
  "streamComes i st (LStream j c fr) = (j = i \<and> c = st)"
| "streamComes i st _ = False"

fun visitEnds :: "pid \<Rightarrow> cid \<Rightarrow> label \<Rightarrow> bool" where
  "visitEnds p v (LDone j q w c out inn) = (q = p \<and> w = v)"
| "visitEnds p v _ = False"

fun streamEnds :: "sid \<Rightarrow> cid \<Rightarrow> label \<Rightarrow> bool" where
  "streamEnds i st (LDone j q w c out inn) = (j = i \<and> c = st)"
| "streamEnds i st _ = False"

text \<open>The joins of a visitor and of a stream that still run.\<close>

definition visitorJoins :: "pid \<Rightarrow> cid \<Rightarrow> sys \<Rightarrow> nat" where
  "visitorJoins p v s = tally (\<lambda>(i, q, w, st). q = p \<and> w = v) (joined s)"

definition streamJoins :: "sid \<Rightarrow> cid \<Rightarrow> sys \<Rightarrow> nat" where
  "streamJoins i st s = tally (\<lambda>(j, q, w, c). j = i \<and> c = st) (joined s)"

definition streamWaits :: "sid \<Rightarrow> cid \<Rightarrow> sys \<Rightarrow> nat" where
  "streamWaits i st s = tally (\<lambda>(j, q, c). j = i \<and> c = st) (waiting s)"

text \<open>
  After the labels \<open>pre\<close>: whoever waits or is joined belongs to the session of the proxy, and every
  visit and every stream is queued, joined or done at most as often as it came.
\<close>

definition traced :: "label list \<Rightarrow> sys \<Rightarrow> bool" where
  "traced pre s \<longleftrightarrow>
     (\<forall>(i, p, st) \<in> set (waiting s). p < nx_pid (srv s) \<and> px_session (hp_proxy (srv s) p) = i) \<and>
     (\<forall>(i, p, v, st) \<in> set (joined s). p < nx_pid (srv s) \<and> px_session (hp_proxy (srv s) p) = i) \<and>
     (\<forall>p v. tally (\<lambda>c. c = v) (queue (srv s) p) + visitorJoins p v s + tally (visitEnds p v) pre
        \<le> tally (visitComes p v) pre) \<and>
     (\<forall>i st. streamWaits i st s + streamJoins i st s + tally (streamEnds i st) pre \<le> tally (streamComes i st) pre)"

lemma traced_start: "sys_start loadCert s \<Longrightarrow> traced [] s"
  by (auto simp: sys_start_def sys_init_def traced_def visitorJoins_def streamJoins_def streamWaits_def emptyServer_def nilProxy_def
      elim!: New_Inr)

text \<open>The part of the server that is not the queues.\<close>

lemma step_owner:
  assumes "sstep J u s l t" "sys_inv s" "traced pre s"
  shows "(i, p, st) \<in> set (waiting t) \<Longrightarrow> p < nx_pid (srv t) \<and> px_session (hp_proxy (srv t) p) = i"
    and "(i, p, v, st) \<in> set (joined t) \<Longrightarrow> p < nx_pid (srv t) \<and> px_session (hp_proxy (srv t) p) = i"
proof -
  note keep = step_session_of(1,2) [OF assms(1,2)]
  have w: "(i, p, st) \<in> set (waiting s) \<Longrightarrow> p < nx_pid (srv s) \<and> px_session (hp_proxy (srv s) p) = i"
    and j: "(i, p, v, st) \<in> set (joined s) \<Longrightarrow> p < nx_pid (srv s) \<and> px_session (hp_proxy (srv s) p) = i"
    for i p st v
    using assms(3) by (auto simp: traced_def)
  have "(i, p, st) \<in> set (waiting t) \<Longrightarrow>
      (i, p, st) \<in> set (waiting s) \<or> (p < nx_pid (srv s) \<and> px_session (hp_proxy (srv s) p) = i)" for i p st
    using assms(1) by (auto elim!: sstep.cases split: option.splits
        dest: streamProxy_registered [OF assms(2)] notin_set_remove1 set_remove1_subset [THEN subsetD])
  with w keep show "(i, p, st) \<in> set (waiting t) \<Longrightarrow> p < nx_pid (srv t) \<and> px_session (hp_proxy (srv t) p) = i"
    by (metis order_less_le_trans)
  have "(i, p, v, st) \<in> set (joined t) \<Longrightarrow> (i, p, v, st) \<in> set (joined s) \<or> (i, p, st) \<in> set (waiting s)"
    for i p v st
    using assms(1) by (auto elim!: sstep.cases split: option.splits
        dest: notin_set_remove1 set_remove1_subset [THEN subsetD])
  with w j keep show "(i, p, v, st) \<in> set (joined t) \<Longrightarrow> p < nx_pid (srv t) \<and> px_session (hp_proxy (srv t) p) = i"
    by (metis order_less_le_trans)
qed

text \<open>One step moves a visitor from the queue to the joins, from there to the finished ones.\<close>

lemma step_visits:
  assumes "sstep J u s l t" "sys_inv s"
  shows "tally (\<lambda>c. c = v) (queue (srv t) p) + visitorJoins p v t + (if visitEnds p v l then 1 else 0)
    \<le> tally (\<lambda>c. c = v) (queue (srv s) p) + visitorJoins p v s + (if visitComes p v l then 1 else 0)"
proof -
  have j: "visitorJoins p v t + (if visitEnds p v l then 1 else 0) \<le> visitorJoins p v s"
    if "\<And>i st. l \<noteq> LTake i p st"
    using assms(1) that
  proof (cases rule: sstep.cases)
    case (finish i q w st out inn)
    then show ?thesis
      using tally_remove1 [OF finish(3), of "\<lambda>(i, q, w, st). q = p \<and> w = v"]
      by (simp add: visitorJoins_def)
  qed (auto simp: visitorJoins_def split: option.splits)
  show ?thesis
  proof (cases "\<exists>i st. l = LTake i p st")
    case True
    then obtain i st where l: "l = LTake i p st" by blast
    with assms(1) obtain w where "queue (srv s) p = w # queue (srv t) p" "joined t = joined s @ [(i, p, w, st)]"
      by (auto elim!: sstep.cases dest: streamSelect_queue)
    with l show ?thesis by (simp add: visitorJoins_def)
  next
    case False
    then have "visitorJoins p v t + (if visitEnds p v l then 1 else 0) \<le> visitorJoins p v s" by (blast intro: j)
    moreover from step_queue [OF assms, of p] False
    have "tally (\<lambda>c. c = v) (queue (srv t) p) \<le> tally (\<lambda>c. c = v) (queue (srv s) p) + (if visitComes p v l then 1 else 0)"
      by (auto intro: tally_tl)
    ultimately show ?thesis by linarith
  qed
qed

lemma step_streams:
  assumes "sstep J u s l t"
  shows "streamWaits i st t + streamJoins i st t + (if streamEnds i st l then 1 else 0)
    \<le> streamWaits i st s + streamJoins i st s + (if streamComes i st l then 1 else 0)"
  using assms
proof (cases rule: sstep.cases)
  case (take j q c v s1)
  then show ?thesis
    using tally_remove1 [OF take(3), of "\<lambda>(j, q, c). j = i \<and> c = st"]
    by (auto simp: streamWaits_def streamJoins_def)
next
  case (timeout j q c)
  then show ?thesis
    using tally_remove1 [OF timeout(3), of "\<lambda>(j, q, c). j = i \<and> c = st"]
    by (simp add: streamWaits_def streamJoins_def)
next
  case (finish j q w c out inn)
  then show ?thesis
    using tally_remove1 [OF finish(3), of "\<lambda>(j, q, w, c). j = i \<and> c = st"]
    by (simp add: streamWaits_def streamJoins_def)
qed (auto simp: streamWaits_def streamJoins_def split: option.splits)

lemma traced_step:
  assumes "sstep J u s l t" "sys_inv s" "traced pre s"
  shows "traced (pre @ [l]) t"
proof -
  have "tally (\<lambda>c. c = v) (queue (srv t) p) + visitorJoins p v t + tally (visitEnds p v) (pre @ [l])
      \<le> tally (visitComes p v) (pre @ [l])" for p v
  proof -
    have "tally (\<lambda>c. c = v) (queue (srv s) p) + visitorJoins p v s + tally (visitEnds p v) pre \<le> tally (visitComes p v) pre"
      using assms(3) unfolding traced_def by blast
    with step_visits [OF assms(1,2), where p = p and v = v] show ?thesis by simp
  qed
  moreover have "streamWaits i st t + streamJoins i st t + tally (streamEnds i st) (pre @ [l]) \<le> tally (streamComes i st) (pre @ [l])"
    for i st
  proof -
    have "streamWaits i st s + streamJoins i st s + tally (streamEnds i st) pre \<le> tally (streamComes i st) pre"
      using assms(3) unfolding traced_def by blast
    with step_streams [OF assms(1), where i = i and st = st] show ?thesis by simp
  qed
  ultimately show ?thesis
    unfolding traced_def using step_owner [OF assms] by blast
qed

lemma run_traced:
  "run (sstep J u) s ls t \<Longrightarrow> sys_inv s \<Longrightarrow> traced pre s \<Longrightarrow> traced (pre @ ls) t"
proof (induction arbitrary: pre rule: run.induct)
  case (run_cons s l t ls v)
  from run_cons.IH [OF server.inv_step [OF run_cons.prems(1) run_cons.hyps(1)]
      traced_step [OF run_cons.hyps(1) run_cons.prems]]
  show ?case by simp
qed simp

section \<open>The visitor that comes after its proxy is gone\<close>

text \<open>
  \<^verbatim>\<open>removeProxyLocked\<close> drains the queue once. A visitor accepted before but queued after it,
  while the session is still there to be notified, is neither served nor closed.
\<close>

definition stranded :: "pid \<Rightarrow> cid \<Rightarrow> sys \<Rightarrow> bool" where
  "stranded p v s \<longleftrightarrow> p < nx_pid (srv s) \<and> \<not> registered (srv s) p \<and> v \<in> set (queue (srv s) p) \<and>
     (\<forall>(i, q, st) \<in> set (waiting s). q \<noteq> p)"

lemma stranded_step:
  assumes "sstep J u s l t" "sys_inv s" "stranded p v s" "\<And>c. l \<noteq> LNotify p c False"
  shows "stranded p v t"
proof -
  from assms(3) have p: "p < nx_pid (srv s)" "\<not> registered (srv s) p" "v \<in> set (queue (srv s) p)"
    and w: "(i, q, st) \<in> set (waiting s) \<Longrightarrow> q \<noteq> p" for i q st
    by (auto simp: stranded_def)
  have "v \<in> set (queue (srv t) p)"
    using step_queue [OF assms(1,2), of p] p assms(4) w by auto
  moreover have "(i, q, st) \<in> set (waiting t) \<Longrightarrow> (i, q, st) \<in> set (waiting s) \<or> registered (srv s) q" for i q st
    using assms(1) by (auto elim!: sstep.cases split: option.splits
        dest: streamProxy_registered(1) [OF assms(2)] notin_set_remove1 set_remove1_subset [THEN subsetD])
  ultimately show ?thesis
    using step_session_of [OF assms(1,2)] p w unfolding stranded_def by fastforce
qed

lemma run_stranded:
  "run (sstep J u) s ls t \<Longrightarrow> sys_inv s \<Longrightarrow> stranded p v s \<Longrightarrow>
     \<forall>c. LNotify p c False \<notin> set ls \<Longrightarrow> stranded p v t"
proof (induction rule: run.induct)
  case (run_cons s l t ls u)
  have "stranded p v t"
    using run_cons.prems by (intro stranded_step [OF run_cons.hyps(1)]) auto
  moreover have "sys_inv t" using run_cons.hyps(1) run_cons.prems(1) by (blast intro: server.inv_step)
  ultimately show ?case using run_cons by auto
qed simp

section \<open>What a step closes\<close>

text \<open>The connections a label brings in.\<close>

fun brings :: "cid \<Rightarrow> label \<Rightarrow> bool" where
  "brings v (LReject c lg ra now ok m) = (c = v)"
| "brings v (LAdmit c lg ra now) = (c = v)"
| "brings v (LVisitor q c) = (c = v)"
| "brings v (LStream i c fr) = (c = v)"
| "brings v _ = False"

lemma installProxy_conn [simp]: "se_conn (hp_session (installProxy s P) j) = se_conn (hp_session s j)"
  by (simp add: installProxy_def Let_def)

lemma sessions_conn:
  "se_conn (hp_session (snd (sendMsg ok i m s)) j) = se_conn (hp_session s j)"
  "se_conn (hp_session (closeConn c s) j) = se_conn (hp_session s j)"
  "se_conn (hp_session (notifyFailed s p c) j) = se_conn (hp_session s j)"
  "se_conn (hp_session (notifyClient s p c ok) j) = se_conn (hp_session s j)"
  "se_conn (hp_session (streamDone s i p v st out inn) j) = se_conn (hp_session s j)"
  "se_conn (hp_session (removeProxyLocked s p) j) = se_conn (hp_session s j)"
  "se_conn (hp_session (closeProxy s i n) j) = se_conn (hp_session s j)"
  "se_conn (hp_session (snd (registerProxy u s i np b)) j) = se_conn (hp_session s j)"
  by (auto simp: sendMsg_def closeConn_def notifyFailed_def notifyClient_def streamDone_def Let_def reg_simps
      closeProxy_def registerProxy_def registerTCPProxy_spec registerHTTPProxy_spec split: option.splits)

lemma queueVisitor_conn: "queueVisitor s p c = (b, t) \<Longrightarrow> se_conn (hp_session t j) = se_conn (hp_session s j)"
  by (auto simp: queueVisitor_def closeConn_def split: option.splits)

lemma streamSelect_conn: "streamSelect s i p st = (v, t) \<Longrightarrow> se_conn (hp_session t j) = se_conn (hp_session s j)"
  by (auto simp: streamSelect_def closeConn_def split: option.splits)

lemma ctlHandle_conn:
  assumes "ctlHandle J u b ty payload s i = (m, t)"
  shows "se_conn (hp_session t j) = se_conn (hp_session s j)"
  using assms
proof (cases rule: ctlHandle_cases)
  case (register np resp)
  with sessions_conn(8) [of u s i np b j] show ?thesis by simp
qed (simp_all add: sessions_conn)

lemma CloseSession_conn:
  "reg_inv s \<Longrightarrow> iterates ord s i \<Longrightarrow> se_conn (hp_session (CloseSession ord s i) j) = se_conn (hp_session s j)"
  by (cases "se_closed (hp_session s i)")
    (auto simp: CloseSession_def iterates_def dest: CloseSession_releases(8))

lemma newSession_conn:
  "se_conn (hp_session (snd (loginFail ok (nx_sid s) c m (allocated s c lg ra now))) j) =
     (if j = nx_sid s then c else se_conn (hp_session s j))"
  "se_conn (hp_session (admitted s c lg ra now) j) = (if j = nx_sid s then c else se_conn (hp_session s j))"
  by (simp_all add: loginFail_def sessions_conn allocated_def admitted_def newSession_def)

lemma step_conn:
  assumes "sstep J u s l t" "sys_inv s" "\<not> brings v l" "\<forall>i < nx_sid (srv s). se_conn (hp_session (srv s) i) \<noteq> v"
  shows "\<forall>i < nx_sid (srv t). se_conn (hp_session (srv t) i) \<noteq> v"
  using assms(1)
proof (cases rule: sstep.cases)
  case (handle i ty payload bind m s1)
  then have "i < nx_sid (srv s)" using assms(2) by (force simp: sys_inv_def)
  with assms(2) have "nx_sid s1 = nx_sid (srv s)"
    by (intro ctlHandle_inv(2) [OF _ _ handle(4)]) (simp_all add: sys_inv_def)
  with handle assms(4) show ?thesis by (simp add: ctlHandle_conn)
next
  case (visitor p c b s1)
  with assms(4) show ?thesis by (simp add: queueVisitor_conn queueVisitor_nx)
next
  case (take i p st w s1)
  with assms(4) show ?thesis by (simp add: streamSelect_conn streamSelect_nx)
next
  case (stream i fr st)
  with assms(4) show ?thesis by (auto simp: sessions_conn split: option.splits)
qed (use assms(2-4) in \<open>auto simp: newSession_conn sessions_conn CloseSession_conn sys_inv_def less_Suc_eq\<close>)

text \<open>A connection that is open and known to the server only as a visitor of \<open>p\<close>.\<close>

definition only_queued :: "pid \<Rightarrow> cid \<Rightarrow> sys \<Rightarrow> bool" where
  "only_queued p v s \<longleftrightarrow> v \<notin> os_closed (srv s) \<and>
     (\<forall>i < nx_sid (srv s). se_conn (hp_session (srv s) i) \<noteq> v) \<and>
     (\<forall>q. q \<noteq> p \<longrightarrow> v \<notin> set (queue (srv s) q)) \<and>
     (\<forall>(q, c) \<in> set (pend s). c \<noteq> v) \<and>
     (\<forall>(i, q, st) \<in> set (waiting s). st \<noteq> v) \<and>
     (\<forall>(i, q, w, st) \<in> set (joined s). w \<noteq> v \<and> st \<noteq> v)"

lemma notifyClient_closed:
  "v \<in> os_closed (notifyClient s p c ok) \<Longrightarrow>
     v \<in> os_closed s \<or> \<not> ok \<and> (v = c \<or> v \<in> set (queue s p))"
  by (cases ok) (auto simp: notifyClient_def notifyFailed_def sendMsg_def closeConn_def visitorRecv_def Let_def
      split: option.splits list.splits)

lemma CloseSession_closed:
  assumes "reg_inv s" "iterates ord s i" "v \<in> os_closed (CloseSession ord s i)"
  shows "v \<in> os_closed s \<or> v = se_conn (hp_session s i) \<or> (\<exists>q. registered s q \<and> v \<in> set (queue s q))"
proof (cases "se_closed (hp_session s i)")
  case False
  with assms(2) have "covers ord s i" by (simp add: iterates_def)
  from CloseSession_releases(3) [OF assms(1) False this] assms(3) show ?thesis by auto
qed (use assms(3) in \<open>simp add: CloseSession_def\<close>)

lemma ctlHandle_closed:
  assumes "reg_inv s" "i < nx_sid s" "ctlHandle J u b ty payload s i = (m, t)" "v \<in> os_closed t"
  shows "v \<in> os_closed s \<or> (\<exists>q. registered s q \<and> v \<in> set (queue s q))"
  using assms(3)
proof (cases rule: ctlHandle_cases)
  case (register np resp)
  show ?thesis
    by (rule registerProxy_cases [OF assms(1,2) register(2)]) (use assms(4) in \<open>simp_all add: reg_simps\<close>)
next
  case (remove n)
  then show ?thesis using owned_registered [OF assms(1), of i n] assms(4)
    by (auto simp: closeProxy_def reg_simps split: option.splits)
qed (use assms(4) in simp)

lemma step_keeps_open:
  assumes "sstep J u s l t" "sys_inv s" "only_queued p v s" "\<not> registered (srv s) p"
    "\<not> brings v l" "\<And>c. l \<noteq> LNotify p c False"
  shows "v \<notin> os_closed (srv t)"
proof -
  from assms(3) have cl: "v \<notin> os_closed (srv s)"
    and se: "i < nx_sid (srv s) \<Longrightarrow> se_conn (hp_session (srv s) i) \<noteq> v"
    and q: "v \<in> set (queue (srv s) q) \<Longrightarrow> q = p"
    and pe: "(q, v) \<notin> set (pend s)" and wa: "(i, q, v) \<notin> set (waiting s)"
    and jo: "(i, q, v, st) \<notin> set (joined s)" "(i, q, w, v) \<notin> set (joined s)" for i q w st
    by (auto simp: only_queued_def)
  have inv: "reg_inv (srv s)" using assms(2) by (simp add: sys_inv_def)
  have CS: "v \<notin> os_closed (CloseSession ord (srv s) i)" if "iterates ord (srv s) i" "i < nx_sid (srv s)" for ord i
    using CloseSession_closed [OF inv that(1), of v] cl se [OF that(2)] q assms(4) by blast
  show ?thesis
    using assms(1)
  proof (cases rule: sstep.cases)
    case (handle i ty payload bind m s1)
    then have "i < nx_sid (srv s)" using assms(2) by (force simp: sys_inv_def)
    with ctlHandle_closed [OF inv _ handle(4), of v] cl q assms(4) handle show ?thesis by auto
  next
    case (kick i j ord)
    with CS [of ord j] assms(2) show ?thesis by (simp add: sys_inv_def)
  next
    case (close i ord)
    moreover from close assms(2) have "i < nx_sid (srv s)" by (force simp: sys_inv_def)
    ultimately show ?thesis using CS [of ord i] by simp
  next
    case (shutdown i ord)
    with CS [of ord i] show ?thesis by simp
  next
    case (notify r c ok)
    with notifyClient_closed [of v "srv s" r c ok] cl pe q assms(6) show ?thesis by (cases "r = p") auto
  next
    case (visitor r c b s1)
    with assms(5) cl show ?thesis by (auto simp: queueVisitor_def closeConn_def split: option.splits)
  next
    case (stream i fr st)
    with assms(5) cl show ?thesis by (auto simp: closeConn_def split: option.splits)
  next
    case (take i r st w s1)
    with cl wa show ?thesis by (auto simp: streamSelect_def closeConn_def split: option.splits)
  next
    case (finish i r w st out inn)
    with cl jo show ?thesis by (auto simp: streamDone_def)
  next
    case (timeout i r st)
    with cl wa show ?thesis by (auto simp: closeConn_def)
  qed (use cl assms(5) in \<open>auto simp: loginFail_def closeConn_def allocated_def admitted_def\<close>)
qed

lemma in_set_tl: "x \<in> set (tl xs) \<Longrightarrow> x \<in> set xs"
  by (cases xs) simp_all

lemma only_queued_step:
  assumes "sstep J u s l t" "sys_inv s" "stranded p v s" "only_queued p v s"
    "\<not> brings v l" "\<And>c. l \<noteq> LNotify p c False"
  shows "only_queued p v t"
proof -
  note on = assms(4) [unfolded only_queued_def]
  from assms(3) have nr: "\<not> registered (srv s) p" and nw: "(i, p, st) \<notin> set (waiting s)" for i st
    by (auto simp: stranded_def)
  have "v \<notin> set (queue (srv t) q)" if "q \<noteq> p" for q
  proof -
    from on that have "v \<notin> set (queue (srv s) q)" by simp
    then show ?thesis using step_queue [OF assms(1,2), of q] assms(5) by (auto dest: in_set_tl)
  qed
  moreover have "(q, c) \<in> set (pend t) \<Longrightarrow> (q, c) \<in> set (pend s) \<or> brings c l" for q c
    using assms(1) by (auto elim!: sstep.cases split: option.splits if_splits
        dest: set_remove1_subset [THEN subsetD])
  then have "\<forall>(q, c) \<in> set (pend t). c \<noteq> v" using on assms(5) by fastforce
  moreover have "(i, q, st) \<in> set (waiting t) \<Longrightarrow> (i, q, st) \<in> set (waiting s) \<or> brings st l" for i q st
    using assms(1) by (auto elim!: sstep.cases split: option.splits
        dest: set_remove1_subset [THEN subsetD])
  then have "\<forall>(i, q, st) \<in> set (waiting t). st \<noteq> v" using on assms(5) by fastforce
  moreover have "\<forall>(i, q, w, st) \<in> set (joined t). w \<noteq> v \<and> st \<noteq> v"
    using assms(1)
  proof (cases rule: sstep.cases)
    case (take i q st w s1)
    with nw have "q \<noteq> p" by blast
    moreover have "w \<in> set (queue (srv s) q)" using streamSelect_queue [OF take(4)] by simp
    ultimately show ?thesis using on take by auto
  qed (use on in \<open>auto split: option.splits dest: notin_set_remove1 set_remove1_subset [THEN subsetD]\<close>)
  ultimately show ?thesis
    unfolding only_queued_def
    using step_conn [OF assms(1,2,5)] step_keeps_open [OF assms(1,2,4) nr assms(5,6)] on by auto
qed

lemma run_only_queued:
  "run (sstep J u) s ls t \<Longrightarrow> sys_inv s \<Longrightarrow> stranded p v s \<Longrightarrow> only_queued p v s \<Longrightarrow>
     \<forall>l \<in> set ls. \<not> brings v l \<and> (\<forall>c. l \<noteq> LNotify p c False) \<Longrightarrow> stranded p v t \<and> only_queued p v t"
proof (induction rule: run.induct)
  case (run_cons s l t ls u)
  have l: "\<not> brings v l" "l \<noteq> LNotify p c False" for c using run_cons.prems(4) by auto
  have "stranded p v t" by (rule stranded_step [OF run_cons.hyps(1) run_cons.prems(1,2) l(2)])
  moreover have "only_queued p v t"
    by (rule only_queued_step [OF run_cons.hyps(1) run_cons.prems(1,2,3) l])
  moreover have "sys_inv t" using run_cons.hyps(1) run_cons.prems(1) by (blast intro: server.inv_step)
  ultimately show ?case using run_cons by auto
qed simp

text \<open>How it comes about: the session is still alive, so the notification is written.\<close>

lemma late_visit:
  assumes "sys_inv s" "p < nx_pid (srv s)" "\<not> registered (srv s) p"
    "\<forall>(i, q, st) \<in> set (waiting s). q \<noteq> p" "only_queued p v s" "length (queue (srv s) p) < visitorCap"
    "run (sstep J u) s [LVisitor p v, LNotify p v True] t"
  shows "stranded p v t \<and> only_queued p v t"
proof -
  from assms(7) obtain m where m: "sstep J u s (LVisitor p v) m" and t: "sstep J u m (LNotify p v True) t"
    by (auto elim!: run_consE run_nilE)
  have P: "(p, v) \<notin> set (pend s)" using assms(5) by (auto simp: only_queued_def)
  let ?P = "(hp_proxy (srv s) p)\<lparr>px_visitors := queue (srv s) p @ [v]\<rparr>"
  from m assms(6) have m: "srv m = (srv s)\<lparr>hp_proxy := (hp_proxy (srv s))(p := ?P)\<rparr>" "pend m = pend s @ [(p, v)]"
      "waiting m = waiting s" "joined m = joined s"
    by (auto elim!: sstep.cases simp: queueVisitor_def visitorSend_def)
  from t have t: "srv t = notifyClient (srv m) p v True" "pend t = remove1 (p, v) (pend m)"
      "waiting t = waiting m" "joined t = joined m"
    by (auto elim!: sstep.cases)
  have same: "registered (srv t) q = registered (srv s) q" "nx_pid (srv t) = nx_pid (srv s)"
    "nx_sid (srv t) = nx_sid (srv s)" "os_closed (srv t) = os_closed (srv s)"
    "queue (srv t) q = (if q = p then queue (srv s) p @ [v] else queue (srv s) q)"
    "se_conn (hp_session (srv t) i) = se_conn (hp_session (srv s) i)" for q i
    by (simp_all add: t m sessions_conn notifyClient_queue)
      (simp_all add: notifyClient_def sendMsg_def Let_def m registered_def pkey_def)
  have "pend t = pend s" "waiting t = waiting s" "joined t = joined s"
    using P by (simp_all add: t m remove1_append)
  with assms(2-5) show ?thesis
    by (simp add: stranded_def only_queued_def same)
qed

end
