(* ===== verification/ServerRun.thy ===== *)
theory ServerRun
  imports ServerInv Vhost
begin

text \<open>
  \<^verbatim>\<open>Server.Run\<close> and the accept loops of \<^verbatim>\<open>internal/server/server.go\<close>: the goroutine of
  \<^verbatim>\<open>Run\<close> beside the goroutines of the server, from the first listener to the return, with what it
  opens, closes, and leaves behind. \<^verbatim>\<open>net.Listen\<close> is the argument \<open>listen\<close>, the environment's
  answer for an address.
\<close>

section \<open>Start-up\<close>

definition controlAddr :: "ServerCfg \<Rightarrow> gostring" where
  "controlAddr cfg = JoinHostPort (sc_BindAddr cfg) (Itoa (sc_BindPort cfg))"

datatype srun_error =
    ListenControl gostring gostring
  | ListenVhost gostring gostring
  | ListenDashboard gostring gostring

text \<open>
  The listeners of \<^verbatim>\<open>Run\<close>: the control listener is a local variable, the other two are
  fields of the server. \<open>ls_open\<close> are the listeners that are open in the operating system, with
  their addresses.
\<close>

record listeners =
  ls_ctrl :: "nat option"
  ls_vhost :: "nat option"
  ls_dash :: "nat option"
  ls_open :: "nat \<rightharpoonup> gostring"

definition no_listeners :: listeners where
  "no_listeners = \<lparr>ls_ctrl = None, ls_vhost = None, ls_dash = None, ls_open = Map.empty\<rparr>"

definition netListen ::
    "(gostring \<Rightarrow> gostring + nat) \<Rightarrow> gostring \<Rightarrow> listeners \<Rightarrow> (gostring + nat) \<times> listeners" where
  "netListen listen addr L =
     (case listen addr of
        Inl e \<Rightarrow> (Inl e, L) | Inr l \<Rightarrow> (Inr l, L\<lparr>ls_open := (ls_open L)(l \<mapsto> addr)\<rparr>))"

definition closeListener :: "nat option \<Rightarrow> listeners \<Rightarrow> listeners" where
  "closeListener ln L =
     (case ln of None \<Rightarrow> L | Some l \<Rightarrow> L\<lparr>ls_open := (ls_open L)(l := None)\<rparr>)"

definition startVhost ::
    "(gostring \<Rightarrow> gostring + nat) \<Rightarrow> ServerCfg \<Rightarrow> listeners \<Rightarrow> srun_error option \<times> listeners" where
  "startVhost listen cfg L =
     (if 0 < sc_VhostHTTPPort cfg then
        let addr = JoinHostPort (sc_BindAddr cfg) (Itoa (sc_VhostHTTPPort cfg)) in
        case netListen listen addr L of
          (Inl e, L1) \<Rightarrow> (Some (ListenVhost addr e), closeListener (ls_ctrl L1) L1)
        | (Inr l, L1) \<Rightarrow> (None, L1\<lparr>ls_vhost := Some l\<rparr>)
      else (None, L))"

definition startDashboard ::
    "(gostring \<Rightarrow> gostring + nat) \<Rightarrow> ServerCfg \<Rightarrow> listeners \<Rightarrow> srun_error option \<times> listeners" where
  "startDashboard listen cfg L =
     (if dash_Addr (sc_Dashboard cfg) \<noteq> [] then
        let addr = dash_Addr (sc_Dashboard cfg) in
        case netListen listen addr L of
          (Inl e, L1) \<Rightarrow>
            (Some (ListenDashboard addr e), closeListener (ls_vhost L1) (closeListener (ls_ctrl L1) L1))
        | (Inr l, L1) \<Rightarrow> (None, L1\<lparr>ls_dash := Some l\<rparr>)
      else (None, L))"

definition closeListeners :: "listeners \<Rightarrow> listeners" where
  "closeListeners L = closeListener (ls_dash L) (closeListener (ls_vhost L) (closeListener (ls_ctrl L) L))"

section \<open>Run among the other goroutines\<close>

text \<open>
  Where \<^verbatim>\<open>Run\<close> stands: before its first, second and third listener, waiting for the context,
  about to copy the sessions, closing those it has still to close, returned.
\<close>

datatype run_pc =
    RunListen
  | RunAddVhost
  | RunAddDash
  | RunServing
  | RunStopping
  | RunClosing "sid list"
  | RunReturned "srun_error option"

text \<open>
  \<open>rn_conns\<close>: connections the accept loop has handed to a \<^verbatim>\<open>handleControlConn\<close> whose login is
  still to come; \<^verbatim>\<open>Run\<close> does not wait for these. \<open>rn_sessions\<close> is the slice
  \<^verbatim>\<open>sessions\<close>. \<open>rn_bound\<close> is no variable of the program: how many sessions there had been
  when the slice was made.
\<close>

record runst =
  rn_sys :: sys
  rn_ls :: listeners
  rn_pc :: run_pc
  rn_conns :: "cid set"
  rn_sessions :: "sid list"
  rn_bound :: sid

definition run_init :: "Server \<Rightarrow> runst" where
  "run_init s =
     \<lparr>rn_sys = sys_init s, rn_ls = no_listeners, rn_pc = RunListen, rn_conns = {}, rn_sessions = [],
      rn_bound = 0\<rparr>"

datatype run_label =
    DoListen
  | DoVhost
  | DoDash
  | DoCancel
  | DoCopy "gostring list"
  | DoClose "gostring list"
  | DoReturn
  | DoAccept cid
  | DoServe label

text \<open>
  A login takes a connection that was accepted. The step of the server that closes a session of the
  slice is \<^verbatim>\<open>Run\<close>'s own.
\<close>

fun login_conn :: "label \<Rightarrow> cid option" where
  "login_conn (LReject c lg ra now ok m) = Some c"
| "login_conn (LAdmit c lg ra now) = Some c"
| "login_conn _ = None"

fun is_shutdown :: "label \<Rightarrow> bool" where
  "is_shutdown (LShutdown i ord) = True"
| "is_shutdown _ = False"

text \<open>
  \<open>cs\<close> and \<open>ord\<close> are the orders in which Go visits the session table and the proxies of a session. The
  final \<^verbatim>\<open>wg.Wait\<close> waits for the accept loops only; they return because their listeners are closed.
\<close>

inductive rstep ::
    "(gostring \<Rightarrow> gostring + nat) \<Rightarrow> ServerCfg \<Rightarrow> json_decoders \<Rightarrow> (gostring \<Rightarrow> gostring) \<Rightarrow>
     runst \<Rightarrow> run_label \<Rightarrow> runst \<Rightarrow> bool"
  for listen :: "gostring \<Rightarrow> gostring + nat" and cfg :: ServerCfg
  and J :: json_decoders and u :: "gostring \<Rightarrow> gostring" where
  r_listen:
    "rn_pc r = RunListen \<Longrightarrow> netListen listen (controlAddr cfg) (rn_ls r) = (x, L) \<Longrightarrow>
     rstep listen cfg J u r DoListen
       (case x of
          Inl e \<Rightarrow> r\<lparr>rn_ls := L, rn_pc := RunReturned (Some (ListenControl (controlAddr cfg) e))\<rparr>
        | Inr l \<Rightarrow> r\<lparr>rn_ls := L\<lparr>ls_ctrl := Some l\<rparr>, rn_pc := RunAddVhost\<rparr>)"
| r_vhost:
    "rn_pc r = RunAddVhost \<Longrightarrow> startVhost listen cfg (rn_ls r) = (err, L) \<Longrightarrow>
     rstep listen cfg J u r DoVhost
       (r\<lparr>rn_ls := L, rn_pc := (case err of None \<Rightarrow> RunAddDash | Some e \<Rightarrow> RunReturned (Some e))\<rparr>)"
| r_dash:
    "rn_pc r = RunAddDash \<Longrightarrow> startDashboard listen cfg (rn_ls r) = (err, L) \<Longrightarrow>
     rstep listen cfg J u r DoDash
       (r\<lparr>rn_ls := L, rn_pc := (case err of None \<Rightarrow> RunServing | Some e \<Rightarrow> RunReturned (Some e))\<rparr>)"
| r_cancel:
    "rn_pc r = RunServing \<Longrightarrow>
     rstep listen cfg J u r DoCancel (r\<lparr>rn_ls := closeListeners (rn_ls r), rn_pc := RunStopping\<rparr>)"
| r_copy:
    "rn_pc r = RunStopping \<Longrightarrow> distinct cs \<Longrightarrow> set cs = dom (sv_sessions (srv (rn_sys r))) \<Longrightarrow>
     is = List.map_filter (sv_sessions (srv (rn_sys r))) cs \<Longrightarrow>
     rstep listen cfg J u r (DoCopy cs)
       (r\<lparr>rn_sessions := is, rn_bound := nx_sid (srv (rn_sys r)), rn_pc := RunClosing is\<rparr>)"
| r_close:
    "rn_pc r = RunClosing (i # is) \<Longrightarrow> sstep J u (rn_sys r) (LShutdown i ord) t \<Longrightarrow>
     rstep listen cfg J u r (DoClose ord) (r\<lparr>rn_sys := t, rn_pc := RunClosing is\<rparr>)"
| r_return:
    "rn_pc r = RunClosing [] \<Longrightarrow> rstep listen cfg J u r DoReturn (r\<lparr>rn_pc := RunReturned None\<rparr>)"
| r_accept:
    "ls_ctrl (rn_ls r) = Some l \<Longrightarrow> ls_open (rn_ls r) l \<noteq> None \<Longrightarrow>
     rstep listen cfg J u r (DoAccept c) (r\<lparr>rn_conns := insert c (rn_conns r)\<rparr>)"
| r_serve:
    "sstep J u (rn_sys r) l t \<Longrightarrow> \<not> is_shutdown l \<Longrightarrow>
     (\<forall>c. login_conn l = Some c \<longrightarrow> c \<in> rn_conns r) \<Longrightarrow>
     rstep listen cfg J u r (DoServe l)
       (r\<lparr>rn_sys := t, rn_conns := rn_conns r - {c. login_conn l = Some c}\<rparr>)"

section \<open>Accept loops\<close>

datatype accept_event = Accepted cid | AcceptFailed | AcceptClosed

text \<open>
  \<^verbatim>\<open>acceptLoop\<close> and \<^verbatim>\<open>vhostAcceptLoop\<close>: the connections handed to a goroutine each, and
  whether the loop has returned. \<^verbatim>\<open>serveDataStreams\<close> ends at the first error.
\<close>

fun acceptLoop :: "accept_event list \<Rightarrow> cid list \<times> bool" where
  "acceptLoop [] = ([], False)"
| "acceptLoop (Accepted c # es) = (case acceptLoop es of (cs, r) \<Rightarrow> (c # cs, r))"
| "acceptLoop (AcceptFailed # es) = acceptLoop es"
| "acceptLoop (AcceptClosed # es) = ([], True)"

fun serveDataStreams :: "accept_event list \<Rightarrow> cid list \<times> bool" where
  "serveDataStreams [] = ([], False)"
| "serveDataStreams (Accepted c # es) = (case serveDataStreams es of (cs, r) \<Rightarrow> (c # cs, r))"
| "serveDataStreams (_ # es) = ([], True)"

section \<open>Listeners\<close>

text \<open>The addresses a configuration asks for.\<close>

definition wanted_addrs :: "ServerCfg \<Rightarrow> gostring set" where
  "wanted_addrs cfg =
     {controlAddr cfg} \<union>
     (if 0 < sc_VhostHTTPPort cfg
      then {JoinHostPort (sc_BindAddr cfg) (Itoa (sc_VhostHTTPPort cfg))} else {}) \<union>
     (if dash_Addr (sc_Dashboard cfg) \<noteq> [] then {dash_Addr (sc_Dashboard cfg)} else {})"

text \<open>The environment gives each address a listener of its own.\<close>

definition fresh_listeners :: "(gostring \<Rightarrow> gostring + nat) \<Rightarrow> bool" where
  "fresh_listeners listen \<longleftrightarrow> (\<forall>a b l. listen a = Inr l \<longrightarrow> listen b = Inr l \<longrightarrow> a = b)"

text \<open>Every listener that is open was opened at the address it is filed under.\<close>

definition filed :: "(gostring \<Rightarrow> gostring + nat) \<Rightarrow> listeners \<Rightarrow> bool" where
  "filed listen L \<longleftrightarrow> (\<forall>l a. ls_open L l = Some a \<longrightarrow> listen a = Inr l)"

lemma filed_upd [simp]:
  "filed listen (L\<lparr>ls_vhost := x\<rparr>) = filed listen L" "filed listen (L\<lparr>ls_ctrl := x\<rparr>) = filed listen L"
  by (simp_all add: filed_def)

lemma netListen_OK:
  assumes "netListen listen addr L = (Inr l, L1)" "filed listen L" "fresh_listeners listen"
  shows "filed listen L1" "ran (ls_open L1) = insert addr (ran (ls_open L))"
proof -
  from assms(1) have l: "listen addr = Inr l" "ls_open L1 = (ls_open L)(l \<mapsto> addr)"
    by (auto simp: netListen_def split: sum.splits)
  with assms(2) show "filed listen L1" by (simp add: filed_def)
  show "ran (ls_open L1) = insert addr (ran (ls_open L))"
  proof (cases "ls_open L l")
    case (Some b)
    with assms(2) have "listen b = Inr l" by (simp add: filed_def)
    with l(1) assms(3) have "b = addr" unfolding fresh_listeners_def by blast
    with Some have "ls_open L1 = ls_open L" "addr \<in> ran (ls_open L)" by (auto simp: l(2) intro: ranI)
    then show ?thesis by auto
  qed (simp add: l(2))
qed

lemma startVhost_OK:
  assumes "startVhost listen cfg L = (None, L1)" "filed listen L" "fresh_listeners listen"
  shows "filed listen L1 \<and> ran (ls_open L1) = ran (ls_open L) \<union>
    (if 0 < sc_VhostHTTPPort cfg
     then {JoinHostPort (sc_BindAddr cfg) (Itoa (sc_VhostHTTPPort cfg))} else {})"
  using assms(1,2) netListen_OK [OF _ assms(2,3)]
  by (auto simp: startVhost_def Let_def split: if_splits prod.splits sum.splits)

lemma startDashboard_OK:
  assumes "startDashboard listen cfg L = (None, L1)" "filed listen L" "fresh_listeners listen"
  shows "ran (ls_open L1) = ran (ls_open L) \<union>
    (if dash_Addr (sc_Dashboard cfg) \<noteq> [] then {dash_Addr (sc_Dashboard cfg)} else {})"
  using assms(1) netListen_OK [OF _ assms(2,3)]
  by (auto simp: startDashboard_def Let_def split: if_splits prod.splits sum.splits)

lemma closeListener_open:
  "ls_open (closeListener ln L) l = (if ln = Some l then None else ls_open L l)"
  "ls_ctrl (closeListener ln L) = ls_ctrl L" "ls_vhost (closeListener ln L) = ls_vhost L"
  "ls_dash (closeListener ln L) = ls_dash L"
  by (auto simp: closeListener_def split: option.splits)

lemma acceptLoop_handles:
  "acceptLoop es = (cs, r) \<Longrightarrow> AcceptClosed \<notin> set es \<Longrightarrow>
     cs = List.map_filter (\<lambda>e. case e of Accepted c \<Rightarrow> Some c | _ \<Rightarrow> None) es \<and> \<not> r"
  by (induction es arbitrary: cs rule: acceptLoop.induct)
    (auto simp: List.map_filter_simps split: prod.splits)

section \<open>What holds at each stage of Run\<close>

text \<open>The listeners that are open are those of the stage, and each is known to \<^verbatim>\<open>Run\<close>.\<close>

definition known :: "listeners \<Rightarrow> bool" where
  "known L \<longleftrightarrow>
     (\<forall>l. ls_open L l \<noteq> None \<longrightarrow> ls_ctrl L = Some l \<or> ls_vhost L = Some l \<or> ls_dash L = Some l)"

definition vhost_addrs :: "ServerCfg \<Rightarrow> gostring set" where
  "vhost_addrs cfg =
     (if 0 < sc_VhostHTTPPort cfg then {JoinHostPort (sc_BindAddr cfg) (Itoa (sc_VhostHTTPPort cfg))} else {})"

fun listening :: "(gostring \<Rightarrow> gostring + nat) \<Rightarrow> ServerCfg \<Rightarrow> run_pc \<Rightarrow> listeners \<Rightarrow> bool" where
  "listening listen cfg RunListen L \<longleftrightarrow> L = no_listeners"
| "listening listen cfg RunAddVhost L \<longleftrightarrow>
     known L \<and> ls_vhost L = None \<and> ls_dash L = None \<and> filed listen L \<and> ran (ls_open L) = {controlAddr cfg}"
| "listening listen cfg RunAddDash L \<longleftrightarrow>
     known L \<and> ls_dash L = None \<and> filed listen L \<and> ran (ls_open L) = {controlAddr cfg} \<union> vhost_addrs cfg"
| "listening listen cfg RunServing L \<longleftrightarrow> known L \<and> ran (ls_open L) = wanted_addrs cfg"
| "listening listen cfg _ L \<longleftrightarrow> ls_open L = Map.empty"

lemma closeListeners_known: "known L \<Longrightarrow> ls_open (closeListeners L) = Map.empty"
  by (auto simp: known_def closeListeners_def closeListener_open fun_eq_iff)

lemma listening_listen:
  assumes "netListen listen (controlAddr cfg) no_listeners = (x, L)" "fresh_listeners listen"
  shows "case x of Inl e \<Rightarrow> listening listen cfg (RunReturned y) L
    | Inr l \<Rightarrow> listening listen cfg RunAddVhost (L\<lparr>ls_ctrl := Some l\<rparr>)"
proof (cases x)
  case (Inl e)
  with assms(1) show ?thesis by (auto simp: netListen_def no_listeners_def split: sum.splits)
next
  case (Inr l)
  with assms(1) have n: "netListen listen (controlAddr cfg) no_listeners = (Inr l, L)" by simp
  have "filed listen no_listeners" by (simp add: filed_def no_listeners_def)
  from netListen_OK [OF n this assms(2)] have "filed listen L" "ran (ls_open L) = {controlAddr cfg}"
    by (simp_all add: no_listeners_def)
  moreover have "L = no_listeners\<lparr>ls_open := [l \<mapsto> controlAddr cfg]\<rparr>"
    using n by (auto simp: netListen_def no_listeners_def split: sum.splits)
  ultimately show ?thesis using Inr by (simp add: known_def filed_def no_listeners_def)
qed

lemma listening_vhost:
  assumes "listening listen cfg RunAddVhost L" "startVhost listen cfg L = (err, L1)" "fresh_listeners listen"
  shows "listening listen cfg (case err of None \<Rightarrow> RunAddDash | Some e \<Rightarrow> RunReturned (Some e)) L1"
proof (cases err)
  case None
  with assms have "filed listen L1 \<and> ran (ls_open L1) = ran (ls_open L) \<union> vhost_addrs cfg"
    using startVhost_OK [of listen cfg L L1] by (simp add: vhost_addrs_def)
  moreover have "known L1 \<and> ls_dash L1 = None"
    using assms(1,2) None
    by (auto simp: startVhost_def netListen_def known_def Let_def split: if_splits sum.splits prod.splits)
  ultimately show ?thesis using assms(1) None by simp
next
  case (Some e)
  have "L1 = closeListener (ls_ctrl L) L"
    using assms(2) Some by (auto simp: startVhost_def netListen_def Let_def split: if_splits sum.splits prod.splits)
  moreover have "ls_open L l = None \<or> ls_ctrl L = Some l" for l
    using assms(1) by (auto simp: known_def)
  ultimately show ?thesis using Some by (auto simp: closeListener_open fun_eq_iff)
qed

lemma listening_dash:
  assumes "listening listen cfg RunAddDash L" "startDashboard listen cfg L = (err, L1)" "fresh_listeners listen"
  shows "listening listen cfg (case err of None \<Rightarrow> RunServing | Some e \<Rightarrow> RunReturned (Some e)) L1"
proof (cases err)
  case None
  with assms have "ran (ls_open L1) = wanted_addrs cfg"
    using startDashboard_OK [of listen cfg L L1] by (simp add: wanted_addrs_def vhost_addrs_def)
  moreover have "known L1"
  proof -
    have "L1 = L \<or> (\<exists>l a. L1 = L\<lparr>ls_open := (ls_open L)(l \<mapsto> a), ls_dash := Some l\<rparr>)"
      using assms(2) None
      by (auto simp: startDashboard_def netListen_def Let_def split: if_splits sum.splits prod.splits)
    moreover from assms(1) have "known L" "ls_dash L = None" by simp_all
    then have "ls_open L l \<noteq> None \<Longrightarrow> ls_ctrl L = Some l \<or> ls_vhost L = Some l" for l
      unfolding known_def by (metis option.distinct(1))
    ultimately show ?thesis using assms(1) by (elim disjE exE) (simp_all add: known_def)
  qed
  ultimately show ?thesis using None by simp
next
  case (Some e)
  have "L1 = closeListener (ls_vhost L) (closeListener (ls_ctrl L) L)"
    using assms(2) Some
    by (auto simp: startDashboard_def netListen_def Let_def split: if_splits sum.splits prod.splits)
  moreover have "ls_open L l = None \<or> ls_ctrl L = Some l \<or> ls_vhost L = Some l" for l
    using assms(1) by (auto simp: known_def)
  ultimately show ?thesis using Some by (auto simp: closeListener_open fun_eq_iff)
qed

text \<open>
  The sessions of the slice that \<^verbatim>\<open>Run\<close> has passed are closed; a session of the table is in
  the slice or has logged in since.
\<close>

definition stopped :: "sid list \<Rightarrow> runst \<Rightarrow> bool" where
  "stopped is r \<longleftrightarrow>
     set is \<subseteq> set (rn_sessions r) \<and> rn_bound r \<le> nx_sid (srv (rn_sys r)) \<and>
     (\<forall>i \<in> set (rn_sessions r). i < rn_bound r) \<and>
     (\<forall>i \<in> set (rn_sessions r) - set is. se_closed (hp_session (srv (rn_sys r)) i)) \<and>
     (\<forall>c i. sv_sessions (srv (rn_sys r)) c = Some i \<longrightarrow> i \<in> set (rn_sessions r) \<or> rn_bound r \<le> i)"

fun stopping :: "run_pc \<Rightarrow> runst \<Rightarrow> bool" where
  "stopping (RunClosing is) r \<longleftrightarrow> stopped is r"
| "stopping (RunReturned None) r \<longleftrightarrow> stopped [] r"
| "stopping _ r \<longleftrightarrow> True"

definition running :: "(gostring \<Rightarrow> gostring + nat) \<Rightarrow> ServerCfg \<Rightarrow> runst \<Rightarrow> bool" where
  "running listen cfg r \<longleftrightarrow>
     fresh_listeners listen \<and> sys_inv (rn_sys r) \<and> listening listen cfg (rn_pc r) (rn_ls r) \<and> stopping (rn_pc r) r"

lemma step_sessions:
  assumes "sstep J u s l t" "sv_sessions (srv t) c = Some i"
  shows "sv_sessions (srv s) c = Some i \<or> nx_sid (srv s) \<le> i"
  using assms(1)
  by (cases rule: step_view)
    (use assms(2) in \<open>auto simp: CloseSession_view newSession_view same_view_def split: if_splits\<close>)

lemma step_nx:
  assumes "sstep J u s l t" "sys_inv s"
  shows "nx_sid (srv s) \<le> nx_sid (srv t)"
proof -
  have "sys_inv t" by (rule server.inv_step [OF assms(2,1)])
  moreover have "pcs s i \<noteq> None \<Longrightarrow> pcs t i \<noteq> None" for i
    using assms(1) by (cases rule: sstep.cases) (auto split: option.splits)
  ultimately have "i < nx_sid (srv s) \<Longrightarrow> i < nx_sid (srv t)" for i
    using assms(2) by (simp add: sys_inv_def)
  then show ?thesis by (meson leI less_irrefl)
qed

lemma stopped_step:
  assumes "sstep J u (rn_sys r) l t" "sys_inv (rn_sys r)" "stopped is r"
  shows "stopped is (r\<lparr>rn_sys := t, rn_conns := C\<rparr>)"
  using assms(3) step_nx [OF assms(1,2)] step_closed_mono(1) [OF assms(1)] step_sessions [OF assms(1)]
  unfolding stopped_def by (simp, metis (no_types, lifting) DiffD1 order.strict_trans2 order_trans)

text \<open>Closing one session of the slice is one session less to close.\<close>

lemma stopped_close:
  assumes "sstep J u (rn_sys r) (LShutdown i ord) t" "sys_inv (rn_sys r)" "stopped (i # is) r"
  shows "stopped is (r\<lparr>rn_sys := t, rn_pc := x\<rparr>)"
proof -
  have "stopped (i # is) (r\<lparr>rn_sys := t, rn_conns := rn_conns r\<rparr>)" by (rule stopped_step [OF assms])
  moreover have "se_closed (hp_session (srv t) i)"
    using assms(1) by (auto elim!: sstep.cases simp: CloseSession_view)
  ultimately show ?thesis by (auto simp: stopped_def)
qed

lemma stopping_step:
  assumes "sstep J u (rn_sys r) l t" "sys_inv (rn_sys r)" "stopping x r"
  shows "stopping x (r\<lparr>rn_sys := t, rn_conns := C\<rparr>)"
  using assms by (cases "(x, r)" rule: stopping.cases) (auto intro: stopped_step)

lemma set_map_filter: "set (List.map_filter f xs) = {y. \<exists>x \<in> set xs. f x = Some y}"
  by (induction xs) (auto simp: List.map_filter_simps split: option.splits)

lemma stopped_copy:
  assumes "sys_inv (rn_sys r)" "set cs = dom (sv_sessions (srv (rn_sys r)))"
    "is = List.map_filter (sv_sessions (srv (rn_sys r))) cs"
  shows "stopped is (r\<lparr>rn_sessions := is, rn_bound := nx_sid (srv (rn_sys r)), rn_pc := x\<rparr>)"
  using assms by (auto simp: stopped_def set_map_filter sys_inv_def reg_inv_def inv_sessions_def)

lemma running_step:
  assumes "rstep listen cfg J u r l r'" "running listen cfg r"
  shows "running listen cfg r'"
proof -
  have fresh: "fresh_listeners listen" using assms(2) by (simp add: running_def)
  show ?thesis
    using assms(1)
  proof (cases rule: rstep.cases)
    case (r_listen x L)
    with assms(2) have "listening listen cfg RunListen (rn_ls r)" by (simp add: running_def)
    with r_listen listening_listen [of listen cfg x L, OF _ fresh] assms(2) show ?thesis
      by (auto simp: running_def split: sum.splits)
  next
    case (r_vhost err L)
    with listening_vhost [OF _ r_vhost(4) fresh] assms(2) show ?thesis
      by (auto simp: running_def split: option.splits)
  next
    case (r_dash err L)
    with listening_dash [OF _ r_dash(4) fresh] assms(2) show ?thesis
      by (auto simp: running_def split: option.splits)
  next
    case r_cancel
    with assms(2) closeListeners_known show ?thesis by (auto simp: running_def)
  next
    case (r_copy cs "is")
    with assms(2) stopped_copy [of r cs "is"] show ?thesis by (simp add: running_def)
  next
    case (r_close i "is" ord t)
    with assms(2) stopped_close [OF r_close(4)] show ?thesis
      by (auto simp: running_def intro: server.inv_step)
  next
    case r_return
    with assms(2) show ?thesis by (simp add: running_def stopped_def)
  next
    case (r_accept l c)
    with assms(2) show ?thesis
      by (cases "(rn_pc r, r)" rule: stopping.cases) (simp_all add: running_def stopped_def)
  next
    case (r_serve l t)
    with assms(2) stopping_step [OF r_serve(3)] show ?thesis
      by (auto simp: running_def intro: server.inv_step)
  qed
qed

lemma running_start: "fresh_listeners listen \<Longrightarrow> New loadCert now cfg = Inr s \<Longrightarrow> running listen cfg (run_init s)"
  using server.inv_init [of loadCert "sys_init s"] by (auto simp: running_def run_init_def sys_start_def)

text \<open>\<^verbatim>\<open>Run\<close> on the server \<^verbatim>\<open>New\<close> has made from the configuration.\<close>

definition run_start ::
    "(gostring \<Rightarrow> gostring \<Rightarrow> gostring option) \<Rightarrow> (gostring \<Rightarrow> gostring + nat) \<Rightarrow> ServerCfg \<Rightarrow> runst \<Rightarrow> bool" where
  "run_start loadCert listen cfg r \<longleftrightarrow> fresh_listeners listen \<and> (\<exists>now s. New loadCert now cfg = Inr s \<and> r = run_init s)"

interpretation serving:
  invariant_system "run_start loadCert listen cfg" "rstep listen cfg J u" "running listen cfg"
  for loadCert listen cfg J u
  by unfold_locales (auto simp: run_start_def intro: running_start running_step)

text \<open>Nothing but \<^verbatim>\<open>Run\<close>'s own steps is missing to its return, once it has been told to stop.\<close>

fun own_step :: "run_label \<Rightarrow> bool" where
  "own_step (DoAccept c) = False"
| "own_step (DoServe l) = False"
| "own_step _ = True"

lemma table_finite:
  assumes "sys_inv s"
  shows "finite (dom (sv_sessions (srv s)))"
proof (rule finite_subset)
  show "dom (sv_sessions (srv s)) \<subseteq> (\<lambda>i. se_clientID (hp_session (srv s) i)) ` {..<nx_sid (srv s)}"
  proof
    fix c assume "c \<in> dom (sv_sessions (srv s))"
    then obtain i where "sv_sessions (srv s) c = Some i" by blast
    with assms have "i < nx_sid (srv s)" "se_clientID (hp_session (srv s) i) = c"
      by (simp_all add: sys_inv_def reg_inv_def inv_sessions_def)
    then show "c \<in> (\<lambda>i. se_clientID (hp_session (srv s) i)) ` {..<nx_sid (srv s)}" by blast
  qed
qed simp

lemma session_covered:
  assumes "sys_inv s"
  shows "\<exists>ord. covers ord (srv s) i"
proof -
  have "dom (se_proxies (hp_session (srv s) i)) \<subseteq> (\<lambda>p. px_name (hp_proxy (srv s) p)) ` {..<nx_pid (srv s)}"
  proof
    fix n assume "n \<in> dom (se_proxies (hp_session (srv s) i))"
    then obtain p where "se_proxies (hp_session (srv s) i) n = Some p" by blast
    with assms have "registered (srv s) p" "px_name (hp_proxy (srv s) p) = n"
      by (auto simp: sys_inv_def dest: owned_registered)
    with assms have "p < nx_pid (srv s)" by (simp add: sys_inv_def reg_inv_def registered_bound)
    with \<open>px_name (hp_proxy (srv s) p) = n\<close> show "n \<in> (\<lambda>p. px_name (hp_proxy (srv s) p)) ` {..<nx_pid (srv s)}"
      by blast
  qed
  then have "finite (dom (se_proxies (hp_session (srv s) i)))" by (rule finite_subset) simp
  then obtain ord where "set ord = dom (se_proxies (hp_session (srv s) i))" by (blast dest: finite_list)
  then show ?thesis by (auto simp: covers_def)
qed

lemma shutdown_enabled:
  assumes "sys_inv s" "i < nx_sid (srv s)"
  shows "\<exists>ord. sstep J u s (LShutdown i ord) (s\<lparr>srv := CloseSession ord (srv s) i\<rparr>)"
  using session_covered [OF assms(1), of i] sstep.shutdown [OF assms(2)] by (auto simp: iterates_def)

lemma run_goes_on:
  assumes "running listen cfg r" "rn_pc r \<noteq> RunServing" "\<And>e. rn_pc r \<noteq> RunReturned e"
  shows "\<exists>l r'. own_step l \<and> rstep listen cfg J u r l r'"
proof (cases "rn_pc r")
  case RunListen
  obtain x L where "netListen listen (controlAddr cfg) (rn_ls r) = (x, L)" by fastforce
  from r_listen [OF RunListen this, of J u] show ?thesis by (intro exI [of _ DoListen]) auto
next
  case RunAddVhost
  obtain err L where "startVhost listen cfg (rn_ls r) = (err, L)" by fastforce
  from r_vhost [OF RunAddVhost this, of J u] show ?thesis by (intro exI [of _ DoVhost]) auto
next
  case RunAddDash
  obtain err L where "startDashboard listen cfg (rn_ls r) = (err, L)" by fastforce
  from r_dash [OF RunAddDash this, of J u] show ?thesis by (intro exI [of _ DoDash]) auto
next
  case RunStopping
  from assms(1) have "finite (dom (sv_sessions (srv (rn_sys r))))" by (simp add: running_def table_finite)
  then obtain cs where "distinct cs" "set cs = dom (sv_sessions (srv (rn_sys r)))"
    by (metis finite_distinct_list)
  from r_copy [OF RunStopping this refl, of listen cfg J u] show ?thesis by (intro exI [of _ "DoCopy cs"]) auto
next
  case (RunClosing "is")
  show ?thesis
  proof (cases "is")
    case Nil
    with RunClosing r_return [of r listen cfg J u] show ?thesis by (intro exI [of _ DoReturn]) auto
  next
    case (Cons i js)
    with assms(1) RunClosing have "sys_inv (rn_sys r)" "i < nx_sid (srv (rn_sys r))"
      by (auto simp: running_def stopped_def)
    from shutdown_enabled [OF this, of J u] obtain ord t where "sstep J u (rn_sys r) (LShutdown i ord) t" by blast
    from r_close [OF _ this, of js listen cfg] RunClosing Cons show ?thesis
      by (intro exI [of _ "DoClose ord"]) auto
  qed
qed (use assms(2,3) in auto)

section \<open>A login that is still under way\<close>

lemma close_all:
  assumes "running listen cfg r" "rn_pc r = RunClosing is"
  shows "\<exists>ls t. run (rstep listen cfg J u) r ls t \<and> running listen cfg t \<and> rn_pc t = RunClosing [] \<and>
    rn_conns t = rn_conns r \<and> rn_bound t = rn_bound r \<and> sv_cfg (srv (rn_sys t)) = sv_cfg (srv (rn_sys r))"
  using assms
proof (induction "is" arbitrary: r)
  case Nil
  then show ?case using run_nil [of "rstep listen cfg J u" r] by blast
next
  case (Cons i js)
  then have i: "sys_inv (rn_sys r)" "i < nx_sid (srv (rn_sys r))" by (auto simp: running_def stopped_def)
  from shutdown_enabled [OF i, of J u] obtain ord where
    s: "sstep J u (rn_sys r) (LShutdown i ord) (rn_sys r\<lparr>srv := CloseSession ord (srv (rn_sys r)) i\<rparr>)" by blast
  let ?m = "r\<lparr>rn_sys := rn_sys r\<lparr>srv := CloseSession ord (srv (rn_sys r)) i\<rparr>, rn_pc := RunClosing js\<rparr>"
  note st = r_close [OF Cons.prems(2) s, of listen cfg]
  have m: "running listen cfg ?m" by (rule serving.inv_step [OF Cons.prems(1) st])
  from Cons.IH [OF m] obtain ls t where t: "run (rstep listen cfg J u) ?m ls t" "running listen cfg t"
    "rn_pc t = RunClosing []" "rn_conns t = rn_conns r" "rn_bound t = rn_bound r"
    "sv_cfg (srv (rn_sys t)) = sv_cfg (CloseSession ord (srv (rn_sys r)) i)" by auto
  moreover have "sv_cfg (CloseSession ord (srv (rn_sys r)) i) = sv_cfg (srv (rn_sys r))"
    by (simp add: CloseSession_def Let_def dropSession_frame)
  ultimately show ?case using run_cons [OF st t(1)] by auto
qed

text \<open>\<^verbatim>\<open>Run\<close> waits for no \<^verbatim>\<open>handleControlConn\<close>: its login may follow the copy of the table.\<close>

lemma login_after_copy:
  assumes "running listen cfg r" "rn_pc r = RunStopping" "conn \<in> rn_conns r"
    and "loginVerdict (srv (rn_sys r)) lg now = None"
  shows "\<exists>ls t i. run (rstep listen cfg J u) r ls t \<and> rn_pc t = RunReturned None \<and>
    sv_sessions (srv (rn_sys t)) (lg_ClientID lg) = Some i \<and> rn_bound t \<le> i \<and>
    \<not> se_closed (hp_session (srv (rn_sys t)) i)"
proof -
  from assms(1) have "finite (dom (sv_sessions (srv (rn_sys r))))" by (simp add: running_def table_finite)
  then obtain cs where cs: "distinct cs" "set cs = dom (sv_sessions (srv (rn_sys r)))"
    by (metis finite_distinct_list)
  define js where "js = List.map_filter (sv_sessions (srv (rn_sys r))) cs"
  let ?c = "r\<lparr>rn_sessions := js, rn_bound := nx_sid (srv (rn_sys r)), rn_pc := RunClosing js\<rparr>"
  note c = r_copy [OF assms(2) cs js_def, of listen cfg J u]
  from close_all [OF serving.inv_step [OF assms(1) c], of js J u] obtain ls m where
    m: "run (rstep listen cfg J u) ?c ls m" "running listen cfg m" "rn_pc m = RunClosing []"
    "rn_conns m = rn_conns r" "rn_bound m = nx_sid (srv (rn_sys r))" "sv_cfg (srv (rn_sys m)) = sv_cfg (srv (rn_sys r))"
    by auto
  have "loginVerdict (srv (rn_sys m)) lg now = loginVerdict (srv (rn_sys r)) lg now"
    by (simp only: loginVerdict_def m(6))
  with assms(4) have v: "loginVerdict (srv (rn_sys m)) lg now = None" by simp
  obtain n where n: "sstep J u (rn_sys m) (LAdmit conn lg [] now) n" "srv n = admitted (srv (rn_sys m)) conn lg [] now"
    using sstep.admit [OF v, of J u conn "[]"] by fastforce
  have a: "rstep listen cfg J u m (DoServe (LAdmit conn lg [] now))
      (m\<lparr>rn_sys := n, rn_conns := rn_conns m - {conn}\<rparr>)" (is "rstep _ _ _ _ _ _ ?a")
    using r_serve [OF n(1), of listen cfg] m(4) assms(3) by simp
  have b: "rstep listen cfg J u ?a DoReturn (?a\<lparr>rn_pc := RunReturned None\<rparr>)"
    by (rule r_return) (simp add: m(3))
  have "run (rstep listen cfg J u) r (DoCopy cs # ls @ [DoServe (LAdmit conn lg [] now), DoReturn])
      (?a\<lparr>rn_pc := RunReturned None\<rparr>)"
    by (rule run_cons, rule c, rule run_append [OF m(1)], rule run_cons, rule a, rule run_cons, rule b, rule run_nil)
  moreover have "rn_bound m \<le> nx_sid (srv (rn_sys m))" using m(2,3) by (simp add: running_def stopped_def)
  ultimately show ?thesis using n(2)
    by (intro exI [of _ "DoCopy cs # ls @ [DoServe (LAdmit conn lg [] now), DoReturn]"]
        exI [of _ "?a\<lparr>rn_pc := RunReturned None\<rparr>"] exI [of _ "nx_sid (srv (rn_sys m))"])
      (simp add: newSession_view)
qed

end
