(* ===== verification/DashboardPage.thy ===== *)
theory DashboardPage
  imports ServerRun
begin

text \<open>
  \<^verbatim>\<open>internal/server/dashboard.go\<close>: the snapshot of the registry and the HTTP handlers
  that show it. How times and durations are printed is left to the parameters \<open>rfc3339\<close> and
  \<open>durString\<close>; JSON is a tree, in which a nil slice is \<^verbatim>\<open>null\<close>.
\<close>

section \<open>The snapshot\<close>

record dashProxy =
  dp_Name :: gostring
  dp_Type :: gostring
  dp_Local :: gostring
  dp_RemotePort :: int
  dp_Subdomain :: gostring
  dp_ActiveConns :: int64

text \<open>\<open>dc_Proxies\<close> is \<open>None\<close> as long as nothing has been appended to the slice.\<close>

record dashClient =
  dc_ClientID :: gostring
  dc_RemoteAddr :: gostring
  dc_LoginAt :: gostring
  dc_Uptime :: gostring
  dc_BytesIn :: int64
  dc_BytesOut :: int64
  dc_ActiveConns :: int64
  dc_Proxies :: "dashProxy list option"

definition dashProxyOf :: "Proxy \<Rightarrow> dashProxy" where
  "dashProxyOf P =
     \<lparr>dp_Name = px_name P, dp_Type = px_typ P, dp_Local = px_local P, dp_RemotePort = px_remotePort P,
      dp_Subdomain = px_subdomain P, dp_ActiveConns = px_active P\<rparr>"

definition goAppend :: "'a list option \<Rightarrow> 'a \<Rightarrow> 'a list option" where
  "goAppend xs x = (case xs of None \<Rightarrow> Some [x] | Some ys \<Rightarrow> Some (ys @ [x]))"

text \<open>\<^verbatim>\<open>Duration.Round(time.Second)\<close>: to the nearest second, halves away from zero.\<close>

definition roundSecond :: "int \<Rightarrow> int" where
  "roundSecond d =
     (if d < 0 then - ((- d + Second div 2) div Second * Second)
      else (d + Second div 2) div Second * Second)"

fun snapProxies ::
    "Server \<Rightarrow> (gostring \<rightharpoonup> pid) \<Rightarrow> gostring list \<Rightarrow> dashProxy list option \<Rightarrow> dashProxy list option" where
  "snapProxies s m [] acc = acc"
| "snapProxies s m (n # ns) acc =
     (case m n of
        None \<Rightarrow> snapProxies s m ns acc
      | Some p \<Rightarrow> snapProxies s m ns (goAppend acc (dashProxyOf (hp_proxy s p))))"

definition snapSession ::
    "(int \<Rightarrow> gostring) \<Rightarrow> (int \<Rightarrow> gostring) \<Rightarrow> int \<Rightarrow> (sid \<Rightarrow> gostring list) \<Rightarrow> Server \<Rightarrow> sid \<Rightarrow> dashClient" where
  "snapSession rfc3339 durString now ords s i =
     (let se = hp_session s i in
      \<lparr>dc_ClientID = se_clientID se, dc_RemoteAddr = se_remoteAddr se,
       dc_LoginAt = rfc3339 (se_loginAt se), dc_Uptime = durString (roundSecond (now - se_loginAt se)),
       dc_BytesIn = se_bytesIn se, dc_BytesOut = se_bytesOut se, dc_ActiveConns = se_activeConns se,
       dc_Proxies = snapProxies s (se_proxies se) (ords i) None\<rparr>)"

text \<open>\<open>cs\<close> and \<open>ords\<close> are the iteration orders over the session table and the proxies of a session.\<close>

fun snapshot ::
    "(int \<Rightarrow> gostring) \<Rightarrow> (int \<Rightarrow> gostring) \<Rightarrow> int \<Rightarrow> (sid \<Rightarrow> gostring list) \<Rightarrow> Server \<Rightarrow> gostring list \<Rightarrow>
     dashClient list" where
  "snapshot rfc3339 durString now ords s [] = []"
| "snapshot rfc3339 durString now ords s (c # cs) =
     (case sv_sessions s c of
        None \<Rightarrow> snapshot rfc3339 durString now ords s cs
      | Some i \<Rightarrow>
          snapSession rfc3339 durString now ords s i # snapshot rfc3339 durString now ords s cs)"

section \<open>Handlers\<close>

record dashServer =
  ds_StartedAt :: gostring
  ds_Uptime :: gostring
  ds_Control :: gostring
  ds_AllowPorts :: gostring

datatype dash_response =
    Unauthorized401
  | NotFound404
  | IndexHTML
  | ClientsJSON dashServer "dashClient list"
  | HealthJSON bool

record dash_request =
  rq_Path :: gostring
  rq_Auth :: "(gostring \<times> gostring) option"

text \<open>What a handler reads besides the request: the clock, the iteration orders, the printers.\<close>

record dash_env =
  da_now :: int
  da_cs :: "gostring list"
  da_ords :: "sid \<Rightarrow> gostring list"
  da_rfc3339 :: "int \<Rightarrow> gostring"
  da_durString :: "int \<Rightarrow> gostring"

definition dashIndex :: "dash_request \<Rightarrow> dash_response" where
  "dashIndex r = (if rq_Path r \<noteq> ''/'' then NotFound404 else IndexHTML)"

definition dashClients :: "dash_env \<Rightarrow> Server \<Rightarrow> dash_response" where
  "dashClients e s =
     ClientsJSON
       \<lparr>ds_StartedAt = da_rfc3339 e (sv_startedAt s),
        ds_Uptime = da_durString e (roundSecond (da_now e - sv_startedAt s)),
        ds_Control = controlAddr (sv_cfg s), ds_AllowPorts = sc_AllowPorts (sv_cfg s)\<rparr>
       (snapshot (da_rfc3339 e) (da_durString e) (da_now e) (da_ords e) s (da_cs e))"

definition dashHealth :: dash_response where
  "dashHealth = HealthJSON True"

text \<open>The multiplexer on a clean path: an exact pattern wins over the pattern \<^verbatim>\<open>/\<close>.\<close>

definition dashMux :: "dash_env \<Rightarrow> Server \<Rightarrow> dash_request \<Rightarrow> dash_response" where
  "dashMux e s r =
     (if rq_Path r = ''/api/clients'' then dashClients e s
      else if rq_Path r = ''/api/health'' then dashHealth
      else dashIndex r)"

definition basicAuth ::
    "gostring \<Rightarrow> gostring \<Rightarrow> (dash_request \<Rightarrow> dash_response) \<Rightarrow> dash_request \<Rightarrow> dash_response" where
  "basicAuth user pass handler r =
     (case rq_Auth r of
        None \<Rightarrow> Unauthorized401
      | Some (u, p) \<Rightarrow> if u \<noteq> user \<or> p \<noteq> pass then Unauthorized401 else handler r)"

definition serveDashboard :: "dash_env \<Rightarrow> Server \<Rightarrow> dash_request \<Rightarrow> dash_response" where
  "serveDashboard e s =
     (let handler = dashMux e s; d = sc_Dashboard (sv_cfg s) in
      if dash_User d \<noteq> [] then basicAuth (dash_User d) (dash_Password d) handler else handler)"

section \<open>What the snapshot shows\<close>

lemma snapProxies_acc:
  "snapProxies s m ns acc =
     (if List.map_filter m ns = [] then acc
      else Some ((case acc of None \<Rightarrow> [] | Some ys \<Rightarrow> ys) @
                 map (\<lambda>p. dashProxyOf (hp_proxy s p)) (List.map_filter m ns)))"
  by (induction ns arbitrary: acc)
    (auto simp: goAppend_def List.map_filter_simps split: option.splits)

lemma snapshot_set:
  "set (snapshot f g now ords s cs) =
     snapSession f g now ords s ` {i. \<exists>c \<in> set cs. sv_sessions s c = Some i}"
  by (induction cs) (auto split: option.splits)

lemma snapProxies_set:
  "(\<exists>ds. snapProxies s m ns None = Some ds \<and> d \<in> set ds) \<longleftrightarrow>
     (\<exists>n p. n \<in> set ns \<and> m n = Some p \<and> d = dashProxyOf (hp_proxy s p))"
proof (cases "List.map_filter m ns = []")
  case True
  have "\<not> (\<exists>n p. n \<in> set ns \<and> m n = Some p)"
  proof
    assume "\<exists>n p. n \<in> set ns \<and> m n = Some p"
    then have "set (List.map_filter m ns) \<noteq> {}" unfolding set_map_filter by blast
    with True show False by simp
  qed
  with True show ?thesis by (auto simp: snapProxies_acc)
next
  case False
  then have "snapProxies s m ns None =
      Some (map (\<lambda>p. dashProxyOf (hp_proxy s p)) (List.map_filter m ns))"
    by (simp add: snapProxies_acc)
  then show ?thesis by (auto simp: set_map_filter)
qed

text \<open>
  A port is shown next to a client exactly when the port table leads to a proxy of the client's
  current session.
\<close>

lemma snapshot_ports:
  assumes inv: "reg_inv s" and cs: "set cs = dom (sv_sessions s)"
    and ords: "\<And>i. set (ords i) = dom (se_proxies (hp_session s i))" and port: "port \<noteq> 0"
  shows "(\<exists>dc \<in> set (snapshot f g now ords s cs). dc_ClientID dc = c \<and>
      (\<exists>ds. dc_Proxies dc = Some ds \<and> (\<exists>d \<in> set ds. dp_RemotePort d = port))) \<longleftrightarrow>
    (\<exists>p i. sv_byPort s port = Some p \<and> px_session (hp_proxy s p) = i \<and> sv_sessions s c = Some i)"
proof -
  have own: "se_proxies (hp_session s i) n = Some p \<longleftrightarrow>
      registered s p \<and> px_session (hp_proxy s p) = i \<and> px_name (hp_proxy s p) = n" for i n p
    using inv by (simp add: reg_inv_def inv_owner_def)
  have byp: "sv_byPort s port = Some p \<longleftrightarrow> registered s p \<and> px_remotePort (hp_proxy s p) = port" for p
    using inv port by (simp add: reg_inv_def inv_ports_def)
  have ses: "sv_sessions s d = Some i \<Longrightarrow> se_clientID (hp_session s i) = d" for d i
    using inv by (simp add: reg_inv_def inv_sessions_def)
  have one: "(\<exists>ds. snapProxies s (se_proxies (hp_session s i)) (ords i) None = Some ds \<and>
      (\<exists>d \<in> set ds. dp_RemotePort d = port)) \<longleftrightarrow>
    (\<exists>p. sv_byPort s port = Some p \<and> px_session (hp_proxy s p) = i)" for i
  proof -
    have "(\<exists>ds. snapProxies s (se_proxies (hp_session s i)) (ords i) None = Some ds \<and>
        (\<exists>d \<in> set ds. dp_RemotePort d = port)) \<longleftrightarrow>
      (\<exists>d. (\<exists>ds. snapProxies s (se_proxies (hp_session s i)) (ords i) None = Some ds \<and> d \<in> set ds) \<and>
        dp_RemotePort d = port)" by blast
    also have "\<dots> \<longleftrightarrow> (\<exists>n p. se_proxies (hp_session s i) n = Some p \<and> px_remotePort (hp_proxy s p) = port)"
      unfolding snapProxies_set
    proof (intro iffI; elim exE conjE)
      fix d n p assume "se_proxies (hp_session s i) n = Some p" "d = dashProxyOf (hp_proxy s p)"
        "dp_RemotePort d = port"
      then show "\<exists>n p. se_proxies (hp_session s i) n = Some p \<and> px_remotePort (hp_proxy s p) = port"
        by (intro exI [of _ n] exI [of _ p]) (simp add: dashProxyOf_def)
    next
      fix n p assume "se_proxies (hp_session s i) n = Some p" "px_remotePort (hp_proxy s p) = port"
      then show "\<exists>d. (\<exists>n p. n \<in> set (ords i) \<and> se_proxies (hp_session s i) n = Some p \<and>
          d = dashProxyOf (hp_proxy s p)) \<and> dp_RemotePort d = port"
        by (intro exI [of _ "dashProxyOf (hp_proxy s p)"] conjI exI [of _ n] exI [of _ p])
          (auto simp: ords dashProxyOf_def)
    qed
    also have "\<dots> \<longleftrightarrow> (\<exists>p. sv_byPort s port = Some p \<and> px_session (hp_proxy s p) = i)"
      by (auto simp: own byp)
    finally show ?thesis .
  qed
  have all: "(\<exists>d \<in> set cs. sv_sessions s d = Some i) \<longleftrightarrow> (\<exists>d. sv_sessions s d = Some i)" for i
    by (auto simp: cs dom_def)
  have "(\<exists>dc \<in> set (snapshot f g now ords s cs). dc_ClientID dc = c \<and>
      (\<exists>ds. dc_Proxies dc = Some ds \<and> (\<exists>d \<in> set ds. dp_RemotePort d = port))) \<longleftrightarrow>
    (\<exists>i. (\<exists>d. sv_sessions s d = Some i) \<and> se_clientID (hp_session s i) = c \<and>
      (\<exists>p. sv_byPort s port = Some p \<and> px_session (hp_proxy s p) = i))"
    unfolding snapshot_set all one [symmetric] by (simp add: snapSession_def Let_def)
  moreover have "(\<exists>d. sv_sessions s d = Some i) \<and> se_clientID (hp_session s i) = c \<longleftrightarrow>
      sv_sessions s c = Some i" for i
    using ses by auto
  ultimately show ?thesis by (simp only: conj_assoc [symmetric]) auto
qed

text \<open>A client without proxies is shown with \<^verbatim>\<open>null\<close> instead of an empty list.\<close>

lemma snapshot_null:
  assumes "sv_sessions s c = Some i" "c \<in> set cs" "se_proxies (hp_session s i) = Map.empty"
  shows "\<exists>dc \<in> set (snapshot f g now ords s cs).
    dc_ClientID dc = se_clientID (hp_session s i) \<and> dc_Proxies dc = None"
proof -
  have "List.map_filter (Map.empty :: gostring \<rightharpoonup> pid) ns = []" for ns
    by (induction ns) (simp_all add: List.map_filter_simps)
  with assms show ?thesis
    by (auto simp: snapshot_set snapSession_def Let_def snapProxies_acc)
qed

section \<open>Who may see it\<close>

lemma dashboard_guard:
  assumes "dash_User (sc_Dashboard (sv_cfg s)) \<noteq> []"
  shows "serveDashboard e s r \<noteq> Unauthorized401 \<longleftrightarrow>
    rq_Auth r = Some (dash_User (sc_Dashboard (sv_cfg s)), dash_Password (sc_Dashboard (sv_cfg s)))"
  using assms
  by (auto simp: serveDashboard_def basicAuth_def dashMux_def dashClients_def dashHealth_def
      dashIndex_def Let_def split: option.splits)

end
