(* ===== verification/Programs.thy ===== *)
theory Programs
  imports ClientRun ClientInv DashboardPage
begin

text \<open>
  \<^verbatim>\<open>internal/logger/logger.go\<close> and the two \<^verbatim>\<open>main\<close> functions: which records
  a log level lets through, and with which exit status a program ends.
\<close>

section \<open>Log levels\<close>

datatype level = LevelDebug | LevelInfo | LevelWarn | LevelError

text \<open>The numbers of \<^verbatim>\<open>log/slog\<close>, and the order they induce.\<close>

definition level_value :: "level \<Rightarrow> int" where
  "level_value l =
     (case l of LevelDebug \<Rightarrow> - 4 | LevelInfo \<Rightarrow> 0 | LevelWarn \<Rightarrow> 4 | LevelError \<Rightarrow> 8)"

instantiation level :: linorder
begin

definition less_eq_level :: "level \<Rightarrow> level \<Rightarrow> bool" where
  "less_eq_level a b \<longleftrightarrow> level_value a \<le> level_value b"

definition less_level :: "level \<Rightarrow> level \<Rightarrow> bool" where
  "less_level a b \<longleftrightarrow> level_value a < level_value b"

instance
proof
  fix a b :: level
  assume "a \<le> b" "b \<le> a"
  then have "level_value a = level_value b" by (simp add: less_eq_level_def)
  then show "a = b" by (cases a; cases b) (simp_all add: level_value_def)
qed (auto simp: less_eq_level_def less_level_def)

end

definition parseLevel :: "gostring \<Rightarrow> level" where
  "parseLevel lv =
     (if lv = ''debug'' then LevelDebug
      else if lv = ''warn'' then LevelWarn
      else if lv = ''error'' then LevelError
      else LevelInfo)"

text \<open>A logger made by \<^verbatim>\<open>logger.New\<close> writes a record when its level is high enough.\<close>

definition logs :: "gostring \<Rightarrow> level \<Rightarrow> bool" where
  "logs lv l \<longleftrightarrow> parseLevel lv \<le> l"

lemma logs_errors: "logs lv LevelError"
  by (auto simp: logs_def parseLevel_def less_eq_level_def level_value_def)

lemma logs_monotone: "logs lv l \<Longrightarrow> l \<le> m \<Longrightarrow> logs lv m"
  by (auto simp: logs_def)

section \<open>Flags\<close>

text \<open>
  \<^verbatim>\<open>flag.Parse\<close> for the two flags of the programs, both with a string value. It stops at the first
  argument that is no flag; an error ends the program with status 2, a request for help with 0.
\<close>

record flags =
  flag_Config :: gostring
  flag_Level :: gostring

datatype flag_word = NoFlag | EndOfFlags | BadSyntax | FlagWord gostring "gostring option"

definition flagWord :: "gostring \<Rightarrow> flag_word" where
  "flagWord a =
     (if length a < 2 \<or> hd a \<noteq> CHR ''-'' then NoFlag
      else if a = ''--'' then EndOfFlags
      else
        let name = (if a ! 1 = CHR ''-'' then drop 2 a else drop 1 a) in
        if hd name = CHR ''-'' \<or> hd name = CHR ''='' then BadSyntax
        else
          let n = takeWhile (\<lambda>c. c \<noteq> CHR ''='') name in
          FlagWord n (if n = name then None else Some (drop (Suc (length n)) name)))"

definition setFlag :: "gostring \<Rightarrow> gostring \<Rightarrow> flags \<Rightarrow> flags option" where
  "setFlag n v f =
     (if n = ''c'' then Some (f\<lparr>flag_Config := v\<rparr>)
      else if n = ''log-level'' then Some (f\<lparr>flag_Level := v\<rparr>)
      else None)"

datatype flag_error = HelpWanted | BadFlag gostring

fun parseArgs :: "gostring list \<Rightarrow> flags \<Rightarrow> flag_error + flags" where
  "parseArgs [] f = Inr f"
| "parseArgs (a # as) f =
     (case flagWord a of
        NoFlag \<Rightarrow> Inr f
      | EndOfFlags \<Rightarrow> Inr f
      | BadSyntax \<Rightarrow> Inl (BadFlag a)
      | FlagWord n (Some v) \<Rightarrow>
          (case setFlag n v f of
             Some g \<Rightarrow> parseArgs as g
           | None \<Rightarrow> Inl (if n = ''help'' \<or> n = ''h'' then HelpWanted else BadFlag n))
      | FlagWord n None \<Rightarrow>
          (case setFlag n [] f of
             None \<Rightarrow> Inl (if n = ''help'' \<or> n = ''h'' then HelpWanted else BadFlag n)
           | Some _ \<Rightarrow>
               (case as of
                  [] \<Rightarrow> Inl (BadFlag n)
                | v # as' \<Rightarrow> (case setFlag n v f of Some g \<Rightarrow> parseArgs as' g | None \<Rightarrow> Inl (BadFlag n)))))"

definition serverFlags :: "gostring list \<Rightarrow> flag_error + flags" where
  "serverFlags args = parseArgs args \<lparr>flag_Config = ''configs/server.yaml'', flag_Level = ''info''\<rparr>"

definition clientFlags :: "gostring list \<Rightarrow> flag_error + flags" where
  "clientFlags args = parseArgs args \<lparr>flag_Config = ''configs/client.yaml'', flag_Level = ''info''\<rparr>"

section \<open>The programs\<close>

text \<open>
  The end of a program: its exit status, \<open>None\<close> while it runs; what it has logged itself, as level and
  message; and what it has left, once its object was made.
\<close>

record 'a program_end =
  pe_status :: "nat option"
  pe_log :: "(level \<times> gostring) list"
  pe_state :: "'a option"

definition letThrough :: "gostring \<Rightarrow> (level \<times> gostring) list \<Rightarrow> (level \<times> gostring) list" where
  "letThrough lv = filter (\<lambda>(l, m). logs lv l)"

definition exits :: "nat option \<Rightarrow> flags \<Rightarrow> (level \<times> gostring) list \<Rightarrow> 'a option \<Rightarrow> 'a program_end" where
  "exits code f ms st = \<lparr>pe_status = code, pe_log = letThrough (flag_Level f) ms, pe_state = st\<rparr>"

definition badFlags :: "flag_error \<Rightarrow> 'a program_end" where
  "badFlags e = \<lparr>pe_status = Some (if e = HelpWanted then 0 else 2), pe_log = [], pe_state = None\<rparr>"

definition loadFailedMsg :: gostring where
  "loadFailedMsg =
     [CHR 0xE5, CHR 0x8A, CHR 0xA0, CHR 0xE8, CHR 0xBD, CHR 0xBD, CHR 0xE9, CHR 0x85] @
     [CHR 0x8D, CHR 0xE7, CHR 0xBD, CHR 0xAE, CHR 0xE5, CHR 0xA4, CHR 0xB1, CHR 0xE8] @
     [CHR 0xB4, CHR 0xA5]"

definition serverInitMsg :: gostring where
  "serverInitMsg =
     [CHR 0xE5, CHR 0x88, CHR 0x9D, CHR 0xE5, CHR 0xA7, CHR 0x8B, CHR 0xE5, CHR 0x8C] @
     [CHR 0x96, CHR 0xE6, CHR 0x9C, CHR 0x8D, CHR 0xE5, CHR 0x8A, CHR 0xA1, CHR 0xE7] @
     [CHR 0xAB, CHR 0xAF, CHR 0xE5, CHR 0xA4, CHR 0xB1, CHR 0xE8, CHR 0xB4, CHR 0xA5]"

definition serverFailedMsg :: gostring where
  "serverFailedMsg =
     [CHR 0xE6, CHR 0x9C, CHR 0x8D, CHR 0xE5, CHR 0x8A, CHR 0xA1, CHR 0xE7, CHR 0xAB] @
     [CHR 0xAF, CHR 0xE9, CHR 0x80, CHR 0x80, CHR 0xE5, CHR 0x87, CHR 0xBA]"

definition serverDoneMsg :: gostring where
  "serverDoneMsg =
     [CHR 0xE6, CHR 0x9C, CHR 0x8D, CHR 0xE5, CHR 0x8A, CHR 0xA1, CHR 0xE7, CHR 0xAB] @
     [CHR 0xAF, CHR 0xE5, CHR 0xB7, CHR 0xB2, CHR 0xE9, CHR 0x80, CHR 0x80, CHR 0xE5] @
     [CHR 0x87, CHR 0xBA]"

definition clientDoneMsg :: gostring where
  "clientDoneMsg =
     [CHR 0xE5, CHR 0xAE, CHR 0xA2, CHR 0xE6, CHR 0x88, CHR 0xB7, CHR 0xE7, CHR 0xAB] @
     [CHR 0xAF, CHR 0xE5, CHR 0xB7, CHR 0xB2, CHR 0xE9, CHR 0x80, CHR 0x80, CHR 0xE5] @
     [CHR 0x87, CHR 0xBA]"

text \<open>
  \<^verbatim>\<open>main\<close> of the server. \<open>runs\<close> is what \<^verbatim>\<open>srv.Run\<close> returns for the server that was
  made, and what it leaves; \<open>ServerRun\<close> says which outcomes there are.
\<close>

definition serverMain ::
    "(gostring \<Rightarrow> gostring + gostring) \<Rightarrow> (gostring \<Rightarrow> ServerCfg \<Rightarrow> gostring + ServerCfg) \<Rightarrow>
     (gostring \<Rightarrow> gostring \<Rightarrow> gostring option) \<Rightarrow> int \<Rightarrow> (Server \<Rightarrow> srun_error option \<times> 'a) \<Rightarrow>
     gostring list \<Rightarrow> 'a program_end" where
  "serverMain readFile yaml loadCert now runs args =
     (case serverFlags args of
        Inl e \<Rightarrow> badFlags e
      | Inr f \<Rightarrow>
          let start = (LevelInfo, ''port-server'') in
          case LoadServer readFile yaml (flag_Config f) of
            Inl _ \<Rightarrow> exits (Some 1) f [start, (LevelError, loadFailedMsg)] None
          | Inr cfg \<Rightarrow>
              (case New loadCert now cfg of
                 Inl _ \<Rightarrow> exits (Some 1) f [start, (LevelError, serverInitMsg)] None
               | Inr s \<Rightarrow>
                   (case runs s of
                      (Some _, r) \<Rightarrow> exits (Some 1) f [start, (LevelError, serverFailedMsg)] (Some r)
                    | (None, r) \<Rightarrow> exits (Some 0) f [start, (LevelInfo, serverDoneMsg)] (Some r))))"

text \<open>
  \<^verbatim>\<open>main\<close> of the client. \<^verbatim>\<open>client.New\<close> and \<^verbatim>\<open>Run\<close> return no error, so the two
  exits behind them are not reached.
\<close>

definition clientMain ::
    "(gostring \<Rightarrow> gostring + gostring) \<Rightarrow> (gostring \<Rightarrow> ClientCfg \<Rightarrow> gostring + ClientCfg) \<Rightarrow>
     (rat \<Rightarrow> rat) \<Rightarrow> Client iteration list \<Rightarrow> gostring list \<Rightarrow> Client program_end" where
  "clientMain readFile yaml fl its args =
     (case clientFlags args of
        Inl e \<Rightarrow> badFlags e
      | Inr f \<Rightarrow>
          let start = (LevelInfo, ''port-client'') in
          case LoadClient readFile yaml (flag_Config f) of
            Inl _ \<Rightarrow> exits (Some 1) f [start, (LevelError, loadFailedMsg)] None
          | Inr cfg \<Rightarrow>
              (case Run fl cfg its (NewClient cfg) of
                 (_, True, c) \<Rightarrow> exits (Some 0) f [start, (LevelInfo, clientDoneMsg)] (Some c)
               | (_, False, c) \<Rightarrow> exits None f [start] (Some c)))"

text \<open>What a signal does to the running client: the steps of its concurrent system.\<close>

datatype os_signal = SIGINT | SIGTERM | SIGHUP

definition clientSignal ::
    "(gostring \<Rightarrow> gostring + gostring) \<Rightarrow> (gostring \<Rightarrow> ClientCfg \<Rightarrow> gostring + ClientCfg) \<Rightarrow> flags \<Rightarrow>
     os_signal \<Rightarrow> clabel" where
  "clientSignal readFile yaml f sg =
     (case sg of SIGHUP \<Rightarrow> CReload (LoadClient readFile yaml (flag_Config f)) | _ \<Rightarrow> CCancel)"

section \<open>How the programs end\<close>

text \<open>A server that gets as far as running has the configuration it checked.\<close>

lemma serverMain_runs:
  assumes "pe_state (serverMain readFile yaml loadCert now runs args) = Some r"
  shows "\<exists>f cfg s. serverFlags args = Inr f \<and> LoadServer readFile yaml (flag_Config f) = Inr cfg \<and>
    server_cfg_ok cfg \<and> New loadCert now cfg = Inr s \<and> sv_cfg s = cfg"
proof (cases "serverFlags args")
  case f: (Inr f)
  show ?thesis
  proof (cases "LoadServer readFile yaml (flag_Config f)")
    case c: (Inr cfg)
    then have ok: "server_cfg_ok cfg" by (simp add: LoadServer_Inr_iff)
    show ?thesis
    proof (cases "New loadCert now cfg")
      case s: (Inr s)
      then have "sv_cfg s = cfg"
        by (auto simp: New_def emptyServer_def split: sum.splits if_splits option.splits)
      with f c ok s show ?thesis by blast
    qed (use assms f c in \<open>simp add: serverMain_def exits_def Let_def\<close>)
  qed (use assms f in \<open>simp add: serverMain_def exits_def Let_def\<close>)
qed (use assms in \<open>simp add: serverMain_def badFlags_def\<close>)

text \<open>An exit with status 1 is logged at every level; with 0 the program has run, or printed its usage.\<close>

lemma letThrough_error: "letThrough lv (ms @ [(LevelError, m)]) = letThrough lv ms @ [(LevelError, m)]"
  by (simp add: letThrough_def logs_errors)

lemma serverMain_status:
  "pe_status (serverMain readFile yaml loadCert now runs args) \<in> {Some 0, Some 1, Some 2}"
  by (auto simp: serverMain_def badFlags_def exits_def Let_def split: sum.splits option.splits prod.splits)

lemma serverMain_error_logged:
  assumes "pe_status (serverMain readFile yaml loadCert now runs args) = Some 1"
  shows "\<exists>m. last (pe_log (serverMain readFile yaml loadCert now runs args)) = (LevelError, m)"
proof -
  have "letThrough lv [x, (LevelError, m)] = letThrough lv [x] @ [(LevelError, m)]" for lv x m
    using letThrough_error [of lv "[x]" m] by simp
  with assms show ?thesis
    by (auto simp: serverMain_def badFlags_def exits_def Let_def split: sum.splits option.splits prod.splits if_splits)
qed

text \<open>A server program that has come to an end after running has no listener left.\<close>

lemma serverMain_leaves_nothing_open:
  assumes "fresh_listeners listen"
    and "\<And>s e r. runs s = (e, r) \<Longrightarrow> rn_pc r = RunReturned e \<and>
      reachable (\<lambda>r0. r0 = run_init s) (rstep listen (sv_cfg s) J u) r"
    and "pe_state (serverMain readFile yaml loadCert now runs args) = Some r"
  shows "ls_open (rn_ls r) = Map.empty"
proof -
  from assms(3) obtain cfg s e where s: "New loadCert now cfg = Inr s" "runs s = (e, r)"
    by (auto simp: serverMain_def badFlags_def exits_def Let_def split: sum.splits option.splits prod.splits)
  then have "sv_cfg s = cfg"
    by (auto simp: New_def emptyServer_def split: sum.splits if_splits option.splits)
  with assms(2) [OF s(2)] have e: "rn_pc r = RunReturned e"
    and r: "reachable (\<lambda>r0. r0 = run_init s) (rstep listen cfg J u) r" by simp_all
  from r have "reachable (run_start loadCert listen cfg) (rstep listen cfg J u) r"
    by (induction rule: reachable.induct)
      (use assms(1) s(1) in \<open>auto simp: run_start_def intro: reachable.reach_init reachable.reach_step\<close>)
  from serving.reachable_inv [OF this] e show ?thesis by (simp add: running_def)
qed

text \<open>Both flags in their usual spellings, wherever they stand.\<close>

lemma flagWord_spellings:
  assumes "n \<noteq> []" "hd n \<noteq> CHR ''-''" "CHR ''='' \<notin> set n"
  shows "flagWord (CHR ''-'' # n) = FlagWord n None" "flagWord (''--'' @ n) = FlagWord n None"
    "flagWord (CHR ''-'' # n @ ''='' @ v) = FlagWord n (Some v)"
    "flagWord (''--'' @ n @ ''='' @ v) = FlagWord n (Some v)"
proof -
  obtain c cs where n: "n = c # cs" using assms(1) by (cases n) auto
  have t: "takeWhile (\<lambda>d. d \<noteq> CHR ''='') cs = cs" "takeWhile (\<lambda>d. d \<noteq> CHR ''='') (cs @ CHR ''='' # v) = cs"
    using assms(3) n by (auto simp: takeWhile_eq_all_conv takeWhile_append)
  from assms show "flagWord (CHR ''-'' # n) = FlagWord n None" "flagWord (''--'' @ n) = FlagWord n None"
    "flagWord (CHR ''-'' # n @ ''='' @ v) = FlagWord n (Some v)"
    "flagWord (''--'' @ n @ ''='' @ v) = FlagWord n (Some v)"
    by (auto simp: flagWord_def n t Let_def)
qed

end
