(* ===== verification/DashboardWeb.thy ===== *)
theory DashboardWeb
  imports DashboardPage Json Durations
begin

text \<open>
  The dashboard of \<^verbatim>\<open>internal/server/dashboard.go\<close> on the wire and in the browser: the bytes the
  handlers write, the page \<^verbatim>\<open>dashIndexHTML\<close>, and what the script of the page makes of a reply. The
  theory ends with the page as a function of the registry.
\<close>

section \<open>Times\<close>

text \<open>
  \<^verbatim>\<open>Time.Format(time.RFC3339)\<close> of a time in nanoseconds since 1970: the civil date of the day,
  the time of day and the zone. \<open>zone\<close> is the offset of the local zone in seconds at that moment.
\<close>

definition padZeros :: "nat \<Rightarrow> int \<Rightarrow> gostring" where
  "padZeros w i =
     (if i < 0 then CHR ''-'' # replicate (w - length (showNat (nat (- i)))) (CHR ''0'') @ showNat (nat (- i))
      else replicate (w - length (showNat (nat i))) (CHR ''0'') @ showNat (nat i))"

definition civilDate :: "int \<Rightarrow> int \<times> int \<times> int" where
  "civilDate days =
     (let z = days + 719468;
          era = z div 146097;
          doe = z - era * 146097;
          yoe = (doe - doe div 1460 + doe div 36524 - doe div 146096) div 365;
          doy = doe - (365 * yoe + yoe div 4 - yoe div 100);
          mp = (5 * doy + 2) div 153;
          m = (if mp < 10 then mp + 3 else mp - 9)
      in (yoe + era * 400 + (if m \<le> 2 then 1 else 0), m, doy - (153 * mp + 2) div 5 + 1))"

definition formatRFC3339 :: "(int \<Rightarrow> int) \<Rightarrow> int \<Rightarrow> gostring" where
  "formatRFC3339 zone t =
     (let offset = zone t; secs = t div Second + offset; min = (\<bar>offset\<bar>) div 60 in
      case civilDate (secs div 86400) of
        (y, m, d) \<Rightarrow>
          padZeros 4 y @ ''-'' @ padZeros 2 m @ ''-'' @ padZeros 2 d @ ''T'' @
          padZeros 2 (secs mod 86400 div 3600) @ '':'' @ padZeros 2 (secs mod 3600 div 60) @ '':'' @ padZeros 2 (secs mod 60) @
          (if offset = 0 then ''Z''
           else (if offset < 0 then ''-'' else ''+'') @ padZeros 2 (min div 60) @ '':'' @ padZeros 2 (min mod 60)))"

section \<open>Replies\<close>

definition jInt :: "int64 \<Rightarrow> json" where
  "jInt w = JNum (Itoa (sint w))"

definition encDashProxy :: "dashProxy \<Rightarrow> json" where
  "encDashProxy p =
     JObj [(''name'', JStr (dp_Name p)), (''type'', JStr (dp_Type p)), (''local'', JStr (dp_Local p)),
       (''remote_port'', JNum (Itoa (dp_RemotePort p))), (''subdomain'', JStr (dp_Subdomain p)),
       (''active_conns'', jInt (dp_ActiveConns p))]"

text \<open>A nil slice is encoded as \<^verbatim>\<open>null\<close>.\<close>

definition encDashClient :: "dashClient \<Rightarrow> json" where
  "encDashClient c =
     JObj [(''client_id'', JStr (dc_ClientID c)), (''remote_addr'', JStr (dc_RemoteAddr c)),
       (''login_at'', JStr (dc_LoginAt c)), (''uptime'', JStr (dc_Uptime c)),
       (''bytes_in'', jInt (dc_BytesIn c)), (''bytes_out'', jInt (dc_BytesOut c)),
       (''active_conns'', jInt (dc_ActiveConns c)),
       (''proxies'', case dc_Proxies c of None \<Rightarrow> JNull | Some ps \<Rightarrow> JArr (map encDashProxy ps))]"

text \<open>The two maps of \<^verbatim>\<open>dashClients\<close>; the encoder sorts the keys of a map.\<close>

definition encDashServer :: "dashServer \<Rightarrow> json" where
  "encDashServer v =
     JObj [(''allow_ports'', JStr (ds_AllowPorts v)), (''control'', JStr (ds_Control v)),
       (''started_at'', JStr (ds_StartedAt v)), (''uptime'', JStr (ds_Uptime v))]"

definition encDash :: "dashServer \<Rightarrow> dashClient list \<Rightarrow> json" where
  "encDash v cs = JObj [(''clients'', JArr (map encDashClient cs)), (''server'', encDashServer v)]"

record http_reply =
  hr_status :: nat
  hr_headers :: "(gostring \<times> gostring) list"
  hr_body :: gostring

definition lineEnd :: gostring where "lineEnd = [CHR 0x0A]"

definition writeJSON :: "json \<Rightarrow> http_reply" where
  "writeJSON v =
     \<lparr>hr_status = 200, hr_headers = [(''Content-Type'', ''application/json; charset=utf-8'')],
      hr_body = printJSON v @ lineEnd\<rparr>"

text \<open>\<^verbatim>\<open>http.Error\<close>, also behind \<^verbatim>\<open>http.NotFound\<close>.\<close>

definition httpError :: "(gostring \<times> gostring) list \<Rightarrow> gostring \<Rightarrow> nat \<Rightarrow> http_reply" where
  "httpError hs msg code =
     \<lparr>hr_status = code,
      hr_headers = hs @ [(''Content-Type'', ''text/plain; charset=utf-8''), (''X-Content-Type-Options'', ''nosniff'')],
      hr_body = msg @ lineEnd\<rparr>"

definition dashIndexHTML :: gostring where
  "dashIndexHTML =
     ''<!DOCTYPE html>'' @ [CHR 0x0A] @
     ''<html lang='' @ [CHR 0x22] @ ''zh-CN'' @ [CHR 0x22] @ ''>'' @ [CHR 0x0A] @
     ''<head>'' @ [CHR 0x0A] @
     ''<meta charset='' @ [CHR 0x22] @ ''utf-8'' @ [CHR 0x22] @ ''>'' @ [CHR 0x0A] @
     ''<title>port '' @
     [CHR 0xE7, CHR 0xAE, CHR 0xA1, CHR 0xE7, CHR 0x90, CHR 0x86, CHR 0xE9, CHR 0x9D] @
     [CHR 0xA2, CHR 0xE6, CHR 0x9D, CHR 0xBF] @ ''</title>'' @ [CHR 0x0A] @
     ''<style>'' @ [CHR 0x0A] @
     ''  body{font-family:-apple-system,'' @ [CHR 0x22] @ ''PingFang SC'' @ [CHR 0x22] @
     '',sans-serif;margin:2rem;background:#fafafa;color:#222}'' @ [CHR 0x0A] @
     ''  h1{font-size:1.4rem}'' @ [CHR 0x0A] @
     ''  table{border-collapse:collapse;width:100%;background:#fff;box-shadow:0 1px 3'' @
     ''px rgba(0,0,0,.1)}'' @ [CHR 0x0A] @
     ''  th,td{border:1px solid #e5e5e5;padding:8px 12px;text-align:left;font-size:.9'' @
     ''rem;vertical-align:top}'' @ [CHR 0x0A] @
     ''  th{background:#f2f2f2}'' @ [CHR 0x0A] @
     ''  .muted{color:#888}'' @ [CHR 0x0A] @
     ''</style>'' @ [CHR 0x0A] @
     ''</head>'' @ [CHR 0x0A] @
     ''<body>'' @ [CHR 0x0A] @
     ''<h1>port '' @
     [CHR 0xE5, CHR 0x86, CHR 0x85, CHR 0xE7, CHR 0xBD, CHR 0x91, CHR 0xE7, CHR 0xA9] @
     [CHR 0xBF, CHR 0xE9, CHR 0x80, CHR 0x8F] @ '' '' @ [CHR 0xC2, CHR 0xB7] @ '' '' @
     [CHR 0xE7, CHR 0xAE, CHR 0xA1, CHR 0xE7, CHR 0x90, CHR 0x86, CHR 0xE9, CHR 0x9D] @
     [CHR 0xA2, CHR 0xE6, CHR 0x9D, CHR 0xBF] @ ''</h1>'' @ [CHR 0x0A] @
     ''<p class='' @ [CHR 0x22] @ ''muted'' @ [CHR 0x22] @ '' id='' @ [CHR 0x22] @ ''meta'' @
     [CHR 0x22] @ ''>'' @
     [CHR 0xE5, CHR 0x8A, CHR 0xA0, CHR 0xE8, CHR 0xBD, CHR 0xBD, CHR 0xE4, CHR 0xB8] @
     [CHR 0xAD, CHR 0xE2, CHR 0x80, CHR 0xA6] @ ''</p>'' @ [CHR 0x0A] @
     ''<table>'' @ [CHR 0x0A] @
     ''<thead><tr>'' @ [CHR 0x0A] @
     ''  <th>client_id</th><th>'' @
     [CHR 0xE6, CHR 0x9D, CHR 0xA5, CHR 0xE6, CHR 0xBA, CHR 0x90, CHR 0xE5, CHR 0x9C] @
     [CHR 0xB0, CHR 0xE5, CHR 0x9D, CHR 0x80] @ ''</th><th>'' @
     [CHR 0xE7, CHR 0x99, CHR 0xBB, CHR 0xE5, CHR 0xBD, CHR 0x95, CHR 0xE6, CHR 0x97] @
     [CHR 0xB6, CHR 0xE9, CHR 0x97, CHR 0xB4] @ ''</th><th>'' @
     [CHR 0xE5, CHR 0x9C, CHR 0xA8, CHR 0xE7, CHR 0xBA, CHR 0xBF, CHR 0xE6, CHR 0x97] @
     [CHR 0xB6, CHR 0xE9, CHR 0x95, CHR 0xBF] @ ''</th>'' @ [CHR 0x0A] @
     ''  <th>'' @ [CHR 0xE4, CHR 0xB8, CHR 0x8A, CHR 0xE8, CHR 0xA1, CHR 0x8C] @
     ''(B)</th><th>'' @ [CHR 0xE4, CHR 0xB8, CHR 0x8B, CHR 0xE8, CHR 0xA1, CHR 0x8C] @
     ''(B)</th><th>'' @
     [CHR 0xE6, CHR 0xB4, CHR 0xBB, CHR 0xE5, CHR 0x8A, CHR 0xA8, CHR 0xE8, CHR 0xBF] @
     [CHR 0x9E, CHR 0xE6, CHR 0x8E, CHR 0xA5] @ ''</th><th>'' @
     [CHR 0xE4, CHR 0xBB, CHR 0xA3, CHR 0xE7, CHR 0x90, CHR 0x86] @ ''</th>'' @ [CHR 0x0A] @
     ''</tr></thead>'' @ [CHR 0x0A] @
     ''<tbody id='' @ [CHR 0x22] @ ''rows'' @ [CHR 0x22] @ ''><tr><td colspan='' @ [CHR 0x22] @
     ''8'' @ [CHR 0x22] @ '' class='' @ [CHR 0x22] @ ''muted'' @ [CHR 0x22] @ ''>'' @
     [CHR 0xE5, CHR 0x8A, CHR 0xA0, CHR 0xE8, CHR 0xBD, CHR 0xBD, CHR 0xE4, CHR 0xB8] @
     [CHR 0xAD, CHR 0xE2, CHR 0x80, CHR 0xA6] @ ''</td></tr></tbody>'' @ [CHR 0x0A] @
     ''</table>'' @ [CHR 0x0A] @
     ''<script>'' @ [CHR 0x0A] @
     ''async function refresh(){'' @ [CHR 0x0A] @
     ''  try{'' @ [CHR 0x0A] @
     ''    const r=await fetch('' @ [CHR 0x27] @ ''/api/clients'' @ [CHR 0x27] @ '');'' @
     [CHR 0x0A] @
     ''    if(r.status===401){document.getElementById('' @ [CHR 0x27] @ ''meta'' @ [CHR 0x27] @
     '').textContent='' @
     [CHR 0x27, CHR 0xE8, CHR 0xAE, CHR 0xA4, CHR 0xE8, CHR 0xAF, CHR 0x81, CHR 0xE5] @
     [CHR 0xA4, CHR 0xB1, CHR 0xE8, CHR 0xB4, CHR 0xA5] @ '','' @
     [CHR 0xE8, CHR 0xAF, CHR 0xB7, CHR 0xE6, CHR 0xA3, CHR 0x80, CHR 0xE6, CHR 0x9F] @
     [CHR 0xA5, CHR 0xE6, CHR 0x9C, CHR 0x8D, CHR 0xE5, CHR 0x8A, CHR 0xA1, CHR 0xE7] @
     [CHR 0xAB, CHR 0xAF] @ '' dashboard.user/password'' @ [CHR 0x27] @ '';return;}'' @
     [CHR 0x0A] @
     ''    const d=await r.json();'' @ [CHR 0x0A] @
     ''    document.getElementById('' @ [CHR 0x27] @ ''meta'' @ [CHR 0x27] @
     '').textContent='' @
     [CHR 0x27, CHR 0xE6, CHR 0x9C, CHR 0x8D, CHR 0xE5, CHR 0x8A, CHR 0xA1, CHR 0xE7] @
     [CHR 0xAB, CHR 0xAF] @ '' '' @ [CHR 0x27] @ ''+d.server.control+'' @ [CHR 0x27] @ '' '' @
     [CHR 0xE5, CHR 0xB7, CHR 0xB2, CHR 0xE8, CHR 0xBF, CHR 0x90, CHR 0xE8, CHR 0xA1] @
     [CHR 0x8C] @ '' '' @ [CHR 0x27] @ ''+d.server.uptime+'' @ [CHR 0x27] @ '' '' @
     [CHR 0xC2, CHR 0xB7] @ '' '' @
     [CHR 0xE5, CHR 0x9C, CHR 0xA8, CHR 0xE7, CHR 0xBA, CHR 0xBF, CHR 0xE5, CHR 0xAE] @
     [CHR 0xA2, CHR 0xE6, CHR 0x88, CHR 0xB7, CHR 0xE7, CHR 0xAB, CHR 0xAF] @ '' '' @
     [CHR 0x27] @ ''+d.clients.length+'' @ [CHR 0x27] @ '' '' @ [CHR 0xE4, CHR 0xB8, CHR 0xAA] @
     '' '' @ [CHR 0xC2, CHR 0xB7] @ '' '' @
     [CHR 0xE7, CHR 0xAB, CHR 0xAF, CHR 0xE5, CHR 0x8F, CHR 0xA3, CHR 0xE6, CHR 0xB1] @
     [CHR 0xA0] @ '' '' @ [CHR 0x27] @ ''+d.server.allow_ports;'' @ [CHR 0x0A] @
     ''    const tbody=document.getElementById('' @ [CHR 0x27] @ ''rows'' @ [CHR 0x27] @
     '');tbody.innerHTML='' @ [CHR 0x27, CHR 0x27] @ '';'' @ [CHR 0x0A] @
     ''    if(d.clients.length===0){tbody.innerHTML='' @ [CHR 0x27] @ ''<tr><td colspan='' @
     [CHR 0x22] @ ''8'' @ [CHR 0x22] @ '' class='' @ [CHR 0x22] @ ''muted'' @ [CHR 0x22] @
     ''>'' @ [CHR 0xE6, CHR 0x9A, CHR 0x82, CHR 0xE6, CHR 0x97, CHR 0xA0, CHR 0xE5, CHR 0x9C] @
     [CHR 0xA8, CHR 0xE7, CHR 0xBA, CHR 0xBF, CHR 0xE5, CHR 0xAE, CHR 0xA2, CHR 0xE6] @
     [CHR 0x88, CHR 0xB7, CHR 0xE7, CHR 0xAB, CHR 0xAF] @ ''</td></tr>'' @ [CHR 0x27] @
     '';return;}'' @ [CHR 0x0A] @
     ''    for(const c of d.clients){'' @ [CHR 0x0A] @
     ''      const tr=document.createElement('' @ [CHR 0x27] @ ''tr'' @ [CHR 0x27] @ '');'' @
     [CHR 0x0A] @
     ''      const proxies=c.proxies.map(p=>{'' @ [CHR 0x0A] @
     ''        const port=p.remote_port?('' @ [CHR 0x27] @ '':'' @ [CHR 0x27] @
     ''+p.remote_port):(p.subdomain?('' @ [CHR 0x27] @ ''vhost:'' @ [CHR 0x27] @
     ''+p.subdomain):'' @ [CHR 0x27, CHR 0x27] @ '');'' @ [CHR 0x0A] @
     ''        return p.name+'' @ [CHR 0x27] @ '' <span class='' @ [CHR 0x22] @ ''muted'' @
     [CHR 0x22] @ ''>'' @ [CHR 0x27] @ ''+p.type+'' @
     [CHR 0x27, CHR 0xE2, CHR 0x86, CHR 0x92, CHR 0x27] @ ''+p.local+port+'' @ [CHR 0x27] @
     '' '' @ [CHR 0xC3, CHR 0x97, CHR 0x27] @ ''+p.active_conns+'' @ [CHR 0x27] @ ''</span>'' @
     [CHR 0x27] @ '';'' @ [CHR 0x0A] @
     ''      }).join('' @ [CHR 0x27] @ ''<br>'' @ [CHR 0x27] @ '');'' @ [CHR 0x0A] @
     ''      tr.innerHTML='' @ [CHR 0x27] @ ''<td>'' @ [CHR 0x27] @ ''+c.client_id+'' @
     [CHR 0x27] @ ''</td><td>'' @ [CHR 0x27] @ ''+c.remote_addr+'' @ [CHR 0x27] @
     ''</td><td>'' @ [CHR 0x27] @ ''+c.login_at+'' @ [CHR 0x27] @ ''</td><td>'' @ [CHR 0x27] @
     ''+c.uptime+'' @ [CHR 0x27] @ ''</td><td>'' @ [CHR 0x27] @ ''+c.bytes_in+'' @ [CHR 0x27] @
     ''</td><td>'' @ [CHR 0x27] @ ''+c.bytes_out+'' @ [CHR 0x27] @ ''</td><td>'' @ [CHR 0x27] @
     ''+c.active_conns+'' @ [CHR 0x27] @ ''</td><td>'' @ [CHR 0x27] @ ''+proxies+'' @
     [CHR 0x27] @ ''</td>'' @ [CHR 0x27] @ '';'' @ [CHR 0x0A] @
     ''      tbody.appendChild(tr);'' @ [CHR 0x0A] @
     ''    }'' @ [CHR 0x0A] @
     ''  }catch(e){document.getElementById('' @ [CHR 0x27] @ ''meta'' @ [CHR 0x27] @
     '').textContent='' @
     [CHR 0x27, CHR 0xE5, CHR 0x8A, CHR 0xA0, CHR 0xE8, CHR 0xBD, CHR 0xBD, CHR 0xE5] @
     [CHR 0xA4, CHR 0xB1, CHR 0xE8, CHR 0xB4, CHR 0xA5] @ '': '' @ [CHR 0x27] @ ''+e;}'' @
     [CHR 0x0A] @
     ''}'' @ [CHR 0x0A] @
     ''refresh();setInterval(refresh,2000);'' @ [CHR 0x0A] @
     ''</script>'' @ [CHR 0x0A] @
     ''</body></html>''"

fun renderReply :: "dash_response \<Rightarrow> http_reply" where
  "renderReply Unauthorized401 =
     httpError [(''WWW-Authenticate'', ''Basic realm='' @ [dquote] @ ''port'' @ [dquote])] ''unauthorized'' 401"
| "renderReply NotFound404 = httpError [] ''404 page not found'' 404"
| "renderReply IndexHTML =
     \<lparr>hr_status = 200, hr_headers = [(''Content-Type'', ''text/html; charset=utf-8'')], hr_body = dashIndexHTML\<rparr>"
| "renderReply (ClientsJSON v cs) = writeJSON (encDash v cs)"
| "renderReply (HealthJSON b) = writeJSON (JObj [(''ok'', JBool b)])"

section \<open>The script of the page\<close>

text \<open>
  What the script reads from a reply, by the names of the members: of two members with one name the
  last one. \<open>None\<close> when a member is missing or of another kind; the server sends no such reply
  (\<open>readDash_printed\<close>).
\<close>

fun jsMember :: "json \<Rightarrow> gostring \<Rightarrow> json option" where
  "jsMember (JObj fs) k = map_of (rev fs) k"
| "jsMember _ k = None"

definition jsStr :: "json \<Rightarrow> gostring \<Rightarrow> gostring option" where
  "jsStr v k = (case jsMember v k of Some (JStr x) \<Rightarrow> Some x | _ \<Rightarrow> None)"

definition jsInt :: "json \<Rightarrow> gostring \<Rightarrow> int option" where
  "jsInt v k = (case jsMember v k of Some (JNum x) \<Rightarrow> Atoi x | _ \<Rightarrow> None)"

definition readDashProxy :: "json \<Rightarrow> dashProxy option" where
  "readDashProxy v =
     (case (jsStr v ''name'', jsStr v ''type'', jsStr v ''local'', jsInt v ''remote_port'',
            jsStr v ''subdomain'', jsInt v ''active_conns'') of
        (Some n, Some t, Some l, Some p, Some d, Some a) \<Rightarrow>
          Some \<lparr>dp_Name = n, dp_Type = t, dp_Local = l, dp_RemotePort = p, dp_Subdomain = d,
                dp_ActiveConns = word_of_int a\<rparr>
      | _ \<Rightarrow> None)"

definition readProxies :: "json \<Rightarrow> dashProxy list option option" where
  "readProxies v =
     (case jsMember v ''proxies'' of
        Some JNull \<Rightarrow> Some None
      | Some (JArr ps) \<Rightarrow> map_option Some (those (map readDashProxy ps))
      | _ \<Rightarrow> None)"

definition readDashClient :: "json \<Rightarrow> dashClient option" where
  "readDashClient v =
     (case (jsStr v ''client_id'', jsStr v ''remote_addr'', jsStr v ''login_at'',
            jsStr v ''uptime'', jsInt v ''bytes_in'', jsInt v ''bytes_out'',
            jsInt v ''active_conns'', readProxies v) of
        (Some c, Some r, Some l, Some u, Some i, Some t, Some a, Some ps) \<Rightarrow>
          Some \<lparr>dc_ClientID = c, dc_RemoteAddr = r, dc_LoginAt = l, dc_Uptime = u, dc_BytesIn = word_of_int i,
                dc_BytesOut = word_of_int t, dc_ActiveConns = word_of_int a, dc_Proxies = ps\<rparr>
      | _ \<Rightarrow> None)"

definition readDashServer :: "json \<Rightarrow> dashServer option" where
  "readDashServer v =
     (case (jsStr v ''allow_ports'', jsStr v ''control'', jsStr v ''started_at'',
            jsStr v ''uptime'') of
        (Some p, Some c, Some s, Some u) \<Rightarrow>
          Some \<lparr>ds_StartedAt = s, ds_Uptime = u, ds_Control = c, ds_AllowPorts = p\<rparr>
      | _ \<Rightarrow> None)"

definition readDash :: "json \<Rightarrow> (dashServer \<times> dashClient list) option" where
  "readDash v =
     (case (jsMember v ''server'', jsMember v ''clients'') of
        (Some w, Some (JArr cs)) \<Rightarrow>
          (case (readDashServer w, those (map readDashClient cs)) of
             (Some sv, Some ds) \<Rightarrow> Some (sv, ds) | _ \<Rightarrow> None)
      | _ \<Rightarrow> None)"

text \<open>
  What the script writes. \<open>num\<close> prints a number of JavaScript. A number is false exactly when it is 0,
  a string when it is empty.
\<close>

definition proxyCell :: "(int \<Rightarrow> gostring) \<Rightarrow> dashProxy \<Rightarrow> gostring" where
  "proxyCell num p =
     (let port = (if dp_RemotePort p \<noteq> 0 then '':'' @ num (dp_RemotePort p)
                  else if dp_Subdomain p \<noteq> [] then ''vhost:'' @ dp_Subdomain p else [])
      in dp_Name p @ '' <span class='' @ [CHR 0x22] @ ''muted'' @ [CHR 0x22] @ ''>'' @ dp_Type p @
         [CHR 0xE2, CHR 0x86, CHR 0x92] @ dp_Local p @ port @
         '' '' @ [CHR 0xC3, CHR 0x97] @ num (sint (dp_ActiveConns p)) @ ''</span>'')"

fun joinBr :: "gostring list \<Rightarrow> gostring" where
  "joinBr [] = []"
| "joinBr [x] = x"
| "joinBr (x # xs) = x @ ''<br>'' @ joinBr xs"

text \<open>The markup of a row; \<open>None\<close> is the exception of \<^verbatim>\<open>null.map\<close>.\<close>

definition clientRow :: "(int \<Rightarrow> gostring) \<Rightarrow> dashClient \<Rightarrow> gostring option" where
  "clientRow num c =
     (case dc_Proxies c of
        None \<Rightarrow> None
      | Some ps \<Rightarrow>
          let proxies = joinBr (map (proxyCell num) ps) in
          Some (''<td>'' @ dc_ClientID c @ ''</td><td>'' @ dc_RemoteAddr c @ ''</td><td>'' @ dc_LoginAt c @
            ''</td><td>'' @ dc_Uptime c @ ''</td><td>'' @ num (sint (dc_BytesIn c)) @ ''</td><td>'' @
            num (sint (dc_BytesOut c)) @ ''</td><td>'' @ num (sint (dc_ActiveConns c)) @ ''</td><td>'' @
            proxies @ ''</td>''))"

text \<open>The loop: the rows appended, and whether it came to its end.\<close>

fun showRows :: "(int \<Rightarrow> gostring) \<Rightarrow> dashClient list \<Rightarrow> gostring list \<times> bool" where
  "showRows num [] = ([], True)"
| "showRows num (c # cs) =
     (case clientRow num c of
        None \<Rightarrow> ([], False)
      | Some row \<Rightarrow> (case showRows num cs of (rows, done') \<Rightarrow> (row # rows, done')))"

record page =
  pg_meta :: gostring
  pg_tbody :: gostring
  pg_rows :: "gostring list"

definition authFailed :: gostring where
  "authFailed =
     [CHR 0xE8, CHR 0xAE, CHR 0xA4, CHR 0xE8, CHR 0xAF, CHR 0x81, CHR 0xE5, CHR 0xA4] @
     [CHR 0xB1, CHR 0xE8, CHR 0xB4, CHR 0xA5] @ '','' @
     [CHR 0xE8, CHR 0xAF, CHR 0xB7, CHR 0xE6, CHR 0xA3, CHR 0x80, CHR 0xE6, CHR 0x9F] @
     [CHR 0xA5, CHR 0xE6, CHR 0x9C, CHR 0x8D, CHR 0xE5, CHR 0x8A, CHR 0xA1, CHR 0xE7] @
     [CHR 0xAB, CHR 0xAF] @ '' dashboard.user/password''"

definition loadFailed :: gostring where
  "loadFailed = [CHR 0xE5, CHR 0x8A, CHR 0xA0, CHR 0xE8, CHR 0xBD, CHR 0xBD, CHR 0xE5, CHR 0xA4] @
     [CHR 0xB1, CHR 0xE8, CHR 0xB4, CHR 0xA5] @ '': ''"

definition noClients :: gostring where
  "noClients =
     ''<tr><td colspan='' @ [CHR 0x22] @ ''8'' @ [CHR 0x22] @ '' class='' @ [CHR 0x22] @
     ''muted'' @ [CHR 0x22] @ ''>'' @
     [CHR 0xE6, CHR 0x9A, CHR 0x82, CHR 0xE6, CHR 0x97, CHR 0xA0, CHR 0xE5, CHR 0x9C] @
     [CHR 0xA8, CHR 0xE7, CHR 0xBA, CHR 0xBF, CHR 0xE5, CHR 0xAE, CHR 0xA2, CHR 0xE6] @
     [CHR 0x88, CHR 0xB7, CHR 0xE7, CHR 0xAB, CHR 0xAF] @ ''</td></tr>''"

definition metaText :: "(int \<Rightarrow> gostring) \<Rightarrow> dashServer \<Rightarrow> dashClient list \<Rightarrow> gostring" where
  "metaText num v cs =
     [CHR 0xE6, CHR 0x9C, CHR 0x8D, CHR 0xE5, CHR 0x8A, CHR 0xA1, CHR 0xE7, CHR 0xAB] @
     [CHR 0xAF] @ '' '' @ ds_Control v @
     '' '' @ [CHR 0xE5, CHR 0xB7, CHR 0xB2, CHR 0xE8, CHR 0xBF, CHR 0x90, CHR 0xE8, CHR 0xA1] @
     [CHR 0x8C] @ '' '' @ ds_Uptime v @
     '' '' @ [CHR 0xC2, CHR 0xB7] @ '' '' @
     [CHR 0xE5, CHR 0x9C, CHR 0xA8, CHR 0xE7, CHR 0xBA, CHR 0xBF, CHR 0xE5, CHR 0xAE] @
     [CHR 0xA2, CHR 0xE6, CHR 0x88, CHR 0xB7, CHR 0xE7, CHR 0xAB, CHR 0xAF] @ '' '' @ num (int (length cs)) @
     '' '' @ [CHR 0xE4, CHR 0xB8, CHR 0xAA] @ '' '' @ [CHR 0xC2, CHR 0xB7] @ '' '' @
     [CHR 0xE7, CHR 0xAB, CHR 0xAF, CHR 0xE5, CHR 0x8F, CHR 0xA3, CHR 0xE6, CHR 0xB1] @
     [CHR 0xA0] @ '' '' @ ds_AllowPorts v"

text \<open>
  One call of \<^verbatim>\<open>refresh\<close> with the reply its \<^verbatim>\<open>fetch\<close> got. \<open>exc\<close> is the text of the exception that
  may be thrown; \<open>None\<close> a reply that the server does not send.
\<close>

definition refresh :: "(int \<Rightarrow> gostring) \<Rightarrow> gostring \<Rightarrow> http_reply \<Rightarrow> page \<Rightarrow> page option" where
  "refresh num exc r pg =
     (if hr_status r = 401 then Some (pg\<lparr>pg_meta := authFailed\<rparr>)
      else case parseJSON (hr_body r) of
        None \<Rightarrow> Some (pg\<lparr>pg_meta := loadFailed @ exc\<rparr>)
      | Some d \<Rightarrow>
          (case readDash d of
             None \<Rightarrow> None
           | Some (sv, cs) \<Rightarrow>
               let pg1 = pg\<lparr>pg_meta := metaText num sv cs, pg_tbody := [], pg_rows := []\<rparr> in
               if cs = [] then Some (pg1\<lparr>pg_tbody := noClients\<rparr>)
               else (case showRows num cs of
                       (rows, True) \<Rightarrow> Some (pg1\<lparr>pg_rows := rows\<rparr>)
                     | (rows, False) \<Rightarrow> Some (pg1\<lparr>pg_rows := rows, pg_meta := loadFailed @ exc\<rparr>))))"

section \<open>The reply is read back\<close>

text \<open>The strings of the registry as the page gets them, made valid UTF-8.\<close>

definition validProxy :: "dashProxy \<Rightarrow> dashProxy" where
  "validProxy p =
     p\<lparr>dp_Name := toValid (dp_Name p), dp_Type := toValid (dp_Type p), dp_Local := toValid (dp_Local p),
       dp_Subdomain := toValid (dp_Subdomain p)\<rparr>"

definition validClient :: "dashClient \<Rightarrow> dashClient" where
  "validClient c =
     c\<lparr>dc_ClientID := toValid (dc_ClientID c), dc_RemoteAddr := toValid (dc_RemoteAddr c),
       dc_LoginAt := toValid (dc_LoginAt c), dc_Uptime := toValid (dc_Uptime c),
       dc_Proxies := map_option (map validProxy) (dc_Proxies c)\<rparr>"

definition validServer :: "dashServer \<Rightarrow> dashServer" where
  "validServer v =
     \<lparr>ds_StartedAt = toValid (ds_StartedAt v), ds_Uptime = toValid (ds_Uptime v),
      ds_Control = toValid (ds_Control v), ds_AllowPorts = toValid (ds_AllowPorts v)\<rparr>"

text \<open>The ports of a client are Go integers.\<close>

definition ports_int64 :: "dashClient \<Rightarrow> bool" where
  "ports_int64 c \<longleftrightarrow>
     (case dc_Proxies c of None \<Rightarrow> True | Some ps \<Rightarrow> list_all (\<lambda>p. in_int64 (dp_RemotePort p)) ps)"

lemma sint_int64 [simp]: "in_int64 (sint (w :: int64))"
  using sint_ge [of w] sint_lt [of w] by (simp add: in_int64_def)

lemma jInt_simps [simp]:
  "int_numbers (jInt w)" "json_depth (jInt w) = 0" "validated (jInt w) = jInt w"
  by (simp_all add: jInt_def Atoi_Itoa)

lemma jsInt_jInt: "jsMember v k = Some (jInt w) \<Longrightarrow> jsInt v k = Some (sint w)"
  by (simp add: jsInt_def jInt_def Atoi_Itoa)

lemma toValid_keys:
  "toValid ''name'' = ''name''" "toValid ''type'' = ''type''" "toValid ''local'' = ''local''"
  "toValid ''remote_port'' = ''remote_port''" "toValid ''subdomain'' = ''subdomain''" "toValid ''active_conns'' = ''active_conns''"
  "toValid ''client_id'' = ''client_id''" "toValid ''remote_addr'' = ''remote_addr''" "toValid ''login_at'' = ''login_at''"
  "toValid ''uptime'' = ''uptime''" "toValid ''bytes_in'' = ''bytes_in''" "toValid ''bytes_out'' = ''bytes_out''"
  "toValid ''proxies'' = ''proxies''" "toValid ''allow_ports'' = ''allow_ports''" "toValid ''control'' = ''control''"
  "toValid ''started_at'' = ''started_at''" "toValid ''clients'' = ''clients''" "toValid ''server'' = ''server''"
  by (rule toValid_valid, rule valid_ascii, code_simp)+

lemmas dash_codec =
  jsStr_def jsInt_jInt jsInt_def [of _ "''remote_port''"] Atoi_Itoa toValid_keys

lemma those_map: "(\<And>x. x \<in> set xs \<Longrightarrow> f x = Some (g x)) \<Longrightarrow> those (map f xs) = Some (map g xs)"
  by (induction xs) simp_all

lemma depth_list: "list_all (\<lambda>x. f x \<le> (d :: nat)) xs \<Longrightarrow> foldr max (map f xs) 0 \<le> d"
  by (simp add: foldr_max_le list_all_iff)

lemma readDashProxy_printed:
  "in_int64 (dp_RemotePort p) \<Longrightarrow> readDashProxy (validated (encDashProxy p)) = Some (validProxy p)"
  by (simp add: readDashProxy_def encDashProxy_def dash_codec validProxy_def)

lemma encDashProxy_fits: "in_int64 (dp_RemotePort p) \<Longrightarrow> int_numbers (encDashProxy p)"
  "json_depth (encDashProxy p) \<le> Suc 0"
  by (simp_all add: encDashProxy_def Atoi_Itoa)

lemma readProxies_printed:
  assumes "ports_int64 c"
  shows "readProxies (validated (encDashClient c)) = Some (map_option (map validProxy) (dc_Proxies c))"
proof (cases "dc_Proxies c")
  case None
  then show ?thesis by (simp add: readProxies_def encDashClient_def toValid_keys)
next
  case (Some ps)
  with assms have "those (map readDashProxy (map validated (map encDashProxy ps))) = Some (map validProxy ps)"
    unfolding map_map by (intro those_map) (simp add: ports_int64_def list_all_iff readDashProxy_printed)
  with Some show ?thesis by (simp add: readProxies_def encDashClient_def toValid_keys)
qed

lemma readDashClient_printed:
  assumes "ports_int64 c"
  shows "readDashClient (validated (encDashClient c)) = Some (validClient c)"
  unfolding readDashClient_def readProxies_printed [OF assms]
  by (simp add: encDashClient_def dash_codec validClient_def split: option.splits)

lemma encDashClient_fits:
  assumes "ports_int64 c"
  shows "int_numbers (encDashClient c)" "json_depth (encDashClient c) \<le> 3"
proof -
  have "int_numbers (case dc_Proxies c of None \<Rightarrow> JNull | Some ps \<Rightarrow> JArr (map encDashProxy ps))"
    using assms by (auto simp: ports_int64_def list_all_iff encDashProxy_fits split: option.splits)
  moreover have "json_depth (case dc_Proxies c of None \<Rightarrow> JNull | Some ps \<Rightarrow> JArr (map encDashProxy ps)) \<le> 2"
    by (auto simp: list_all_iff numeral_2_eq_2 intro!: depth_list encDashProxy_fits(2) split: option.splits)
  ultimately show "int_numbers (encDashClient c)" "json_depth (encDashClient c) \<le> 3"
    by (simp_all add: encDashClient_def)
qed

lemma encDash_fits:
  assumes "list_all ports_int64 cs"
  shows "int_numbers (encDash v cs)" "json_depth (encDash v cs) \<le> maxNestingDepth"
proof -
  show "int_numbers (encDash v cs)"
    using assms by (auto simp: encDash_def encDashServer_def list_all_iff encDashClient_fits)
  have "foldr max (map json_depth (map encDashClient cs)) 0 \<le> 3"
    using assms by (intro depth_list) (auto simp: list_all_iff encDashClient_fits)
  then show "json_depth (encDash v cs) \<le> maxNestingDepth"
    by (simp add: encDash_def encDashServer_def maxNestingDepth_def)
qed

lemma readDash_printed:
  assumes "list_all ports_int64 cs"
  shows "readDash (validated (encDash v cs)) = Some (validServer v, map validClient cs)"
proof -
  have "those (map readDashClient (map validated (map encDashClient cs))) = Some (map validClient cs)"
    using assms unfolding map_map
    by (intro those_map) (simp add: list_all_iff readDashClient_printed)
  then show ?thesis
    by (simp add: readDash_def encDash_def toValid_keys)
      (simp add: readDashServer_def encDashServer_def dash_codec validServer_def)
qed

lemma parse_reply:
  assumes "list_all ports_int64 cs"
  shows "parseJSON (hr_body (writeJSON (encDash v cs))) = Some (validated (encDash v cs))"
  using parse_printJSON [OF encDash_fits [OF assms], of lineEnd]
  by (simp add: parseJSON_def writeJSON_def lineEnd_def number_ends_def json_space_def is_digit_def)

lemma showRows_takeWhile:
  "showRows num cs =
     (map (the \<circ> clientRow num) (takeWhile (\<lambda>c. dc_Proxies c \<noteq> None) cs), list_all (\<lambda>c. dc_Proxies c \<noteq> None) cs)"
  by (induction cs) (auto simp: clientRow_def split: option.splits)

lemma validClient_proxies: "(\<exists>y. dc_Proxies (validClient c) = Some y) \<longleftrightarrow> (\<exists>y. dc_Proxies c = Some y)"
  by (simp add: validClient_def)

text \<open>What \<^verbatim>\<open>refresh\<close> shows of a reply of the server that lists a client.\<close>

lemma refresh_printed:
  assumes "list_all ports_int64 cs" "cs \<noteq> []"
  shows "refresh num exc (renderReply (ClientsJSON v cs)) pg =
    Some (pg\<lparr>pg_meta := if list_all (\<lambda>c. dc_Proxies c \<noteq> None) cs
               then metaText num (validServer v) (map validClient cs) else loadFailed @ exc,
             pg_tbody := [],
             pg_rows := map (the \<circ> clientRow num \<circ> validClient) (takeWhile (\<lambda>c. dc_Proxies c \<noteq> None) cs)\<rparr>)"
proof -
  let ?r = "writeJSON (encDash v cs)"
  have "hr_status ?r \<noteq> 401" by (simp add: writeJSON_def)
  moreover have "showRows num (map validClient cs) =
      (map (the \<circ> clientRow num \<circ> validClient) (takeWhile (\<lambda>c. dc_Proxies c \<noteq> None) cs),
       list_all (\<lambda>c. dc_Proxies c \<noteq> None) cs)"
    by (simp add: showRows_takeWhile takeWhile_map validClient_proxies comp_def list_all_iff)
  ultimately show ?thesis using assms(2)
    by (simp add: refresh_def parse_reply [OF assms(1)] readDash_printed [OF assms(1)])
qed

section \<open>The page shows the registry\<close>

abbreviation snapshotOf :: "dash_env \<Rightarrow> Server \<Rightarrow> dashClient list" where
  "snapshotOf e s \<equiv> snapshot (da_rfc3339 e) (da_durString e) (da_now e) (da_ords e) s (da_cs e)"

lemma snapProxies_None:
  assumes "set ns = dom m"
  shows "snapProxies s m ns None = None \<longleftrightarrow> m = Map.empty"
proof -
  have "set (List.map_filter m ns) = ran m"
    using assms by (auto simp: set_map_filter ran_def dom_def)
  moreover have "ran m = {} \<longleftrightarrow> m = Map.empty"
    by (metis domIff dom_eq_empty_conv empty_iff equals0I option.exhaust ranI ran_empty)
  ultimately have "List.map_filter m ns = [] \<longleftrightarrow> m = Map.empty"
    by (simp only: set_empty [symmetric])
  then show ?thesis by (simp add: snapProxies_acc)
qed

lemma snapshot_ports_int64:
  assumes "\<And>p. in_int64 (px_remotePort (hp_proxy s p))"
  shows "list_all ports_int64 (snapshot f g now ords s cs)"
proof -
  have "ports_int64 (snapSession f g now ords s i)" for i
    using snapProxies_set [of s "se_proxies (hp_session s i)" "ords i"] assms
    by (fastforce simp: ports_int64_def list_all_iff snapSession_def Let_def dashProxyOf_def split: option.splits)
  then show ?thesis by (auto simp: list_all_iff snapshot_set)
qed

lemma snapshot_all_proxies:
  assumes "set cs = dom (sv_sessions s)" "\<And>i. set (ords i) = dom (se_proxies (hp_session s i))"
  shows "list_all (\<lambda>c. dc_Proxies c \<noteq> None) (snapshot f g now ords s cs) \<longleftrightarrow>
    (\<forall>i \<in> ran (sv_sessions s). se_proxies (hp_session s i) \<noteq> Map.empty)"
proof -
  have "dc_Proxies (snapSession f g now ords s i) \<noteq> None \<longleftrightarrow> se_proxies (hp_session s i) \<noteq> Map.empty" for i
    using snapProxies_None [OF assms(2) [of i], of s] by (simp add: snapSession_def Let_def)
  moreover have "{i. \<exists>c \<in> set cs. sv_sessions s c = Some i} = ran (sv_sessions s)"
    by (auto simp: assms(1) ran_def dom_def)
  ultimately show ?thesis unfolding list_all_iff snapshot_set by auto
qed

lemma snapshot_length: "set cs \<subseteq> dom (sv_sessions s) \<Longrightarrow> length (snapshot f g now ords s cs) = length cs"
  by (induction cs) auto

lemma serveDashboard_clients:
  assumes "rq_Path r = ''/api/clients''"
    and "dash_User (sc_Dashboard (sv_cfg s)) = [] \<or>
      rq_Auth r = Some (dash_User (sc_Dashboard (sv_cfg s)), dash_Password (sc_Dashboard (sv_cfg s)))"
  shows "\<exists>v. serveDashboard e s r = ClientsJSON v (snapshotOf e s)"
  using assms
  by (auto simp: serveDashboard_def basicAuth_def dashMux_def dashClients_def Let_def)

text \<open>The first cell of a row is the name of the client as it logged in.\<close>

lemma clientRow_name:
  "dc_Proxies c \<noteq> None \<Longrightarrow>
     HasPrefix (the (clientRow num (validClient c))) (''<td>'' @ toValid (dc_ClientID c) @ ''</td>'')"
  by (auto simp: clientRow_def validClient_def HasPrefix_def Let_def)

lemma takeWhile_short: "\<not> list_all P xs \<Longrightarrow> length (takeWhile P xs) < length xs"
  by (induction xs) auto

text \<open>The clients that have a proxy, and what the script shows: those before the first that has none.\<close>

definition hasProxies :: "Server \<Rightarrow> gostring \<Rightarrow> bool" where
  "hasProxies s c \<longleftrightarrow> (\<exists>i. sv_sessions s c = Some i \<and> se_proxies (hp_session s i) \<noteq> Map.empty)"

lemma snapshot_takeWhile:
  assumes "set cs \<subseteq> dom (sv_sessions s)" "\<And>i. set (ords i) = dom (se_proxies (hp_session s i))"
  shows "takeWhile (\<lambda>c. dc_Proxies c \<noteq> None) (snapshot f g now ords s cs) =
    snapshot f g now ords s (takeWhile (hasProxies s) cs)"
  using assms(1)
proof (induction cs)
  case (Cons c cs)
  then obtain i where i: "sv_sessions s c = Some i" by auto
  have "dc_Proxies (snapSession f g now ords s i) \<noteq> None \<longleftrightarrow> se_proxies (hp_session s i) \<noteq> Map.empty"
    using snapProxies_None [OF assms(2) [of i], of s] by (simp add: snapSession_def Let_def)
  then have "dc_Proxies (snapSession f g now ords s i) \<noteq> None \<longleftrightarrow> hasProxies s c"
    by (simp add: hasProxies_def i)
  with Cons i show ?case by simp
qed simp

lemma page_of_registry:
  assumes "rq_Path r = ''/api/clients''"
    and "dash_User (sc_Dashboard (sv_cfg s)) = [] \<or>
      rq_Auth r = Some (dash_User (sc_Dashboard (sv_cfg s)), dash_Password (sc_Dashboard (sv_cfg s)))"
    and cs: "set (da_cs e) = dom (sv_sessions s)" "sv_sessions s \<noteq> Map.empty"
    and ords: "\<And>i. set (da_ords e i) = dom (se_proxies (hp_session s i))"
    and ports: "\<And>p. in_int64 (px_remotePort (hp_proxy s p))"
  obtains pg' where "refresh num exc (renderReply (serveDashboard e s r)) pg = Some pg'"
    and "pg_rows pg' = map (the \<circ> clientRow num \<circ> validClient)
      (snapshotOf (e\<lparr>da_cs := takeWhile (hasProxies s) (da_cs e)\<rparr>) s)"
    and "\<exists>i \<in> ran (sv_sessions s). se_proxies (hp_session s i) = Map.empty \<Longrightarrow>
      pg_meta pg' = loadFailed @ exc \<and> length (pg_rows pg') < length (da_cs e)"
    and "\<forall>i \<in> ran (sv_sessions s). se_proxies (hp_session s i) \<noteq> Map.empty \<Longrightarrow>
      pg_rows pg' = map (the \<circ> clientRow num \<circ> validClient) (snapshotOf e s)"
proof -
  let ?snap = "snapshotOf e s"
  obtain v where v: "serveDashboard e s r = ClientsJSON v ?snap"
    using serveDashboard_clients [OF assms(1,2), of e] by blast
  have l: "length ?snap = length (da_cs e)" using snapshot_length cs(1) by simp
  have "?snap \<noteq> []"
  proof
    assume "?snap = []"
    with l have "dom (sv_sessions s) = {}" using cs(1) by simp
    with cs(2) show False by simp
  qed
  note shown = refresh_printed [OF snapshot_ports_int64 [OF ports] this, of num exc v pg]
  note all = snapshot_all_proxies [OF cs(1) ords, of "da_rfc3339 e" "da_durString e" "da_now e"]
  have tw: "takeWhile (\<lambda>c. dc_Proxies c \<noteq> None) ?snap =
      snapshotOf (e\<lparr>da_cs := takeWhile (hasProxies s) (da_cs e)\<rparr>) s"
    using snapshot_takeWhile [of "da_cs e" s "da_ords e"] cs(1) ords by simp
  obtain pg' where pg': "refresh num exc (renderReply (ClientsJSON v ?snap)) pg = Some pg'"
    "pg_meta pg' = (if list_all (\<lambda>c. dc_Proxies c \<noteq> None) ?snap
       then metaText num (validServer v) (map validClient ?snap) else loadFailed @ exc)"
    "pg_rows pg' = map (the \<circ> clientRow num \<circ> validClient) (takeWhile (\<lambda>c. dc_Proxies c \<noteq> None) ?snap)"
    using shown by simp
  show thesis
    by (rule that, unfold v, rule pg'(1), unfold pg'(2,3) tw, rule refl, unfold tw [symmetric])
      (use all l takeWhile_short [of "\<lambda>c. dc_Proxies c \<noteq> None" ?snap] in
        \<open>auto simp: list_all_iff takeWhile_eq_all_conv [THEN iffD2]\<close>)
qed

lemma page_names:
  assumes cs: "set (da_cs e) = dom (sv_sessions s)"
    and ords: "\<And>i. set (da_ords e i) = dom (se_proxies (hp_session s i))"
    and all: "\<forall>i \<in> ran (sv_sessions s). se_proxies (hp_session s i) \<noteq> Map.empty" and i: "i \<in> ran (sv_sessions s)"
  shows "\<exists>row \<in> set (map (the \<circ> clientRow num \<circ> validClient) (snapshotOf e s)).
    HasPrefix row (''<td>'' @ toValid (se_clientID (hp_session s i)) @ ''</td>'')"
proof -
  let ?dc = "snapSession (da_rfc3339 e) (da_durString e) (da_now e) (da_ords e) s i"
  from i obtain c where "sv_sessions s c = Some i" by (auto simp: ran_def)
  then have dc: "?dc \<in> set (snapshotOf e s)" using cs by (auto simp: snapshot_set)
  moreover have "dc_ClientID ?dc = se_clientID (hp_session s i)" by (simp add: snapSession_def Let_def)
  moreover have "dc_Proxies ?dc \<noteq> None"
    using snapshot_all_proxies [OF cs ords, of "da_rfc3339 e" "da_durString e" "da_now e"] all dc
    by (auto simp: list_all_iff)
  ultimately show ?thesis using clientRow_name [of ?dc num] by force
qed

end
