(* ===== verification/Sha256_Vector.thy ===== *)
theory Sha256_Vector
  imports Sha256
begin

text \<open>
  The one-block test vector of FIPS 180-4 (the message \<^verbatim>\<open>abc\<close>), evaluated by the kernel in
  steps: the message schedule, then the 64 rounds in four groups of 16.
\<close>

definition abc_schedule :: "w32 list" where
  "abc_schedule =
     [0x61626380, 0x00000000, 0x00000000, 0x00000000, 0x00000000, 0x00000000,
      0x00000000, 0x00000000, 0x00000000, 0x00000000, 0x00000000, 0x00000000,
      0x00000000, 0x00000000, 0x00000000, 0x00000018, 0x61626380, 0x000f0000,
      0x7da86405, 0x600003c6, 0x3e9d7b78, 0x0183fc00, 0x12dcbfdb, 0xe2e2c38e,
      0xc8215c1a, 0xb73679a2, 0xe5bc3909, 0x32663c5b, 0x9d209d67, 0xec8726cb,
      0x702138a4, 0xd3b7973b, 0x93f5997f, 0x3b68ba73, 0xaff4ffc1, 0xf10a5c62,
      0x0a8b3996, 0x72af830a, 0x9409e33e, 0x24641522, 0x9f47bf94, 0xf0a64f5a,
      0x3e246a79, 0x27333ba3, 0x0c4763f2, 0x840abf27, 0x7a290d5d, 0x065c43da,
      0xfb3e89cb, 0xcc7617db, 0xb9e66c34, 0xa9993667, 0x84badedd, 0xc21462bc,
      0x1487472c, 0xb20f7a99, 0xef57b9cd, 0xebe6b238, 0x9fe3095e, 0x78bc8d4b,
      0xa43fcf15, 0x668b2ff8, 0xeeaba2cc, 0x12b1edeb]"

lemma abc_schedule: "schedule (sha_pad (bytes_of_string ''abc'')) = abc_schedule"
  by code_simp

lemma abc_rounds_1:
  "sha_rounds (take 16 (drop 0 (zip sha_k abc_schedule)))
     sha_h0 =
     [0xb0fa238e, 0xc0645fde, 0xd932eb16, 0x87912990, 0x07590dcd, 0x0b92f20c, 0x745a48de, 0x1e578218]"
  by code_simp

lemma abc_rounds_2:
  "sha_rounds (take 16 (drop 16 (zip sha_k abc_schedule)))
     [0xb0fa238e, 0xc0645fde, 0xd932eb16, 0x87912990, 0x07590dcd, 0x0b92f20c, 0x745a48de, 0x1e578218] =
     [0x73b33bf5, 0xea992a22, 0xa0060b30, 0x363482c9, 0xba591112, 0x0109ab3a, 0xade79437, 0x6112a3b7]"
  by code_simp

lemma abc_rounds_3:
  "sha_rounds (take 16 (drop 32 (zip sha_k abc_schedule)))
     [0x73b33bf5, 0xea992a22, 0xa0060b30, 0x363482c9, 0xba591112, 0x0109ab3a, 0xade79437, 0x6112a3b7] =
     [0x4172328d, 0xa14c14b0, 0x72ab4b91, 0x26628815, 0xfecf0bc6, 0xd57b94a9, 0xb7755da1, 0xa80f11f0]"
  by code_simp

lemma abc_rounds_4:
  "sha_rounds (take 16 (drop 48 (zip sha_k abc_schedule)))
     [0x4172328d, 0xa14c14b0, 0x72ab4b91, 0x26628815, 0xfecf0bc6, 0xd57b94a9, 0xb7755da1, 0xa80f11f0] =
     [0x506e3058, 0xd39a2165, 0x04d24d6c, 0xb85e2ce9, 0x5ef50f24, 0xfb121210, 0x948d25b6, 0x961f4894]"
  by code_simp

lemma abc_zip: "zip sha_k abc_schedule =
    take 16 (drop 0 (zip sha_k abc_schedule)) @ take 16 (drop 16 (zip sha_k abc_schedule)) @
    take 16 (drop 32 (zip sha_k abc_schedule)) @ take 16 (drop 48 (zip sha_k abc_schedule))"
  by (simp add: sha_k_def abc_schedule_def)

lemma sha_rounds_four:
  "length st = 8 \<Longrightarrow> sha_rounds (a @ b @ c @ d) st =
     sha_rounds d (sha_rounds c (sha_rounds b (sha_rounds a st)))"
  by (simp add: sha_rounds_append sha_rounds_length)

lemma sha_h0_length: "length sha_h0 = 8"
  by (simp add: sha_h0_def)

lemma abc_block: "sha_block sha_h0 (sha_pad (bytes_of_string ''abc'')) =
    [0xba7816bf, 0x8f01cfea, 0x414140de, 0x5dae2223, 0xb00361a3, 0x96177a9c, 0xb410ff61, 0xf20015ad]"
  unfolding sha_block_def abc_schedule
  apply (subst abc_zip)
  apply (subst sha_rounds_four [OF sha_h0_length])
  apply (simp only: abc_rounds_1 abc_rounds_2 abc_rounds_3 abc_rounds_4)
  by (simp add: sha_h0_def)

lemma abc_pad: "length (sha_pad (bytes_of_string ''abc'')) = 64"
  by (simp add: sha_pad_def)

lemma sha256_abc:
  "sha256 (bytes_of_string ''abc'') =
     [0xba, 0x78, 0x16, 0xbf, 0x8f, 0x01, 0xcf, 0xea, 0x41, 0x41, 0x40, 0xde, 0x5d, 0xae, 0x22, 0x23,
      0xb0, 0x03, 0x61, 0xa3, 0x96, 0x17, 0x7a, 0x9c, 0xb4, 0x10, 0xff, 0x61, 0xf2, 0x00, 0x15, 0xad]"
proof -
  have "sha_blocks sha_h0 (sha_pad (bytes_of_string ''abc'')) =
      sha_block sha_h0 (sha_pad (bytes_of_string ''abc''))"
    by (rule sha_blocks_one [OF abc_pad])
  then show ?thesis
    unfolding sha256_def abc_block by (simp add: PutUint32_def)
qed

end
