(* ===== verification/Spec2Isabelle.thy ===== *)
theory Spec2Isabelle
  imports NetScenario Counters Isolation Programs DashboardWeb Sha256_Vector
begin

text \<open>
  A verification library for \<^verbatim>\<open>port\<close>, a tunnel in Go that gives services behind a NAT a public
  address. A client (\<^verbatim>\<open>internal/client\<close>) keeps one connection to the server
  (\<^verbatim>\<open>internal/server\<close>), split into streams by smux. On the first stream, the control stream,
  both exchange the frames of \<^verbatim>\<open>internal/proto\<close>: the client logs in
  (\<^verbatim>\<open>internal/auth\<close>), registers proxies and sends pings; the server answers, and tells the client
  of visitors. A visitor that connects to the port of a TCP proxy, or names the host of an HTTP proxy
  on the virtual host port, waits in the proxy's queue until the client opens a data stream for it;
  then \<^verbatim>\<open>internal/mux\<close> relays the bytes of both directions.

  \<^bold>\<open>Theories.\<close> Each is named after what it models; the definitions keep the names of the source,
  in the order of the source.

  \<^item> \<open>Prelude\<close>: bytes and strings, 64-bit wrap-around, partial maps, reachable states and runs of a
    step relation, and the interfaces of the library as locales: \<open>buffered_channel\<close> (what a Go
    channel with a buffer promises), \<open>invariant_system\<close>, \<open>strengthened_system\<close> and
    \<open>refinement_system\<close>. All are interpreted on the model's own operations: \<open>visitors\<close> in
    \<open>Session\<close>, \<open>writes\<close> and \<open>replies\<close> in \<open>Client\<close>, \<open>joining\<close> in \<open>Mux\<close>, \<open>server\<close> and its refinement in
    \<open>ServerInv\<close>, \<open>serving\<close> in \<open>ServerRun\<close>, \<open>counters\<close> in \<open>Counters\<close>, \<open>client_routing\<close> and \<open>client_stages\<close> in
    \<open>ClientInv\<close>, \<open>typing\<close> in \<open>Wire\<close>, \<open>numbering\<close> in \<open>Requests\<close>, \<open>net_parts\<close> and \<open>network\<close> in \<open>Net\<close>.
    The locale \<open>codec\<close> of \<open>Messages\<close>, what a message promises about its encoding, is interpreted
    there on every message.
  \<^item> \<open>GoLib\<close>: what the source uses of \<^verbatim>\<open>strings\<close>, \<^verbatim>\<open>strconv\<close>, \<^verbatim>\<open>encoding/hex\<close> and of the
    addresses of \<^verbatim>\<open>net\<close>. \<open>Sha256\<close> defines SHA-256 and HMAC in full; \<open>Sha256_Vector\<close> evaluates
    them at published test vectors.
  \<^item> \<open>Proto\<close>: \<^verbatim>\<open>internal/proto/proto.go\<close>, frames over any reader that returns what it has. \<open>Config\<close>:
    \<^verbatim>\<open>internal/config/config.go\<close>. \<open>Auth\<close>: \<^verbatim>\<open>internal/auth/auth.go\<close>. \<open>Mux\<close>:
    \<^verbatim>\<open>internal/mux/mux.go\<close>, where the two directions of \<^verbatim>\<open>Join\<close> are a step relation: a read
    waits until its peer sends or ends, a write while its peer takes nothing, and closing ends both waits.
    \<open>Durations\<close>: the YAML hooks of \<^verbatim>\<open>config.Duration\<close>, with the parser and printer of \<^verbatim>\<open>time.Duration\<close>.
  \<^item> \<open>Utf8\<close>, \<open>Json\<close>: what the messages use of \<^verbatim>\<open>unicode/utf8\<close> and \<^verbatim>\<open>encoding/json\<close>, down to the bytes.
    \<open>Messages\<close>: the encoder and decoder of each struct of \<^verbatim>\<open>proto.go\<close>, after its field tags.
    \<open>Wire\<close>: which message each side writes and what its peer does with the frame, and that every message of
    the client is well typed; \<open>Replies\<close> the same for the server; \<open>Requests\<close>: each request number belongs
    to one request.
  \<^item> \<open>Registry\<close>: the state of \<^verbatim>\<open>server.go\<close> and the operations of \<^verbatim>\<open>proxy.go\<close> on it. Sessions and
    proxies are objects of an explicit heap, because the tables share them. \<open>RegistryInv\<close> has the
    invariant \<open>reg_inv\<close>, one named part per table, and the effect of every operation on the leases
    (who holds which name, port and host).
  \<^item> \<open>Session\<close>: \<^verbatim>\<open>session.go\<close>, login, control loop, data streams. \<open>Vhost\<close>: \<^verbatim>\<open>vhost.go\<close> with the
    buffered reader it uses. \<open>ServerRun\<close>: \<^verbatim>\<open>Run\<close> of \<^verbatim>\<open>server.go\<close> as one more goroutine
    beside those of the server (the step relation \<open>rstep\<close> over \<open>sstep\<close>), which it does not wait
    for, and the accept loops.
    \<open>DashboardPage\<close>: \<^verbatim>\<open>dashboard.go\<close> up to what the handlers answer; \<open>DashboardWeb\<close>: the bytes of the
    answers, the page, and what its script shows of them.
  \<^item> \<open>ServerSys\<close>: the goroutines of the server as the step relation \<open>sstep\<close>, a step being what runs
    under one lock or between two blocking calls. \<open>ServerInv\<close> has its invariant, the refinement of
    an abstract lease table and the consequences for closed sessions; \<open>Counters\<close> the connection
    counters; \<open>Isolation\<close> that a visitor reaches only the session of its proxy, and the visitor that comes
    too late.
  \<^item> \<open>Pinning\<close>, \<open>ClientRun\<close>, \<open>Client\<close>, \<open>Reload\<close>: \<^verbatim>\<open>internal/client/client.go\<close>, in this order the
    choice of the server's certificate, the reconnection schedule, the state with the operations of
    a connection, and the reload of the configuration. \<open>ClientSys\<close>: the goroutines of the client as the step
    relation \<open>cstep\<close>; \<open>ClientInv\<close>: its two invariants (whose replies, which stage) and their
    consequences, and the order of messages.
  \<^item> \<open>EndToEnd\<close>: the requests of the client, in the order it sends them, against the registry of the
    server. \<open>Programs\<close>: \<^verbatim>\<open>internal/logger\<close> and the two \<^verbatim>\<open>main\<close> functions with their flags and
    signals.
  \<^item> \<open>Net\<close>: \<open>cstep\<close> and \<open>sstep\<close> joined by connections that carry frames in order, as bytes: the relation
    \<open>nstep\<close> models the network between the two programs, which is no code of either; the
    invariant that ties what the client is told to what the server has done.
  \<^item> \<open>Scenario\<close>, \<open>ClientScenario\<close> and \<open>NetScenario\<close>: a concrete server, a concrete client and short
    executions of each and of both, at which the theorems with hypotheses are instantiated.

  \<^bold>\<open>Correspondence.\<close> A struct is a record, an error a constructor of a sum. Pointers that are shared are
  numbers into a heap (\<open>sid\<close>, \<open>pid\<close>, \<open>lid\<close> on the server, \<open>kid\<close>, \<open>rid\<close> on the client). Counters
  have their 64 bits, durations and timestamps are integers with the wrap-around written out. The
  order in which Go visits a map is an argument, and the theorems hold for every order. The
  environment's answers (\<^verbatim>\<open>net.Listen\<close>, dial, reads, writes, clocks, random numbers) are arguments
  of the operations or labels of the steps. Loops over input are \<open>partial_function (option)\<close>; that
  they return is proved for every connection that makes progress. Loops over events recurse on
  the list of events. No fuel is used.

  \<^bold>\<open>What the properties show.\<close> Codec, parser and login: round trips, an equivalent reference decoder,
  the exact condition of acceptance. Registry: the invariant of all tables in every reachable
  state, the refinement, the exact outcome of a registration, of closing and of replacing a
  session, and that no visitor of one client is handed to another. Relay and virtual hosts: no byte
  is lost, added or reordered, under any interleaving and any chunking. Client: replies reach their request, messages keep their order, the stages of
  connections exclude each other, the schedule of reconnections. Both: addresses come back after a
  lost connection, a reload reaches the new configuration, and the outcome of a registration that the
  client reports is the one the server has recorded, under any interleaving. Messages, durations and the
  dashboard: what is printed is read back. Several theorems describe where the
  code does something else than its comments say: a registration that outlives its session and then answers
  for it, a visitor that comes after its proxy is gone and hangs, a page that one client without proxies
  breaks, a login that outlives the shutdown of the server, a
  send on a closed channel, a port lost in a reload, a backoff that is lost for good, a
  cancellation that waits.

  \<^bold>\<open>Parameters.\<close> The systems of server and client take a record of JSON decoders; \<open>Net\<close> and the
  properties about bytes use the decoders of \<open>Messages\<close>. YAML is a function from the text and the
  defaults, the TLS handshake a function from the name to check to certificates, Unicode case
  tables a function on strings that is used outside ASCII only, \<^verbatim>\<open>strconv.Quote\<close>, which occurs in one
  error text, a function, floating-point rounding a function with an error bound (\<open>rounding\<close>) or exact up to
  2^53 (\<open>exact53\<close>), the printing of a number by the browser a function. The dashboard handlers take the
  printers of times as arguments; \<open>formatRFC3339\<close> and \<open>DurationString\<close> are those of the program.

  \<^bold>\<open>Not modelled.\<close> Deadlines, and log records except those of the \<^verbatim>\<open>main\<close> functions. The internals of smux,
  of TLS and of the YAML decoder, which are third-party or system code. In \<open>Net\<close> a frame arrives as a whole
  or not at all; how its bytes are cut is the codec's theorem. The text of an exception in the browser. Build
  files, deployment scripts and the smoke test, which hold no program logic. End-to-end theorems about a whole
  configuration are for TCP proxies with a port of their own; for HTTP proxies and pool ports the registry
  theorems and those of the network hold.
\<close>

section \<open>Frames and relayed bytes\<close>

text \<open>
  C21: \<^verbatim>\<open>ReadFrame\<close> returns on every connection that makes progress, and
  what it returns is the reference decoding of the bytes to come: it does not depend on how they are
  cut into reads, and it consumes exactly one frame.
\<close>

theorem read_frame_is_reference:
  assumes "conn_ok c"
  shows "\<exists>c'. ReadFrame connRead c = Some (decode_frame (c_fin c) (conn_pending c), c') \<and>
    (\<forall>f. decode_frame (c_fin c) (conn_pending c) = Inr f \<longrightarrow>
       conn_ok c' \<and> conn_pending c' = after_frame (conn_pending c) \<and> c_fin c' = c_fin c)"
  using conn_in.ReadFrame_decodes [OF assms] .

theorem read_frame_is_reference_witness:
  "\<exists>c'. ReadFrame connRead (exConn [[7, 0, 0], [0, 2, 65], [66, 9]]) = Some (Inr (7, [65, 66]), c')"
proof -
  let ?c = "exConn [[7, 0, 0], [0, 2, 65], [66, 9]]"
  have "conn_ok ?c" by (simp add: exConn_def conn_ok_def)
  from read_frame_is_reference [OF this] obtain c' where
    "ReadFrame connRead ?c = Some (decode_frame (c_fin ?c) (conn_pending ?c), c')" by blast
  moreover have "decode_frame (c_fin ?c) (conn_pending ?c) = Inr (7, [65, 66])"
    by (simp add: exConn_def conn_pending_def decode_frame_def MaxFrameSize_def Let_def)
  ultimately show ?thesis by auto
qed

text \<open>
  C22: a frame that \<^verbatim>\<open>WriteFrame\<close> has written without error, of at most
  \<^verbatim>\<open>MaxFrameSize\<close> bytes, is read back by \<^verbatim>\<open>ReadFrame\<close> with the same type and
  payload, whatever follows it and however the bytes are chunked on the way.
\<close>

theorem frame_roundtrip:
  assumes "WriteFrame connWrite w ty payload = (None, w')" "c_out w = []"
    and "length payload \<le> 2 ^ 20" "conn_ok c" "conn_pending c = c_out w' @ more_bytes"
  shows "\<exists>c'. ReadFrame connRead c = Some (Inr (ty, payload), c') \<and> conn_pending c' = more_bytes"
proof -
  have "c_out w' = frame_bytes ty payload"
    using conn_out.WriteFrame_written(2) [OF assms(1)] assms(2) by simp
  with conn_in.ReadFrame_frame [OF assms(4) _ assms(3), of ty more_bytes] assms(5) show ?thesis by auto
qed

theorem frame_roundtrip_witness:
  "\<exists>c'. ReadFrame connRead (exConn [[7], [0, 0, 0, 2, 65, 66]]) = Some (Inr (7, [65, 66]), c') \<and>
     conn_pending c' = []"
proof -
  have "WriteFrame connWrite (exConn []) 7 [65, 66] =
      (None, (exConn [])\<lparr>c_out := [7, 0, 0, 0, 2, 65, 66]\<rparr>)"
    by (simp add: WriteFrame_def connWrite_def exConn_def PutUint32_def Let_def)
  from frame_roundtrip [OF this, of "exConn [[7], [0, 0, 0, 2, 65, 66]]" "[]"] show ?thesis
    by (simp add: exConn_def conn_ok_def conn_pending_def)
qed

text \<open>
  C40: the size limit is checked by the reader only. A payload
  above \<^verbatim>\<open>MaxFrameSize\<close> is written without error, and the peer answers it with
  \<^verbatim>\<open>frame too large\<close>.
\<close>

theorem oversized_frame_is_written_not_read:
  assumes "2 ^ 20 < length payload" "length payload < 2 ^ 32" "c_room w = None"
    and "conn_ok c" "conn_pending c = frame_bytes ty payload @ more_bytes"
  shows "fst (WriteFrame connWrite w ty payload) = None \<and>
    c_out (snd (WriteFrame connWrite w ty payload)) = c_out w @ frame_bytes ty payload \<and>
    (\<exists>c'. ReadFrame connRead c = Some (Inl (FrameTooLarge (word_of_nat (length payload))), c'))"
proof -
  let ?n = "word_of_nat (length payload) :: 32 word"
  have n: "unat ?n = length payload" using assms(2) by (simp add: unat_of_nat)
  have gt: "MaxFrameSize < ?n" using assms(1) n by (simp add: word_less_nat_alt)
  have u: "Uint32 (take 4 (drop 1 (conn_pending c))) = ?n"
    using Uint32_PutUint32 [of ?n "[]"] by (simp add: assms(5) frame_bytes_def)
  have "decode_frame (c_fin c) (conn_pending c) = Inl (FrameTooLarge ?n)"
    using u gt by (simp add: decode_frame_def Let_def) (simp add: assms(5))
  moreover have "payload \<noteq> []" using assms(1) by auto
  ultimately show ?thesis
    using conn_in.ReadFrame_decodes [OF assms(4)] assms(3)
    by (auto simp: WriteFrame_def connWrite_def frame_bytes_def Let_def)
qed

theorem oversized_frame_is_written_not_read_witness:
  "\<exists>c'. ReadFrame connRead (exConn [frame_bytes 3 (replicate (2 ^ 20 + 1) 0)]) =
     Some (Inl (FrameTooLarge (word_of_nat (2 ^ 20 + 1))), c')"
  using oversized_frame_is_written_not_read
    [of "replicate (2 ^ 20 + 1) 0" "exConn []" "exConn [frame_bytes 3 (replicate (2 ^ 20 + 1) 0)]" 3 "[]"]
  by (simp add: exConn_def conn_ok_def conn_pending_def del: replicate.simps power.simps) (simp add: frame_bytes_def)

text \<open>
  C23: a registration request survives the way to the server. What \<^verbatim>\<open>WriteMessage\<close>
  has written is read by \<^verbatim>\<open>ReadFrame\<close>, however it is chunked, and decoded to the same message with its
  strings made valid UTF-8, as long as the strings of the configuration are within a bound that
  keeps the frame below \<^verbatim>\<open>MaxFrameSize\<close>.
\<close>

theorem message_roundtrip:
  assumes "WriteMessage (\<lambda>m. Inr (encNewProxy m)) connWrite w TypeNewProxy m = (None, w')" "c_out w = []"
    and "in_int64 (np_RemotePort m)" "in_int64 (np_ReqID m)"
    and "6 * (length (np_Name m) + length (np_Type m) + length (np_Local m) + length (np_Subdomain m)) +
      (\<Sum>d \<leftarrow> np_CustomDomains m. 6 * length d + 3) + 400 \<le> 2 ^ 20"
    and "conn_ok c" "conn_pending c = c_out w' @ more_bytes"
  shows "\<exists>payload c'. ReadFrame connRead c = Some (Inr (TypeNewProxy, payload), c') \<and>
    goNewProxy payload = Some (sentNewProxy m) \<and> conn_pending c' = more_bytes"
proof -
  have "length (encNewProxy m) \<le> 2 ^ 20" by (rule order_trans [OF newProxy_length assms(5)]) (rule assms)+
  from cNewProxy.WriteMessage_ReadFrame [OF assms(1) _ this assms(6), of more_bytes] assms(2-4,7) show ?thesis
    by auto
qed

theorem message_roundtrip_witness:
  "\<exists>payload c'. ReadFrame connRead (exConn [[3], drop 1 (frame_bytes 3 (encNewProxy exNP))]) =
     Some (Inr (3, payload), c') \<and> goNewProxy payload = Some exNP"
proof -
  let ?w = "(exConn [])\<lparr>c_out := frame_bytes 3 (encNewProxy exNP)\<rparr>"
  have "encNewProxy exNP \<noteq> []" by (simp add: encNewProxy_def marshal_def)
  then have "WriteMessage (\<lambda>m. Inr (encNewProxy m)) connWrite (exConn []) TypeNewProxy exNP = (None, ?w)"
    by (simp add: WriteMessage_def WriteFrame_def connWrite_def exConn_def frame_bytes_def TypeNewProxy_def Let_def)
  then have "\<exists>payload c'. ReadFrame connRead (exConn [[3], drop 1 (frame_bytes 3 (encNewProxy exNP))]) =
      Some (Inr (TypeNewProxy, payload), c') \<and> goNewProxy payload = Some (sentNewProxy exNP) \<and> conn_pending c' = []"
    by (rule message_roundtrip)
      (simp_all add: exConn_def conn_ok_def conn_pending_def exNP_def in_int64_def frame_bytes_def PutUint32_def)
  then show ?thesis unfolding ex_messages(4) by (auto simp: TypeNewProxy_def)
qed

text \<open>
  C14: in every state of \<^verbatim>\<open>Join\<close>, whatever the interleaving of the two
  directions and of the closes, what one end has been sent is a prefix of what the other end had to
  say, and the callbacks have counted exactly these bytes.
\<close>

theorem join_relays_prefixes:
  assumes "conn_ok a" "conn_ok b" "run join_step (join_start a b) ls j"
  shows "c_out (jn_b j) = c_out b @ take (sum_list (jn_onA2B j)) (conn_pending a) \<and>
    c_out (jn_a j) = c_out a @ take (sum_list (jn_onB2A j)) (conn_pending b) \<and>
    sum_list (jn_onA2B j) \<le> length (conn_pending a) \<and>
    sum_list (jn_onB2A j) \<le> length (conn_pending b)"
proof -
  have "join_inv a b (join_start a b)" using assms(1,2) joining.inv_init by blast
  then have "join_inv a b j" by (rule joining.run_inv [OF assms(3)])
  then show ?thesis by (simp add: join_inv_def relayed_def)
qed

definition exJoined :: join where
  "exJoined = (join_start (exConn [[1, 2]]) (exConn []))
     \<lparr>jn_a := exConn [], jn_b := (exConn [])\<lparr>c_out := [1, 2]\<rparr>, jn_onA2B := [2]\<rparr>"

lemma exJoined_run: "run join_step (join_start (exConn [[1, 2]]) (exConn [])) [OpAB, OpAB] exJoined"
proof -
  let ?s = "join_start (exConn [[1, 2]]) (exConn [])"
  let ?m = "?s\<lparr>jn_a := exConn [], jn_ab := LoopWrite [1, 2] None\<rparr>"
  have "join_step ?s OpAB ?m"
    using op_ab [of ?s "LoopWrite [1, 2] None" "exConn []" "exConn []" "[]"]
    by (simp add: blockedAB_def blocked_def join_start_def copyOp_def joinRead_def connRead_def exConn_def bufSize_def)
  moreover have "join_step ?m OpAB exJoined"
    using op_ab [of ?m LoopRead "exConn []" "(exConn [])\<lparr>c_out := [1, 2]\<rparr>" "[2]"]
    by (simp add: blockedAB_def blocked_def join_start_def copyOp_def joinWrite_def connWrite_def exConn_def exJoined_def)
  ultimately show ?thesis by (blast intro: run_nil run_cons)
qed

theorem join_relays_prefixes_witness:
  "c_out (jn_b exJoined) = [] @ take 2 [1, 2] \<and> sum_list (jn_onA2B exJoined) \<le> 2"
  using join_relays_prefixes [OF _ _ exJoined_run]
  by (simp add: exConn_def conn_ok_def conn_pending_def exJoined_def)

text \<open>
  C32: \<^verbatim>\<open>Join\<close> ends. No execution is longer than a bound given by the bytes to
  relay. A read waits until its peer sends or ends, and a write while its peer takes nothing; still
  \<^verbatim>\<open>Join\<close> comes to a halt only when it is done, or while both directions wait and neither
  connection has been closed. So it goes on to its end once a direction has finished, since this
  closes both connections, and also once one peer has ended and the other still reads. At the end both
  connections are closed.
\<close>

theorem join_terminates:
  assumes "conn_ok a" "conn_ok b" "run join_step (join_start a b) ls j"
  shows "length ls \<le> 2 * length (conn_pending a) + 2 * length (conn_pending b) + 8 \<and>
    (join_done j \<longrightarrow> jn_closed j) \<and>
    (\<not> join_moves j \<longrightarrow> join_done j \<or> (blockedAB j \<and> blockedBA j)) \<and>
    (jn_ab j = LoopDone \<or> jn_ba j = LoopDone \<or>
       (jn_endA j \<and> \<not> jn_stallB j) \<or> (jn_endB j \<and> \<not> jn_stallA j) \<longrightarrow> join_done j \<or> join_moves j)"
proof -
  have i: "join_inv a b (join_start a b)" using assms(1,2) joining.inv_init by blast
  then have j: "join_inv a b j" by (rule joining.run_inv [OF assms(3)])
  moreover have "length ls \<le> 2 * length (conn_pending a) + 2 * length (conn_pending b) + 8"
    using join_run_bounded [OF assms(3) i] by (simp add: join_measure_def join_start_def loop_rank_def)
  moreover have "\<not> blockedAB j" if "jn_endA j \<and> \<not> jn_stallB j \<or> jn_closed j"
    using that by (auto simp: blockedAB_def blocked_def split: loop.split)
  moreover have "\<not> blockedBA j" if "jn_endB j \<and> \<not> jn_stallA j \<or> jn_closed j"
    using that by (auto simp: blockedBA_def blocked_def split: loop.split)
  ultimately show ?thesis using join_stuck [OF j] by (auto simp: join_inv_def join_done_def)
qed

text \<open>The peer of \<open>b\<close> hangs up while that of \<open>a\<close> stays silent: the other direction is not left waiting.\<close>

definition exHalf :: join where
  "exHalf = (join_start (exConn []) (exConn []))\<lparr>jn_endB := True, jn_ba := LoopDone, jn_closed := True\<rparr>"

theorem join_terminates_witness:
  "run join_step (join_start (exConn []) (exConn [])) [EndB, OpBA, CloseBA] exHalf \<and>
     jn_ab exHalf = LoopRead \<and> \<not> jn_endA exHalf \<and> join_moves exHalf"
proof -
  let ?s = "join_start (exConn []) (exConn [])"
  let ?a = "?s\<lparr>jn_endB := True\<rparr>" and ?b = "?s\<lparr>jn_endB := True, jn_ba := LoopClose\<rparr>"
  have "join_step ?s EndB ?a" by (rule end_b) (simp add: join_start_def)
  moreover have "join_step ?a OpBA ?b"
    using op_ba [of ?a LoopClose "exConn []" "exConn []" "[]"]
    by (simp add: blockedBA_def blocked_def join_start_def copyOp_def joinRead_def connRead_def exConn_def)
  moreover have "join_step ?b CloseBA exHalf"
    using close_ba [of ?b] by (simp add: exHalf_def join_start_def)
  ultimately have r: "run join_step ?s [EndB, OpBA, CloseBA] exHalf"
    by (blast intro: run_nil run_cons)
  from join_terminates [OF _ _ r] r show ?thesis
    by (simp add: exConn_def conn_ok_def exHalf_def join_start_def join_done_def)
qed

section \<open>Configuration\<close>

text \<open>
  Every white list written in the configuration syntax is parsed back to
  itself.
\<close>

theorem port_ranges_roundtrip:
  assumes "rs \<noteq> []" "\<forall>r \<in> set rs. valid_range r"
  shows "ParsePortRanges (showRanges rs) = Inr rs"
  using parseParts_showRanges [OF assms(2,1), of "[]"] by (simp add: ParsePortRanges_def)

theorem port_ranges_roundtrip_witness:
  "ParsePortRanges (showRanges [\<lparr>pr_Min = 80, pr_Max = 80\<rparr>, \<lparr>pr_Min = 20000, pr_Max = 30000\<rparr>]) =
     Inr [\<lparr>pr_Min = 80, pr_Max = 80\<rparr>, \<lparr>pr_Min = 20000, pr_Max = 30000\<rparr>]"
  by (rule port_ranges_roundtrip) (simp_all add: valid_range_def)

text \<open>
  Each loader returns the decoded file over the defaults,
  exactly when it meets every documented condition, for every YAML decoder and file; the proxies of
  an accepted client file have distinct names, so that the client's map contains every one of them.
\<close>

theorem loaded_configurations_are_checked:
  "(LoadServer readFile yamlS path = Inr s \<longleftrightarrow>
      loadYAML readFile yamlS path defaultServer = Inr s \<and> server_cfg_ok s) \<and>
   (LoadClient readFile yamlC path = Inr c \<longleftrightarrow>
      loadYAML readFile yamlC path defaultClient = Inr c \<and> client_cfg_ok c) \<and>
   (LoadClient readFile yamlC path = Inr c \<longrightarrow>
      (buildProxyMap (cc_Proxies c) Map.empty n = Some p \<longleftrightarrow> p \<in> set (cc_Proxies c) \<and> pc_Name p = n))"
  using LoadServer_Inr_iff [of readFile yamlS path s] LoadClient_Inr_iff [of readFile yamlC path c]
    buildProxyMap_distinct [of "cc_Proxies c" n p]
  by (auto simp: client_cfg_ok_def)

lemma exCC_loads: "LoadClient (\<lambda>_. Inr []) (\<lambda>_ _. Inr exCC) [] = Inr exCC"
  by (simp add: LoadClient_def loadYAML_def exCC_def defaultClient_def exP_def Second_def)
    (use ex_local(1) in auto)

theorem loaded_configurations_are_checked_witness:
  "buildProxyMap (cc_Proxies exCC) Map.empty ''ssh'' = Some exP"
proof -
  have "exP \<in> set (cc_Proxies exCC)" "pc_Name exP = ''ssh''" by (simp_all add: exCC_def exP_def)
  with loaded_configurations_are_checked [of "\<lambda>_. Inr []" "\<lambda>_ _. Inl []" "[]" defaultServer
      "\<lambda>_ _. Inr exCC" exCC "''ssh''" exP] exCC_loads
  show ?thesis by blast
qed

text \<open>
  C29: a duration written to YAML by its hook is read back exactly, for every
  \<^verbatim>\<open>int64\<close> of nanoseconds, when floating point is exact on integers up to 2^53.
\<close>

theorem duration_roundtrip:
  assumes "exact53 fl" "in_int64 d"
  shows "DurationUnmarshalYAML fl (Inr (DurationMarshalYAML d)) old = (None, d)"
  by (simp add: DurationUnmarshalYAML_def DurationMarshalYAML_def ParseDuration_String [OF assms])

theorem duration_roundtrip_witness:
  "DurationUnmarshalYAML id (Inr (DurationMarshalYAML (- (2 ^ 63)))) 0 = (None, - (2 ^ 63))"
  by (rule duration_roundtrip) (simp_all add: exact53_def in_int64_def)

section \<open>Login\<close>

text \<open>
  C30: for every timestamp of 64 bits and every clock between 1970 and 2262 the
  server accepts exactly the signature of the client and time under its token, within five minutes.
\<close>

theorem login_accepted_iff:
  assumes "in_int64 ts" "0 \<le> now" "now < 2 ^ 63"
  shows "VerifyLogin token clientID ts want (5 * Minute) now \<longleftrightarrow>
    want = HmacLogin token clientID ts \<and> \<bar>now - ts * Second\<bar> \<le> 5 * Minute"
  by (rule VerifyLogin_iff [OF assms]) (simp_all add: Minute_def Second_def)

theorem login_accepted_iff_witness:
  "VerifyLogin ''tok'' ''c'' 0 (HmacLogin ''tok'' ''c'' 0) (5 * Minute) (300 * Second) \<and>
   \<not> VerifyLogin ''tok'' ''c'' 0 (HmacLogin ''tok'' ''c'' 0) (5 * Minute) (301 * Second)"
  using login_accepted_iff [of 0 "300 * Second" "''tok''" "''c''" "HmacLogin ''tok'' ''c'' 0"]
    login_accepted_iff [of 0 "301 * Second" "''tok''" "''c''" "HmacLogin ''tok'' ''c'' 0"]
  by (simp add: in_int64_def Minute_def Second_def)

text \<open>
  C13: the login of a client that has the server's token, a name in valid
  UTF-8 and a clock within five minutes of the server's is decoded from its frame as it was sent, and
  accepted.
\<close>

theorem client_login_is_accepted:
  assumes "valid_utf8 (cc_ClientID cfg)" "cc_ClientID cfg \<noteq> []" "sc_Token (sv_cfg s) = cc_Token cfg"
    and "in_int64 ts" "0 \<le> now" "now < 2 ^ 63" "\<bar>now - ts * Second\<bar> \<le> 5 * Minute"
  shows "\<exists>lg. goLogin (encLogin (clientLogin cfg ts)) = Some lg \<and> lg_ClientID lg = cc_ClientID cfg \<and>
    loginVerdict s lg now = None"
proof -
  have "VerifyLogin (cc_Token cfg) (cc_ClientID cfg) ts (HmacLogin (cc_Token cfg) (cc_ClientID cfg) ts) (5 * Minute) now"
    using assms(4-7) by (subst VerifyLogin_iff) (simp_all add: Minute_def Second_def)
  with assms(2,3) show ?thesis
    by (simp add: decoded_clientLogin [OF assms(1,4)] loginVerdict_def) (simp add: clientLogin_def)
qed

theorem client_login_is_accepted_witness:
  "\<exists>lg. goLogin (encLogin (clientLogin exCC 60)) = Some lg \<and> loginVerdict (srv ex0) lg (100 * Second) = None"
proof -
  have "\<exists>lg. goLogin (encLogin (clientLogin exCC 60)) = Some lg \<and> lg_ClientID lg = cc_ClientID exCC \<and>
      loginVerdict (srv ex0) lg (100 * Second) = None"
    by (rule client_login_is_accepted)
      (simp_all add: exCC_def exCfg_def defaultClient_def defaultServer_def valid_ascii in_int64_def Second_def Minute_def)
  then show ?thesis by blast
qed

section \<open>The registry of the server\<close>

text \<open>
  C1: in every state the server can reach, under any interleaving of
  logins, replacements, registrations, removals, visitors and data streams, the name, port, host and
  listener tables are exactly the projections of one set of registered proxies, ports are
  white-listed and held by one proxy each, queues are within their capacity, and the session table
  lists open sessions under their own client.
\<close>

theorem server_registry_invariant:
  assumes "reachable (sys_start loadCert) (sstep J u) s"
  shows "reg_inv (srv s)"
  using server.reachable_inv [OF assms] by (simp add: sys_inv_def)

theorem server_registry_invariant_witness: "reg_inv (srv ex4)"
  by (rule server_registry_invariant [OF ex_reach4])

text \<open>
  C2: step by step, the tables refine an abstract lease table. It starts
  empty. A step of the server either ends the leases of a set of proxies, all the resources each of them
  held, and these proxies belong to the sessions that act in the step; or it is the handling of a frame
  by a session, and one new proxy of this session is granted its name, its port if it has one and
  its hosts, all of which were free. Nothing else changes a lease.
\<close>

theorem server_refines_lease_table:
  assumes "sys_start loadCert s0" "reachable (sys_start loadCert) (sstep J u) s" "sstep J u s l t"
  shows "lease (srv s0) = Map.empty \<and>
    ((\<exists>P. lease (srv t) = revoke (lease (srv s)) P \<and> (\<forall>p \<in> P. px_session (hp_proxy (srv s) p) \<in> acts s l)) \<or>
     (\<exists>p. registers l = Some (px_session (hp_proxy (srv t) p)) \<and> p \<notin> ran (lease (srv s)) \<and>
        (\<forall>r \<in> needs (hp_proxy (srv t) p). lease (srv s) r = None) \<and>
        lease (srv t) = grant (lease (srv s)) p (needs (hp_proxy (srv t) p))))"
proof -
  have inv: "sys_inv s" by (rule server.reachable_inv [OF assms(2)])
  then have "reg_inv (srv s)" "reg_inv (srv t)"
    using server.inv_step [OF inv assms(3)] by (simp_all add: sys_inv_def)
  from evolves_leases [OF this step_evolves [OF assms(3) inv]] lease_table.abs_init [OF assms(1)]
  show ?thesis by blast
qed

text \<open>The registration of the scenario grants its name and its port, and nothing else.\<close>

theorem server_refines_lease_table_witness:
  "lease (srv ex0) = Map.empty \<and> lease (srv ex3) = Map.empty \<and>
     lease (srv ex4) = grant Map.empty 0 (needs (hp_proxy (srv ex4) 0))"
proof -
  have e: "lease (srv ex3) = Map.empty"
  proof
    fix r show "lease (srv ex3) r = None"
      by (cases r) (simp_all add: ex_srv exServer_def emptyServer_def admitted_def sendMsg_def)
  qed
  have "lease (srv ex4) \<noteq> revoke Map.empty P" for P
  proof
    assume "lease (srv ex4) = revoke Map.empty P"
    with fun_cong [OF this, of "RPort 30000"] ex_lease4 show False by (simp only: revoke_def) simp
  qed
  with server_refines_lease_table [OF ex_start ex_reach3 ex_step4, unfolded e]
  obtain p where p: "lease (srv ex0) = Map.empty" "lease (srv ex4) = grant Map.empty p (needs (hp_proxy (srv ex4) p))"
    by blast
  from fun_cong [OF p(2), of "RPort 30000"] ex_lease4 have "p = 0"
    by (simp only: grant_def split: if_splits) simp_all
  with e p show ?thesis by simp
qed

text \<open>
  No step of a reachable server hands a name, port or host from one
  proxy to another: while it is held it stays with its holder or becomes free.
\<close>

theorem resource_keeps_its_holder:
  assumes "reachable (sys_start loadCert) (sstep J u) s" "sstep J u s l t" "lease (srv s) r = Some p"
  shows "lease (srv t) r = Some p \<or> lease (srv t) r = None"
proof -
  have inv: "sys_inv s" by (rule server.reachable_inv [OF assms(1)])
  with assms(2) have "lease_step (lease (srv s)) (lease (srv t))"
    by (meson evolves_lease step_evolves server.inv_step sys_inv_def)
  then show ?thesis using assms(3) by (rule lease_step_holder)
qed

theorem resource_keeps_its_holder_witness:
  "\<exists>t. exStep ex4 (LReply 0 True) t \<and>
     (lease (srv t) (RPort 30000) = Some 0 \<or> lease (srv t) (RPort 30000) = None)"
proof -
  have "pcs ex4 0 = Some (PcReply (SNewProxyResp (okResp exNP 30000)))" by (simp add: ex4_def)
  from sstep.reply [of ex4, OF this, of exJ "\<lambda>s. s" True] obtain t where t: "exStep ex4 (LReply 0 True) t" by blast
  from resource_keeps_its_holder [OF ex_reach4 t ex_lease4] t show ?thesis by blast
qed

text \<open>
  C18: two different open sessions of the same client, with living control
  goroutines, coexist only while the goroutine of a newer login is about to close one of them.
\<close>

theorem one_live_session_per_client:
  assumes "reachable (sys_start loadCert) (sstep J u) s" "i \<noteq> j"
    and "pcs s i = Some x" "x \<noteq> PcDone" "\<not> se_closed (hp_session (srv s) i)"
    and "pcs s j = Some y" "y \<noteq> PcDone" "\<not> se_closed (hp_session (srv s) j)"
    and "se_clientID (hp_session (srv s) i) = se_clientID (hp_session (srv s) j)"
  shows "\<exists>k. pcs s k = Some (PcKick i) \<or> pcs s k = Some (PcKick j)"
proof -
  have "replaced s" using replacement.both.reachable_inv [OF assms(1)] by simp
  from replacedD [OF this assms(3-5)] replacedD [OF this assms(6-8)] assms(2,9) show ?thesis by auto
qed

theorem one_live_session_per_client_witness:
  "\<exists>k. pcs ex4b k = Some (PcKick 0) \<or> pcs ex4b k = Some (PcKick 1)"
  using one_live_session_per_client [OF ex_reach4b, of 0 1 "PcFrame TypeNewProxy []" "PcKick 0"]
  by (simp add: ex_srv exServer_def emptyServer_def admitted_def sendMsg_def newSession_def)

text \<open>
  C20: as long as no frame of an already closed session is handled, no
  name, port or host belongs to a closed session.
\<close>

theorem closed_sessions_hold_nothing:
  assumes "reachable (sys_start loadCert) (timely_step J u) s" "lease (srv s) r = Some p"
  shows "\<not> se_closed (hp_session (srv s) (px_session (hp_proxy (srv s) p)))"
proof -
  from timely.both.reachable_inv [OF assms(1)] have "sys_inv s" "closed_holds_nothing s" by simp_all
  with assms(2) show ?thesis by (simp add: sys_inv_def lease_iff closed_holds_nothing_def)
qed

theorem closed_sessions_hold_nothing_witness:
  "\<not> se_closed (hp_session (srv ex4) (px_session (hp_proxy (srv ex4) 0)))"
  by (rule closed_sessions_hold_nothing [OF ex_timely4 ex_lease4])

text \<open>
  C7: without that assumption the server loses ports. When a session is closed
  between the read of its \<^verbatim>\<open>NewProxy\<close> frame and its handling, the registration succeeds,
  the session's own deferred \<^verbatim>\<open>Close\<close> is a no-op, and the proxy stays registered in every
  later state: nothing the server does ever frees its port.
\<close>

theorem late_registration_leaks:
  assumes "reachable (sys_start loadCert) (sstep J u) s"
    and "pcs s i = Some (PcFrame TypeNewProxy payload)" "se_closed (hp_session (srv s) i)"
    and "decNewProxy J payload = Some np" "registerProxy u (srv s) i np bind = (resp, s1)" "s1 \<noteq> srv s"
  shows "\<exists>t. run (sstep J u) s [LHandle i bind, LReply i False, LClose i []] t \<and>
    (\<forall>ls t'. run (sstep J u) t ls t' \<longrightarrow> registered (srv t') (nx_pid (srv s)))"
proof -
  have inv: "sys_inv s" by (rule server.reachable_inv [OF assms(1)])
  from late_registration [OF inv assms(2-6)] obtain t where
    t: "run (sstep J u) s [LHandle i bind, LReply i False, LClose i []] t" "orphan (nx_pid (srv s)) t" by blast
  have "registered (srv t') (nx_pid (srv s))" if "run (sstep J u) t ls t'" for ls t'
    using orphans.run_inv [OF that] server.run_inv [OF t(1) inv] t(2) by (simp add: orphan_def)
  with t(1) show ?thesis by blast
qed

theorem late_registration_leaks_witness:
  "\<exists>t. run exStep ex5b [LHandle 0 None, LReply 0 False, LClose 0 []] t \<and>
    registered (srv t) (nx_pid (srv ex5b)) \<and> se_closed (hp_session (srv ex5b) 0)"
proof -
  have c: "se_closed (hp_session (srv ex5b) 0)" by (simp add: ex5b_def CloseSession_view)
  have p: "pcs ex5b 0 = Some (PcFrame TypeNewProxy [])" by (simp add: ex5b_def ex4b_def ex3_def)
  obtain resp s1 where r: "registerProxy (\<lambda>s. s) (srv ex5b) 0 exNP None = (resp, s1)" "s1 \<noteq> srv ex5b"
    using ex_register5b by blast
  have "decNewProxy exJ [] = Some exNP" by (simp add: exJ_def)
  from late_registration_leaks [OF ex_reach5b p c this r] c show ?thesis by (blast intro: run_nil)
qed

text \<open>
  C8: a leaked proxy hides itself from the client it belongs to. When a later session of
  the client registers the same TCP proxy, the server answers that it is registered and changes nothing. The
  session does not own the proxy, so it can neither serve its visitors nor close it.
\<close>

theorem leaked_proxy_answers_its_client:
  assumes "reachable (sys_start loadCert) (sstep J u) s" "orphan p s" "\<not> se_closed (hp_session (srv s) j)"
    and "se_clientID (hp_session (srv s) j) = px_clientID (hp_proxy (srv s) p)"
    and "np_Name np = px_name (hp_proxy (srv s) p)" "np_Type np = ''tcp''"
    and "SplitHostPort (np_Local np) \<noteq> None" "sameConfig (hp_proxy (srv s) p) np"
  shows "registerProxy u (srv s) j np bind = (okResp np (np_RemotePort np), srv s) \<and>
    se_proxies (hp_session (srv s) j) (np_Name np) = None \<and> closeProxy (srv s) j (np_Name np) = srv s"
  using orphan_answers [OF server.reachable_inv [OF assms(1)] assms(2-8)] by simp

theorem leaked_proxy_answers_its_client_witness:
  "reachable exStart exStep exLeak \<and> orphan 0 exLeak \<and> \<not> se_closed (hp_session (srv exLeak) 1) \<and>
     registerProxy (\<lambda>s. s) (srv exLeak) 1 exNP None = (okResp exNP 30000, srv exLeak)"
proof -
  have "SplitHostPort (np_Local exNP) \<noteq> None" using ex_local(1) by (simp add: exNP_fields)
  from leaked_proxy_answers_its_client [OF ex_reach_leak ex_leak(7,2) _ _ exNP_fields(1) this ex_leak(6)]
  show ?thesis using ex_leak ex_reach_leak by (simp add: exNP_fields)
qed

text \<open>
  C16: a refused registration changes nothing. An accepted one either changes
  nothing, because the proxy is there already, or grants a lease on resources that were all free:
  the port, white-listed and as requested, or the hosts.
\<close>

theorem registration_outcome:
  assumes "reg_inv s" "i < nx_sid s" "registerProxy u s i np bind = (resp, t)"
  shows "(\<not> nr_OK resp \<longrightarrow> t = s) \<and>
    (t \<noteq> s \<longrightarrow> nr_OK resp \<and> registered t (nx_pid s) \<and> px_session (hp_proxy t (nx_pid s)) = i \<and>
       lease t = grant (lease s) (nx_pid s) (needs (hp_proxy t (nx_pid s))) \<and>
       (\<forall>r \<in> needs (hp_proxy t (nx_pid s)). lease s r = None) \<and>
       (nr_RemotePort resp \<noteq> 0 \<longrightarrow> portAllowed s (nr_RemotePort resp) \<and>
          RPort (nr_RemotePort resp) \<in> needs (hp_proxy t (nx_pid s))))"
proof -
  have new: "installable s Q \<Longrightarrow> registered (installProxy s Q) (nx_pid s) \<and>
      hp_proxy (installProxy s Q) (nx_pid s) = Q" for Q
    using assms(1) by (simp add: install_registered reg_inv_def installable_def reg_simps)
  show ?thesis
  proof (cases "t = s")
    case False
    from assms(3) False show ?thesis
    proof (cases rule: registerProxy_cases [OF assms(1,2), consumes 1, case_names same tcp http])
      case tcp
      with new [OF tcp(2)] install_lease [OF assms(1) tcp(2)] show ?thesis
        by (simp add: okResp_def) (auto simp: installable_def tcpProxy_def needs_def)
    next
      case http
      with new [OF http(2)] install_lease [OF assms(1) http(2)] show ?thesis
        by (simp add: okResp_def) (auto simp: httpProxy_def)
    qed simp
  qed simp
qed

theorem registration_outcome_witness:
  "nr_OK (okResp exNP 30000) \<and> portAllowed (srv ex3) 30000 \<and>
     lease (srv ex4) = grant (lease (srv ex3)) 0 (needs (hp_proxy (srv ex4) 0))"
proof -
  have i: "0 < nx_sid (srv ex3)" by (simp add: ex_alloc)
  have n: "installProxy (srv ex3) (newTCP (srv ex3) 0 exNP) \<noteq> srv ex3"
    using installProxy_fields(7) [of "srv ex3" "newTCP (srv ex3) 0 exNP"] by auto
  from registration_outcome [OF server_inv3 i ex_register] n ex_alloc show ?thesis
    by (simp add: ex4_def okResp_def)
qed

text \<open>
  The dynamic pool answers a free white-listed port whenever there
  is one, and \<^verbatim>\<open>PORT_POOL_FULL\<close> only when every white-listed port is taken.
\<close>

theorem pool_full_iff_every_port_taken:
  assumes "reg_inv s"
  shows "(allocPortLocked s = 0 \<longleftrightarrow> (\<forall>port. portAllowed s port \<longrightarrow> sv_byPort s port \<noteq> None)) \<and>
    (allocPortLocked s \<noteq> 0 \<longrightarrow> portAllowed s (allocPortLocked s) \<and> sv_byPort s (allocPortLocked s) = None)"
  using allocRanges_cases [of "sv_ranges s" "sv_byPort s"] assms
  by (auto simp: reg_inv_def inv_ranges_def allocPortLocked_def portAllowed_def)

theorem pool_full_iff_every_port_taken_witness:
  "allocPortLocked (srv ex4) \<noteq> 0 \<and> portAllowed (srv ex4) (allocPortLocked (srv ex4))"
proof -
  have "portAllowed (srv ex4) 30001 \<and> sv_byPort (srv ex4) 30001 = None"
    using ex_alloc by (simp add: ex4_def installProxy_def tcpProxy_def Let_def portAllowed_def)
      (simp add: ex_srv exServer_def emptyServer_def admitted_def sendMsg_def exRanges_def Contains_def)
  then show ?thesis using pool_full_iff_every_port_taken [OF server_inv4] by metis
qed

text \<open>
  C39: repeating a successful TCP registration changes nothing; it is answered
  with success and the same port when the port was asked for by number, and refused with
  \<^verbatim>\<open>NAME_EXISTS\<close> when it came from the pool, because the request's 0 is compared with the
  allocated port. The comment at the function promises idempotence in both cases.
\<close>

theorem repeated_registration:
  assumes "reg_inv s" "i < nx_sid s" "np_Type np = ''tcp''"
    and "registerProxy u s i np bind = (resp, t)" "t \<noteq> s"
  shows "registerProxy u t i np bind' =
    (if np_RemotePort np \<noteq> 0 then (okResp np (np_RemotePort np), t) else (errResp np NAME_EXISTS, t))"
  using registered_twice [OF assms] registered_wanted [OF assms]
  by (auto simp: wantedPort_def tcpProxy_def sameConfig_def assms(3))

theorem repeated_registration_witness:
  "registerProxy (\<lambda>s. s) (srv ex4) 0 exNP (Some ''in use'') = (okResp exNP 30000, srv ex4) \<and>
   registerProxy (\<lambda>s. s) (srv ex4d) 0 exDyn None = (errResp exDyn NAME_EXISTS, srv ex4d)"
proof -
  have i: "0 < nx_sid (srv ex3)" by (simp add: ex_alloc)
  have n: "installProxy (srv ex3) P \<noteq> srv ex3" for P
    using installProxy_fields(7) [of "srv ex3" P] by auto
  have ty: "np_Type exNP = ''tcp''" "np_Type exDyn = ''tcp''" "np_RemotePort exNP = 30000"
    "np_RemotePort exDyn = 0"
    by (simp_all add: exDyn_def exNP_def)
  from repeated_registration [OF server_inv3 i ty(1) ex_register n, of "Some ''in use''"]
    repeated_registration [OF server_inv3 i ty(2) ex_registerD n, of None]
  show ?thesis by (simp add: ex4_def ex4d_def ty)
qed

text \<open>
  C19: closing an open session frees exactly the names, ports and
  hosts of its proxies, closes its connection and the visitors that wait for it, removes its own
  entry of the session table, and leaves every other entry, that of a newer session of the client included.
\<close>

theorem close_releases_exactly_its_proxies:
  assumes "reg_inv s" "\<not> se_closed (hp_session s i)" "covers ord s i"
  shows "lease (CloseSession ord s i) =
      revoke (lease s) {p. registered s p \<and> px_session (hp_proxy s p) = i} \<and>
    os_closed (CloseSession ord s i) = insert (se_conn (hp_session s i)) (os_closed s \<union>
      (\<Union>p \<in> {p. registered s p \<and> px_session (hp_proxy s p) = i}. set (px_visitors (hp_proxy s p)))) \<and>
    se_closed (hp_session (CloseSession ord s i) i) \<and>
    sv_sessions (CloseSession ord s i) c = (if sv_sessions s c = Some i then None else sv_sessions s c)"
proof -
  have "iterates ord s i" using assms(3) by (simp add: iterates_def)
  from CloseSession_shrinks [OF assms(1) this] assms(2)
  have "shrinks {p. registered s p \<and> px_session (hp_proxy s p) = i} s (CloseSession ord s i)" by simp
  from shrinks_lease [OF assms(1) CloseSession_inv [OF assms(1)] this]
  have "lease (CloseSession ord s i) = revoke (lease s) {p. registered s p \<and> px_session (hp_proxy s p) = i}" .
  moreover have "sv_sessions s c = Some i \<Longrightarrow> c = se_clientID (hp_session s i)"
    using assms(1) by (simp add: reg_inv_def inv_sessions_def)
  ultimately show ?thesis using CloseSession_releases(3-5) [OF assms] by auto
qed

theorem close_releases_exactly_its_proxies_witness:
  "lease (CloseSession [''ssh''] (srv ex4) 0) (RPort 30000) = None \<and> sv_sessions (srv ex4) ''c'' = Some 0 \<and>
     sv_sessions (CloseSession [''ssh''] (srv ex4) 0) ''c'' = None"
proof -
  have r: "reg_inv (srv ex4)" by (rule server_inv4)
  have o: "\<not> se_closed (hp_session (srv ex4) 0)"
    by (simp add: ex_srv exServer_def emptyServer_def admitted_def sendMsg_def newSession_def installProxy_def
        tcpProxy_def Let_def)
  have c: "covers [''ssh''] (srv ex4) 0"
    by (simp add: covers_def ex_srv exServer_def emptyServer_def admitted_def sendMsg_def newSession_def
        installProxy_def tcpProxy_def Let_def exNP_def)
  have e: "sv_sessions (srv ex4) ''c'' = Some 0"
    by (simp add: ex4_def reg_simps) (simp add: ex_srv exServer_def emptyServer_def admitted_def sendMsg_def exLogin_def)
  from close_releases_exactly_its_proxies [OF r o c, of "''c''"] ex_lease4 ex_owner4 e show ?thesis
    by (simp add: revoke_def)
qed

text \<open>
  The iteration order of Go's map over a session's proxies, which the
  language leaves open, does not matter.
\<close>

theorem drop_session_order_irrelevant:
  assumes "reg_inv s" "covers ord s i" "covers ord' s i"
  shows "dropSession ord s i = dropSession ord' s i"
  by (rule dropSession_order [OF assms])

theorem drop_session_order_irrelevant_witness:
  "dropSession [''ssh'', ''web''] (srv ex4) 0 = dropSession [''web'', ''ssh''] (srv ex4) 0"
  by (rule drop_session_order_irrelevant [OF server_inv4])
    (simp_all add: covers_def ex_srv exServer_def emptyServer_def admitted_def sendMsg_def newSession_def
      installProxy_def tcpProxy_def Let_def exNP_def)

text \<open>
  C12: a successful login is authenticated, enters the table as the session
  of its client, has closed the session it replaces and freed exactly that session's proxies, and is
  the first message on the new control stream.
\<close>

theorem login_replaces_old_session:
  assumes "reg_inv s" "login s conn lg ra now ok ord = (Some i, t)"
    and "\<And>j. sv_sessions s (lg_ClientID lg) = Some j \<Longrightarrow> covers ord s j"
  shows "lg_ClientID lg \<noteq> [] \<and>
    VerifyLogin (sc_Token (sv_cfg s)) (lg_ClientID lg) (lg_Ts lg) (lg_Hmac lg) (5 * Minute) now \<and>
    sv_sessions t = (sv_sessions s)(lg_ClientID lg \<mapsto> i) \<and>
    (registered t p \<longleftrightarrow> registered s p \<and> sv_sessions s (lg_ClientID lg) \<noteq> Some (px_session (hp_proxy s p))) \<and>
    (sv_sessions s (lg_ClientID lg) = Some j \<longrightarrow>
       se_closed (hp_session t j) \<and> se_conn (hp_session s j) \<in> os_closed t) \<and>
    se_sent (hp_session t i) = [loginOK now]"
  using login_success [OF assms] by blast

theorem login_replaces_old_session_witness:
  "\<exists>t. login (srv ex3) 2 exLogin ''h'' 0 True [] = (Some 1, t) \<and>
     sv_sessions t = (sv_sessions (srv ex3))(''c'' \<mapsto> 1) \<and> se_closed (hp_session t 0)"
proof -
  have s0: "sv_sessions (srv ex3) ''c'' = Some 0" "se_proxies (hp_session (srv ex3) 0) = Map.empty"
    by (simp_all add: ex_srv exServer_def emptyServer_def admitted_def sendMsg_def newSession_def exLogin_def)
  have c: "lg_ClientID exLogin = ''c''" by (simp add: exLogin_def)
  obtain t where t: "login (srv ex3) 2 exLogin ''h'' 0 True [] = (Some 1, t)"
    by (auto simp: login_split ex_verdict Let_def ex_alloc)
  from login_replaces_old_session [OF server_inv3 t, of 0 0] s0 t c show ?thesis
    by (simp add: covers_def)
qed

section \<open>Visitors\<close>

text \<open>
  Over any sequence of deliveries and pick-ups, the queue of a proxy hands
  out exactly the accepted visitors, in their order, and never holds more than 32.
\<close>

theorem visitors_served_in_order:
  assumes "length (px_visitors P) \<le> visitorCap"
    and "chan_run visitorSend visitorRecv ops (px_visitors P, [], P) = (accepted, served, P')"
  shows "accepted = served @ px_visitors P' \<and> length (px_visitors P') \<le> visitorCap"
  by (rule visitors.chan_fifo [OF assms(2) _ assms(1)]) simp

theorem visitors_served_in_order_witness:
  "chan_run visitorSend visitorRecv [Send 7, Send 8, Recv] ([], [], nilProxy) =
     ([7, 8], [7], nilProxy\<lparr>px_visitors := [8]\<rparr>) \<and> [7, 8] = [7] @ [8 :: cid]"
proof -
  have r: "chan_run visitorSend visitorRecv [Send 7, Send 8, Recv]
      (px_visitors nilProxy, [], nilProxy) = ([7, 8], [7], nilProxy\<lparr>px_visitors := [8]\<rparr>)"
    by (simp add: visitorSend_def visitorRecv_def visitorCap_def nilProxy_def)
  have l: "length (px_visitors nilProxy) \<le> visitorCap" by (simp add: nilProxy_def)
  have "[7, 8] = [7] @ px_visitors (nilProxy\<lparr>px_visitors := [8]\<rparr>)"
    using visitors_served_in_order [OF l r] by blast
  moreover have "px_visitors nilProxy = []" by (simp add: nilProxy_def)
  ultimately show ?thesis using r by simp
qed

text \<open>
  A delivered visitor is the last of the queue and its client has
  been sent one notification for it; a refused one is closed, whether the queue was full or the
  notification failed, and no proxy is registered or removed.
\<close>

theorem visitor_delivered_or_closed:
  "(fst (deliverVisitor s p c ok) \<longrightarrow>
      px_visitors (hp_proxy (snd (deliverVisitor s p c ok)) p) = px_visitors (hp_proxy s p) @ [c] \<and>
      se_sent (hp_session (snd (deliverVisitor s p c ok)) (px_session (hp_proxy s p))) =
        se_sent (hp_session s (px_session (hp_proxy s p))) @
          [SStartWorkConn \<lparr>sw_ProxyName = px_name (hp_proxy s p)\<rparr>]) \<and>
   (\<not> fst (deliverVisitor s p c ok) \<longrightarrow> c \<in> os_closed (snd (deliverVisitor s p c ok))) \<and>
   (registered (snd (deliverVisitor s p c ok)) q \<longleftrightarrow> registered s q)"
proof -
  have "registered (snd (deliverVisitor s p c ok)) q \<longleftrightarrow> registered s q"
    using deliverVisitor_frame(1) [of s p c ok] by (cases "deliverVisitor s p c ok") simp
  moreover have "fst (deliverVisitor s p c ok) \<longrightarrow>
      px_visitors (hp_proxy (snd (deliverVisitor s p c ok)) p) = px_visitors (hp_proxy s p) @ [c] \<and>
      se_sent (hp_session (snd (deliverVisitor s p c ok)) (px_session (hp_proxy s p))) =
        se_sent (hp_session s (px_session (hp_proxy s p))) @
          [SStartWorkConn \<lparr>sw_ProxyName = px_name (hp_proxy s p)\<rparr>]"
    by (cases ok) (simp_all add: deliverVisitor_def visitorSend_def sendMsg_def)
  moreover have "\<not> fst (deliverVisitor s p c ok) \<longrightarrow> c \<in> os_closed (snd (deliverVisitor s p c ok))"
    by (cases ok) (simp_all add: deliverVisitor_def visitorSend_def sendMsg_def notifyFailed_def)
  ultimately show ?thesis by blast
qed

theorem visitor_delivered_or_closed_witness:
  "px_visitors (hp_proxy (snd (deliverVisitor (srv ex4) 0 5 True)) 0) = [5] \<and>
     5 \<in> os_closed (snd (deliverVisitor (srv ex4) 0 5 False))"
proof -
  have v: "px_visitors (hp_proxy (srv ex4) 0) = []"
    by (simp add: ex4_def reg_simps ex_alloc tcpProxy_def)
  have "fst (deliverVisitor (srv ex4) 0 5 True)" "\<not> fst (deliverVisitor (srv ex4) 0 5 False)"
    using v by (simp_all add: deliverVisitor_def visitorSend_def visitorCap_def sendMsg_def)
  with visitor_delivered_or_closed [of "srv ex4" 0 5 True] visitor_delivered_or_closed [of "srv ex4" 0 5 False] v
  show ?thesis by simp
qed

text \<open>
  When the notification fails while another visitor
  waits, the code takes back and closes that one, the head of the queue, and leaves the refused
  visitor in the queue although its connection is closed.
\<close>

theorem failed_notification_drops_wrong_visitor:
  assumes "px_visitors (hp_proxy s p) = v # vs" "length vs + 1 < visitorCap"
  shows "px_visitors (hp_proxy (snd (deliverVisitor s p c False)) p) = vs @ [c] \<and>
    {v, c} \<subseteq> os_closed (snd (deliverVisitor s p c False))"
  using deliverVisitor_failed [of s p c] assms by simp

theorem failed_notification_drops_wrong_visitor_witness:
  "px_visitors (hp_proxy (snd (deliverVisitor (snd (deliverVisitor (srv ex4) 0 5 True)) 0 6 False)) 0) = [6]"
proof -
  let ?s = "snd (deliverVisitor (srv ex4) 0 5 True)"
  have "px_visitors (hp_proxy (srv ex4) 0) = []" by (simp add: ex4_def reg_simps ex_alloc tcpProxy_def)
  then have "px_visitors (hp_proxy ?s 0) = [5]"
    using deliverVisitor_queued(2) [of "srv ex4" 0 5] by (simp add: visitorCap_def)
  then show ?thesis using failed_notification_drops_wrong_visitor [of ?s 0 5 "[]" 6] by (simp add: visitorCap_def)
qed

section \<open>Virtual hosts\<close>

text \<open>
  C9: a connection to the HTTP port that is delivered belongs to the
  proxy its \<^verbatim>\<open>Host\<close> names, and copying it to a stream that does not fail relays every byte
  the visitor sends, the head that was parsed included, and counts them all.
\<close>

theorem vhost_request_reaches_backend_intact:
  assumes "conn_ok r" "handleVhostConn u connRead s c r ok = Some (VhostDelivered p vc, t)"
    and "c_room dst = None"
  shows "(\<exists>host head. parseHead u (conn_pending r) = HeadHost host head \<and>
      sv_vhost s (routeKey u host) = Some p) \<and>
    (\<exists>cbs vc' dst'. copyLoop (vhostRead connRead) connWrite [] vc dst = Some (cbs, vc', dst') \<and>
      c_out dst' = c_out dst @ conn_pending r \<and> sum_list cbs = length (conn_pending r))"
proof -
  note d = handleVhostConn_delivered [OF assms(1,2)]
  have rel: "conns.reliable (\<lambda>w. c_room w = None)" by (simp add: conns.reliable_def connWrite_def)
  obtain cbs vc' dst' k where
    "copyLoop (vhostRead connRead) connWrite [] vc dst = Some (cbs, vc', dst')"
    "c_out dst' = c_out dst @ take k (conn_in.vhost_rest vc)" "sum_list cbs = sum_list [] + k"
    "conns.reliable (\<lambda>w. c_room w = None) \<and> c_room dst = None \<longrightarrow> k = length (conn_in.vhost_rest vc)"
    using vhost_relay.copyLoop_relays [OF d(2), of "[]" dst "\<lambda>w. c_room w = None"] by blast
  with rel assms(3) d(1,3) show ?thesis by auto
qed

theorem vhost_request_reaches_backend_intact_witness:
  "\<exists>p vc t. handleVhostConn (\<lambda>s. s) connRead exVhost 9 exRequest True = Some (VhostDelivered p vc, t) \<and>
    (\<exists>cbs vc' dst'. copyLoop (vhostRead connRead) connWrite [] vc (exConn []) = Some (cbs, vc', dst') \<and>
      c_out dst' = conn_pending exRequest)"
proof -
  obtain vc t where h: "handleVhostConn (\<lambda>s. s) connRead exVhost 9 exRequest True = Some (VhostDelivered 0 vc, t)"
    using exVhost_delivers by blast
  have "conn_ok exRequest" by (simp add: exRequest_def exConn_def conn_ok_def)
  from vhost_request_reaches_backend_intact [OF this h, of "exConn []"] h show ?thesis
    by (auto simp: exConn_def)
qed

text \<open>
  C34: \<^verbatim>\<open>handleVhostConn\<close> returns for every visitor that
  makes progress, and its outcome is a function of the bytes of the request head alone, not of how
  they arrive.
\<close>

theorem vhost_handling_is_function_of_bytes:
  assumes "conn_ok r"
  shows "\<exists>br. handleVhostConn u connRead s c r ok =
    Some (vhostOutcome u s c ok (parseHead u (conn_pending r)) br)"
  using handleVhostConn_outcome [OF assms] by blast

theorem vhost_handling_is_function_of_bytes_witness:
  "\<exists>br. handleVhostConn (\<lambda>s. s) connRead exVhost 9 (exConn [[10]]) True =
    Some (VhostReplied (vhostReply 400 ''Bad Request''), closeConn 9 exVhost)"
proof -
  have "parseHead (\<lambda>s. s) [10] = HeadBad"
    using cutLine_append [of "[]" "[]"] string_bytes [of "[CHR 0x0A]"]
    by (simp add: parseHead_def newline_def Fields_newline)
  with vhost_handling_is_function_of_bytes [of "exConn [[10]]" "\<lambda>s. s" exVhost 9 True] show ?thesis
    by (simp add: exConn_def conn_ok_def conn_pending_def vhostOutcome_def)
qed

text \<open>
  Once an HTTP proxy is registered with a custom domain written in
  ASCII, without surrounding white space, colon or trailing dot, a request that names the domain in
  any case and with any port is routed to that proxy.
\<close>

theorem registered_domain_is_routed:
  assumes "reg_inv s" "i < nx_sid s" "np_Type np = ''http''" "registerProxy u s i np bind = (resp, t)"
    and "t \<noteq> s" "d \<in> set (np_CustomDomains np)" "plain_domain d"
    and "plain_domain h" "map lower_ascii h = map lower_ascii d" "is_ascii port"
  shows "lookupVhost t (routeKey u h) = Some (nx_pid s) \<and>
    lookupVhost t (routeKey u (h @ CHR '':'' # port)) = Some (nx_pid s)"
  using registered_domain [OF assms(1-6)] route_plain [OF assms(7-10)] by (simp add: lookupVhost_def)

theorem registered_domain_is_routed_witness:
  "lookupVhost exVhost (routeKey (\<lambda>s. s) ''A.Com'') = Some 0 \<and>
     lookupVhost exVhost (routeKey (\<lambda>s. s) ''A.Com:80'') = Some 0"
proof -
  have i: "0 < nx_sid (srv ex3)" by (simp add: ex_alloc)
  have n: "exVhost \<noteq> srv ex3"
    using installProxy_fields(7) [of "srv ex3" "newHTTP (\<lambda>s. s) (srv ex3) 0 exWeb"]
    unfolding exVhost_new by auto
  have d: "plain_domain ''a.com''" "plain_domain ''A.Com''" "is_ascii ''80''"
    "map lower_ascii ''A.Com'' = map lower_ascii ''a.com''"
    by (simp_all add: plain_domain_def is_ascii_def visible_def) code_simp
  have w: "np_Type exWeb = ''http''" "''a.com'' \<in> set (np_CustomDomains exWeb)" by (simp_all add: exWeb_def)
  from registered_domain_is_routed [OF server_inv3 i w(1) ex_registerH n w(2) d(1,2,4,3)]
  show ?thesis by (simp add: ex_alloc)
qed

section \<open>The client\<close>

text \<open>
  C36: as long as the process is at most five minutes old, the n-th wait between two
  attempts is exactly \<open>min(max, base * 2^n)\<close>; it is never outside \<open>[base, max]\<close> afterwards. There
  is no jitter in it, because the random factor is converted to an integer number of nanoseconds
  before it is multiplied.
\<close>

theorem backoff_schedule:
  assumes "rounding fl" "client_cfg_ok cfg" "rc_Max (cc_Reconnect cfg) < 2 ^ 62"
    and "\<forall>it \<in> set its. drawn it"
  shows "set (fst (Run fl cfg its c)) \<subseteq> {rc_Base (cc_Reconnect cfg)..rc_Max (cc_Reconnect cfg)} \<and>
    ((\<forall>it \<in> set its. it_since it \<le> 5 * Minute) \<longrightarrow>
      (\<forall>n < length (fst (Run fl cfg its c)). fst (Run fl cfg its c) ! n =
         min (rc_Max (cc_Reconnect cfg)) (rc_Base (cc_Reconnect cfg) * 2 ^ n)))"
proof -
  let ?b = "rc_Base (cc_Reconnect cfg)" and ?m = "rc_Max (cc_Reconnect cfg)"
  from assms(2) have m: "0 < ?b" "?b \<le> ?m" by (simp_all add: client_cfg_ok_def)
  then have s: "?b = schedule_wait ?b ?m 0" by (simp add: schedule_wait_def)
  show ?thesis
    using runLoop_bounds [OF assms(1) m assms(3,4) order_refl m(2), of c]
      runLoop_young [OF assms(1) m assms(3) _ s, of its c] assms(4)
    by (simp add: Run_def Let_def schedule_wait_def)
qed

definition exIteration :: "int \<Rightarrow> Client iteration" where
  "exIteration d = \<lparr>it_cancelled = False, it_conn = (\<lambda>c. c), it_cancelledAfter = False, it_since = d,
     it_rand = 1 / 2, it_done = False\<rparr>"

lemma exCC_ok: "client_cfg_ok exCC" "rc_Base (cc_Reconnect exCC) = Second"
  "rc_Max (cc_Reconnect exCC) = 60 * Second" "rounding (\<lambda>x. x)" "drawn (exIteration d)"
  using exCC_loads
  by (simp_all add: LoadClient_Inr_iff rounding_def drawn_def exIteration_def)
    (simp_all add: exCC_def defaultClient_def)

lemma exIteration_since: "it_since (exIteration d) = d"
  by (simp add: exIteration_def)

theorem backoff_schedule_witness:
  "fst (Run (\<lambda>x. x) exCC (map exIteration [0, 1, 2]) (NewClient exCC)) ! 2 = 4 * Second"
proof -
  have "length (fst (Run (\<lambda>x. x) exCC (map exIteration [0, 1, 2]) (NewClient exCC))) = 3"
    by (simp add: Run_def exIteration_def Let_def Minute_def Second_def split: prod.splits)
  with backoff_schedule [OF exCC_ok(4,1), of "map exIteration [0, 1, 2]" "NewClient exCC"] exCC_ok(5)
  show ?thesis by (simp add: exCC_ok exIteration_def Minute_def Second_def)
qed

text \<open>
  Once the process is older than five minutes, every wait is
  the base, however often the connection has failed: the moment that is compared is the start of
  \<^verbatim>\<open>Run\<close>, not the last stable connection, so the exponential backoff is gone for good.
\<close>

theorem backoff_is_lost_after_five_minutes:
  assumes "rounding fl" "client_cfg_ok cfg" "rc_Base (cc_Reconnect cfg) < 2 ^ 62"
    and "\<forall>it \<in> set its. drawn it \<and> 5 * Minute < it_since it"
  shows "set (fst (Run fl cfg its c)) \<subseteq> {rc_Base (cc_Reconnect cfg)}"
  using runLoop_old [OF assms(1) _ assms(3,4)] assms(2)
  by (simp add: Run_def Let_def client_cfg_ok_def)

theorem backoff_is_lost_after_five_minutes_witness:
  "set (fst (Run (\<lambda>x. x) exCC (replicate 100 (exIteration (6 * Minute))) (NewClient exCC))) \<subseteq> {Second}"
proof -
  have "\<forall>it \<in> set (replicate 100 (exIteration (6 * Minute))). drawn it \<and> 5 * Minute < it_since it"
    using exCC_ok(5) by (auto simp: exIteration_since Minute_def Second_def)
  from backoff_is_lost_after_five_minutes [OF exCC_ok(4,1) _ this, of "NewClient exCC"]
  show ?thesis by (simp add: exCC_ok Second_def)
qed

text \<open>
  C31: a client with a pinned fingerprint goes on with a
  connection exactly when the handshake succeeds and the digest of the peer's first certificate is
  the one written down: bare or with colons, in either case, with or without the prefix
  \<^verbatim>\<open>sha256:\<close>, with white space around. A client without a pin and without
  \<^verbatim>\<open>skip_verify\<close> leaves the check of the name to the handshake.
\<close>

theorem pinned_client_accepts_only_its_certificate:
  assumes "SplitHostPort (cc_ServerAddr cfg) = Some (host, port)"
    and "ct_ServerFingerprint (cc_TLS cfg) = pre @ p @ digest @ post"
    and "list_all ascii_space pre" "list_all ascii_space post" "sha256_prefix p" "hex_text digest"
  shows "(pre @ p @ digest @ post \<noteq> [] \<longrightarrow>
      (fst (wrapTLS u handshake cfg) = Inr certs \<longleftrightarrow>
        handshake \<lparr>tc_ServerName = host, tc_InsecureSkipVerify = True\<rparr> = Inr certs \<and> certs \<noteq> [] \<and>
        digest_of_text digest = hexEncode (sha256 (hd certs)))) \<and>
    (pre @ p @ digest @ post = [] \<longrightarrow>
      (fst (wrapTLS u handshake cfg) = Inr certs \<longleftrightarrow>
        handshake \<lparr>tc_ServerName = host, tc_InsecureSkipVerify = ct_SkipVerify (cc_TLS cfg)\<rparr> = Inr certs))"
proof (cases "pre @ p @ digest @ post = []")
  case True
  then show ?thesis using assms(1,2)
    by (simp add: wrapTLS_def split: sum.split)
next
  case False
  let ?t = "\<lparr>tc_ServerName = host, tc_InsecureSkipVerify = True\<rparr>"
  have w: "wrapTLS u handshake cfg = (case handshake ?t of Inl e \<Rightarrow> (Inl (HandshakeFailed e), False)
      | Inr certs \<Rightarrow> (case verifyFingerprint u certs (pre @ p @ digest @ post) of
          Some e \<Rightarrow> (Inl e, True) | None \<Rightarrow> (Inr certs, False)))"
    using False assms(1,2) by (simp only: wrapTLS_def Let_def option.case prod.case simp_thms if_True)
  note v = verifyFingerprint_iff [OF assms(3-6), of u]
  show ?thesis
  proof (cases "handshake ?t")
    case (Inl e)
    then show ?thesis using False by (simp only: w sum.case fst_conv sum.distinct simp_thms)
  next
    case (Inr cs)
    show ?thesis
    proof (cases "verifyFingerprint u cs (pre @ p @ digest @ post)")
      case None
      with v [of cs] Inr False show ?thesis
        by (simp only: w sum.case option.case fst_conv sum.inject simp_thms) blast
    next
      case (Some e)
      with v [of cs] Inr False show ?thesis
        by (simp only: w sum.case option.case fst_conv sum.inject sum.distinct option.distinct simp_thms) blast
    qed
  qed
qed

theorem pinned_client_accepts_only_its_certificate_witness:
  "fst (wrapTLS (\<lambda>s. s) (\<lambda>_. Inr [[1, 2]])
     (exCC\<lparr>cc_TLS := \<lparr>ct_Enabled = True, ct_SkipVerify = False,
        ct_ServerFingerprint = ''SHA256:'' @ colon_pairs (map upper_ascii (hexEncode (sha256 [1, 2])))\<rparr>\<rparr>)) =
   Inr [[1, 2]]"
proof -
  let ?d = "colon_pairs (map upper_ascii (hexEncode (sha256 [1, 2])))"
  have d: "hex_text ?d" "digest_of_text ?d = hexEncode (sha256 [1, 2])"
    using digest_upper [OF hexEncode_hex, of "sha256 [1, 2]"] by (simp_all add: digest_colons)
  have p: "sha256_prefix ''SHA256:''"
    by (simp add: sha256_prefix_def is_ascii_def) code_simp
  have a: "SplitHostPort (cc_ServerAddr (exCC\<lparr>cc_TLS := x\<rparr>)) = Some (''h'', ''17200'')" for x
    by (simp add: exCC_def) code_simp
  from pinned_client_accepts_only_its_certificate [OF a _ _ _ p d(1), where pre = "[]" and post = "[]"
      and u = "\<lambda>s. s" and handshake = "\<lambda>_. Inr [[1, 2]]" and certs = "[[1, 2]]"] d(2)
  show ?thesis by simp
qed

text \<open>
  C5: whatever the goroutines of the client do, and whatever responses the
  server sends in whatever order, a call of \<^verbatim>\<open>registerProxy\<close> only ever takes a response that
  carries the number of its own request.
\<close>

theorem reply_reaches_its_request:
  assumes "reachable (\<lambda>s. s = csys_init cfg) (cstep J u) s"
    and "ca_pc (callers s g) = RWait r ch p" "replyRecv (hp_reply (cli s) ch) = Some (resp, q)"
  shows "nr_ReqID resp = r"
proof -
  have "expects (callers s g) = Some (r, ch)" using assms(2) by (simp add: expects_def)
  with client_routing.reachable_inv [OF assms(1)] have "reply_owned (cli s) (conns s) ch r"
    by (auto simp: routed_def)
  moreover have "resp \<in> set (hp_reply (cli s) ch)"
    using assms(3) by (auto simp: replyRecv_def split: list.splits)
  ultimately show ?thesis by (simp add: reply_owned_def)
qed

theorem reply_reaches_its_request_witness: "nr_ReqID exResp = 1"
  by (rule reply_reaches_its_request [OF c_reach7, of Main 1 0 exP exResp "[]"])
    (simp_all add: c7_def exCaller_def cl7_def replyRecv_def)

section \<open>Client and server\<close>

text \<open>
  C4: a client whose session the server still holds comes back on a new
  connection and gets every address again: the login is accepted, takes the old session's place, and
  all registrations that follow are answered positively, each on the port of the configuration. This
  holds in whatever order the map of proxies is visited.
\<close>

theorem reconnect_restores_addresses:
  fixes cfg :: ClientCfg
  defines "m \<equiv> cl_proxies (NewClient cfg)"
  assumes "reg_inv s" "sv_sessions s (cc_ClientID cfg) = Some j" "covers ord s j"
    and "cc_ClientID cfg \<noteq> []" "cc_Token cfg = sc_Token (sv_cfg s)"
    and "in_int64 ts" "0 \<le> now" "now < 2 ^ 63" "\<bar>now - ts * Second\<bar> \<le> 5 * Minute"
    and "serves_config s j m" "\<forall>p \<in> ran m. tcp_fixed p"
    and "lists_map ns m" "map fst xs = map TRegister (proxyList ns (NewClient cfg))" "all_bound xs"
  shows "\<exists>t. login s conn (clientLogin cfg ts) ra now True ord = (Some (nx_sid s), t) \<and>
    ok_replies (fst (serveTasks u (nx_sid s) xs t)) \<and>
    serves_config (snd (serveTasks u (nx_sid s) xs t)) (nx_sid s) m"
proof -
  from login_accepts [OF clientLogin_accepted [OF assms(5-10)]] obtain t
    where t: "login s conn (clientLogin cfg ts) ra now True ord = (Some (nx_sid s), t)" by blast
  have old: "sv_sessions s (lg_ClientID (clientLogin cfg ts)) = Some j"
    using assms(3) by (simp add: clientLogin_def)
  have key: "keyed m" by (simp add: m_def keyed_def NewClient_def buildProxyMap_name)
  note f = login_frees [OF assms(2) t old assms(4,11) key]
  have r: "sv_ranges t = sv_ranges s" using login_opens(2) [OF assms(2) t] old assms(4) by simp
  have port: "good_proxy t p \<and> m n = Some p \<and> pc_Name p = n \<and>
      (\<exists>q. se_proxies (hp_session s j) n = Some q \<and> sv_byPort s (pc_RemotePort p) = Some q)"
    if "m n = Some p" for n p
    using served_port [OF assms(2,11) key that] bspec [OF assms(12) ranI [of m, OF that]] that
    by (simp only: good_proxy_ranges [OF r]) (simp add: good_proxy_def tcp_fixed_def)
  have "ports_distinct m"
    unfolding ports_distinct_def using port served_once [OF assms(2)] by (metis option.inject)
  moreover have "\<forall>p \<in> ran m. good_proxy t p" using port by (auto simp: ran_def)
  ultimately have "serves_config (snd (serveTasks u (nx_sid s) xs t)) (nx_sid s) m \<and>
      ok_replies (fst (serveTasks u (nx_sid s) xs t)) \<and> reg_inv (snd (serveTasks u (nx_sid s) xs t))"
    using f assms(13-15) key by (intro register_all) (auto simp: proxyList_def m_def)
  with t show ?thesis by blast
qed

lemma exP_map: "cl_proxies (NewClient exCC) = [''ssh'' \<mapsto> exP]"
  using c_proxies by (simp add: cl2_def)

lemma exP_lists: "lists_map [''ssh''] (cl_proxies (NewClient exCC))"
  "proxyList [''ssh''] (NewClient exCC) = [exP]"
  by (simp_all add: lists_map_def exP_map proxyList_def List.map_filter_simps)

lemma exP_fixed: "tcp_fixed exP"
  using ex_local(1) by (simp add: tcp_fixed_def exP_def)

lemma ex4_client: "sv_sessions (srv ex4) ''c'' = Some 0" "se_clientID (hp_session (srv ex4) 0) = ''c''"
  "se_proxies (hp_session (srv ex4) 0) = [''ssh'' \<mapsto> 0]" "sv_byPort (srv ex4) = [30000 \<mapsto> 0]"
  "sv_proxies (srv ex4) = [proxyKey ''c'' ''ssh'' \<mapsto> 0]"
  "nx_sid (srv ex4) = 1" "sv_cfg (srv ex4) = exCfg" "sv_ranges (srv ex4) = exRanges"
  "px_remotePort (hp_proxy (srv ex4) 0) = 30000" "px_typ (hp_proxy (srv ex4) 0) = ''tcp''"
  "px_local (hp_proxy (srv ex4) 0) = ''127.0.0.1:22''"
  using ex_alloc(1)
  by (simp_all add: ex4_def reg_simps tcpProxy_def)
    (simp_all add: ex_srv exServer_def emptyServer_def admitted_def sendMsg_def newSession_def exLogin_def
      exNP_def proxyKey_def pkey_def fun_eq_iff)

lemma ex4_sessions: "sv_sessions (srv ex4) = [''c'' \<mapsto> 0]"
  by (simp add: ex4_def reg_simps)
    (simp add: ex_srv exServer_def emptyServer_def admitted_def sendMsg_def exLogin_def)

lemma ex4_serves: "serves (srv ex4) 0 exP" "serves_config (srv ex4) 0 (cl_proxies (NewClient exCC))"
proof -
  show s: "serves (srv ex4) 0 exP" by (simp add: serves_def ex4_client) (simp add: exP_def)
  show "serves_config (srv ex4) 0 (cl_proxies (NewClient exCC))"
    by (simp add: serves_config_def exP_map ex4_client s)
qed

theorem reconnect_restores_addresses_witness:
  "\<exists>t. login (srv ex4) 2 (clientLogin exCC 0) ''h'' 0 True [''ssh''] = (Some 1, t) \<and>
     ok_replies (fst (serveTasks (\<lambda>s. s) 1 [(TRegister exP, 1, None)] t)) \<and>
     serves_config (snd (serveTasks (\<lambda>s. s) 1 [(TRegister exP, 1, None)] t)) 1 (cl_proxies (NewClient exCC))"
proof -
  have c: "cc_ClientID exCC = ''c''" "cc_Token exCC = ''tok''" "sc_Token exCfg = ''tok''"
    by (simp_all add: exCC_def exCfg_def)
  have cov: "covers [''ssh''] (srv ex4) 0" by (simp add: covers_def ex4_client)
  have fixed: "\<forall>p \<in> ran (cl_proxies (NewClient exCC)). tcp_fixed p" by (simp add: exP_map exP_fixed)
  show ?thesis
    using reconnect_restores_addresses [OF server_inv4 _ cov _ _ _ _ _ _ ex4_serves(2) fixed exP_lists(1),
        of 0 0 "[(TRegister exP, 1, None)]" 2 "''h''" "\<lambda>s. s"]
    by (simp add: c ex4_client exP_lists in_int64_def Minute_def Second_def all_bound_def)
qed

text \<open>
  C10: a reload brings the server from the proxies of the old file to those
  of the new one: after its requests, in whatever order the two maps are visited, the session serves
  exactly the new configuration and no request has been refused. The condition is that each proxy
  that is new or changed finds its name and port free, or held by the old proxy of its own name.
\<close>

theorem reload_reaches_new_config:
  assumes "reg_inv s" "i < nx_sid s" "serves_config s i (cl_proxies c)" "keyed (cl_proxies c)"
    and "reloadConfig (Inr newCfg) c = (ts, c')"
    and "map fst xs = reloadTasks (cl_proxies c) (cl_proxies c') ns os" "all_bound xs"
    and "lists_map ns (cl_proxies c')" "lists_map os (cl_proxies c)"
    and "ports_distinct (cl_proxies c')" "\<forall>p \<in> ran (cl_proxies c'). good_proxy s p"
    and "\<forall>n p. cl_proxies c' n = Some p \<longrightarrow> (\<forall>q. cl_proxies c n = Some q \<longrightarrow> \<not> proxyEqual q p) \<longrightarrow>
      free_for s i p"
  shows "serves_config (snd (serveTasks u i xs s)) i (cl_proxies c') \<and>
    ok_replies (fst (serveTasks u i xs s)) \<and> cl_cfg c' = newCfg"
proof -
  from assms(5) have c': "cl_proxies c' = buildProxyMap (cc_Proxies newCfg) Map.empty" "cl_cfg c' = newCfg"
    by (auto simp: reloadConfig_def Let_def)
  have "keyed (cl_proxies c')" by (simp add: c' keyed_def buildProxyMap_name)
  with reload_serves [OF assms(1-3,8,9,6,7,4) _ assms(10,11), of u] assms(12) c'(2) show ?thesis by blast
qed

definition exR :: ProxyCfg where "exR = exP\<lparr>pc_Name := ''db'', pc_RemotePort := 30001\<rparr>"

definition exReloaded :: "ProxyCfg \<Rightarrow> Client" where
  "exReloaded p = snd (reloadConfig (Inr (exCC\<lparr>cc_Proxies := [p]\<rparr>)) (NewClient exCC))"

lemma exReloaded_map: "cl_proxies (exReloaded p) = [pc_Name p \<mapsto> p]"
  by (simp add: exReloaded_def reloadConfig_def Let_def)

theorem reload_reaches_new_config_witness:
  "serves_config (snd (serveTasks (\<lambda>s. s) 0 [(TRegister exR, 2, None), (TClose ''ssh'', 0, None)] (srv ex4))) 0
     (cl_proxies (exReloaded exR)) \<and>
   ok_replies (fst (serveTasks (\<lambda>s. s) 0 [(TRegister exR, 2, None), (TClose ''ssh'', 0, None)] (srv ex4))) \<and>
   cl_cfg (exReloaded exR) = exCC\<lparr>cc_Proxies := [exR]\<rparr>"
proof -
  let ?xs = "[(TRegister exR, 2, None), (TClose ''ssh'', 0, None)]"
  have n: "pc_Name exR = ''db''" "pc_RemotePort exR = 30001" "tcp_fixed exR"
    using exP_fixed by (simp_all add: exR_def tcp_fixed_def)
  have k: "keyed (cl_proxies (NewClient exCC))" by (simp add: keyed_def exP_map) (simp add: exP_def)
  have l: "lists_map [''db''] (cl_proxies (exReloaded exR))" by (simp add: lists_map_def exReloaded_map n)
  have xs: "map fst ?xs = reloadTasks (cl_proxies (NewClient exCC)) (cl_proxies (exReloaded exR)) [''db''] [''ssh'']"
    by (simp add: reloadTasks_def exReloaded_map exP_map n)
  have p: "ports_distinct (cl_proxies (exReloaded exR))" by (simp add: ports_distinct_def exReloaded_map)
  have g: "good_proxy (srv ex4) exR"
    by (simp add: good_proxy_def n portAllowed_def ex4_client exRanges_def Contains_def)
  have f: "free_for (srv ex4) 0 exR" by (simp add: free_for_def ex4_client n proxyKey_def)
  have r: "reloadConfig (Inr (exCC\<lparr>cc_Proxies := [exR]\<rparr>)) (NewClient exCC) =
      (fst (reloadConfig (Inr (exCC\<lparr>cc_Proxies := [exR]\<rparr>)) (NewClient exCC)), exReloaded exR)"
    by (simp add: exReloaded_def)
  show ?thesis
    by (rule reload_reaches_new_config [OF server_inv4 _ ex4_serves(2) k r xs _ l exP_lists(1) p])
      (simp_all add: ex4_client all_bound_def exReloaded_map g f)
qed

text \<open>
  C27: giving a port to a proxy of another name in one reload loses it: the
  registration is sent before the old proxy is closed, is refused because the port is in use, and
  after the reload neither proxy is there and the port is free.
\<close>

theorem reload_loses_moved_port:
  assumes "reg_inv s" "serves s i po" "good_proxy s pn"
    and "pc_Name pn \<noteq> pc_Name po" "pc_RemotePort pn = pc_RemotePort po"
    and "sv_proxies s (proxyKey (se_clientID (hp_session s i)) (pc_Name pn)) = None"
    and "se_proxies (hp_session s i) (pc_Name pn) = None"
    and "map fst xs = reloadTasks [pc_Name po \<mapsto> po] [pc_Name pn \<mapsto> pn] [pc_Name pn] [pc_Name po]"
  shows "\<exists>r. fst (serveTasks u i xs s) = [errResp (newProxyMsg pn r) (PORT_IN_USE (pc_RemotePort pn))] \<and>
    se_proxies (hp_session (snd (serveTasks u i xs s)) i) (pc_Name pn) = None \<and>
    se_proxies (hp_session (snd (serveTasks u i xs s)) i) (pc_Name po) = None \<and>
    sv_byPort (snd (serveTasks u i xs s)) (pc_RemotePort pn) = None"
  by (rule reload_moves_port [OF assms(1,2) refl refl assms(4,5,3,6,7,8)])

theorem reload_loses_moved_port_witness:
  "\<exists>r. fst (serveTasks (\<lambda>s. s) 0 [(TRegister exQ, 2, None), (TClose ''ssh'', 0, None)] (srv ex4)) =
     [errResp (newProxyMsg exQ r) (PORT_IN_USE 30000)]"
proof -
  have n: "pc_Name exQ = ''ssh2''" "pc_RemotePort exQ = 30000" "pc_Name exP = ''ssh''" "pc_RemotePort exP = 30000"
    "tcp_fixed exQ"
    using exP_fixed by (simp_all add: exP_def exQ_def tcp_fixed_def)
  have g: "good_proxy (srv ex4) exQ"
    by (simp add: good_proxy_def n portAllowed_def ex4_client exRanges_def Contains_def)
  from reload_loses_moved_port [OF server_inv4 ex4_serves(1) g,
      of "[(TRegister exQ, 2, None), (TClose ''ssh'', 0, None)]" "\<lambda>s. s"]
  show ?thesis by (simp add: n ex4_client proxyKey_def reloadTasks_def)
qed

section \<open>The goroutines of the client\<close>

text \<open>
  C26: when the control loop of a connection has ended, the client can crash.
  \<^verbatim>\<open>runOnce\<close> closes the channel of the writer before it tells the pinger to stop, and a tick
  in between sends on the closed channel, which is a panic of the process.
\<close>

theorem connection_end_can_panic:
  assumes "reachable (\<lambda>s. s = csys_init cfg) (cstep J u) s" "\<not> panicked s"
    and "mpc s = MAwait k" "conns s k = Some n" "cn_ctl n = CtlEnded x" "cn_ping n"
  shows "\<exists>m t. cstep J u s (CCloseWrite x) m \<and> cstep J u m (CTickPanic k) t \<and> panicked t"
  using end_can_panic [OF assms(2-6), of J u] by blast

theorem connection_end_can_panic_witness:
  "\<exists>m t. exCStep c11 (CCloseWrite EOF) m \<and> exCStep m (CTickPanic 0) t \<and> panicked t"
  by (rule connection_end_can_panic [OF c_reach11, of 0 "exConnOf (CtlEnded EOF)"])
    (simp_all add: c11_def)

text \<open>
  C17: at most one connection of the client has a running control loop, it is the
  one \<^verbatim>\<open>Run\<close> is serving, and its channel is open. The client panics only in a send, of the
  pinger or of a request, and the channel of this very send is closed and belongs to a connection whose
  control loop has ended.
\<close>

theorem client_stages_exclude:
  assumes "reachable (\<lambda>s. s = csys_init cfg) (cstep J u) s" "cstep J u s l t"
  shows "(\<forall>k n. conns s k = Some n \<and> loop_runs n \<longrightarrow>
      live_of (mpc s) = Some k \<and> \<not> ch_closed (hp_chan (cli s) k)) \<and>
    (\<not> panicked s \<and> panicked t \<longrightarrow>
      (\<exists>k n x. (l = CTickPanic k \<or> (\<exists>g. l = CCallPanic g \<and> uses_chan (callers s g) = Some k)) \<and>
         conns s k = Some n \<and> cn_ctl n = CtlEnded x \<and> ch_closed (hp_chan (cli s) k)))"
  using one_live_loop [OF client_stages.reachable_inv [OF assms(1)]]
    panic_after_end [OF client_stages.reachable_inv [OF assms(1)] assms(2)] by blast

theorem client_stages_exclude_witness:
  "\<exists>m t. exCStep m (CTickPanic 0) t \<and> panicked t \<and>
     (\<exists>n x. conns m 0 = Some n \<and> cn_ctl n = CtlEnded x \<and> ch_closed (hp_chan (cli m) 0))"
proof -
  have "\<exists>m t. exCStep c11 (CCloseWrite EOF) m \<and> exCStep m (CTickPanic 0) t \<and> \<not> panicked m \<and> panicked t"
    by (rule end_can_panic [where n = "exConnOf (CtlEnded EOF)"]) (simp_all add: c11_def)
  then obtain m t where m: "exCStep c11 (CCloseWrite EOF) m" "exCStep m (CTickPanic 0) t"
    "\<not> panicked m" "panicked t" by blast
  from client_stages_exclude [OF c_next [OF c_reach11 m(1)] m(2)] m(2-4) show ?thesis by blast
qed

text \<open>
  C15: as long as the writer of a connection lives, what it has written and
  what waits in the channel only grow at the end: no message of the client overtakes another, none is
  lost, and none is sent twice, whichever goroutines send and however they interleave.
\<close>

theorem messages_keep_their_order:
  assumes "reachable (\<lambda>s. s = csys_init cfg) (cstep J u) s" "run (cstep J u) s ls t"
    and "conns s k = Some n" "conns t k = Some n'" "cn_writer n'"
  shows "\<exists>xs. cn_wire n' @ ch_buf (hp_chan (cli t) k) = cn_wire n @ ch_buf (hp_chan (cli s) k) @ xs"
proof -
  have st: "staged s" by (rule client_stages.reachable_inv [OF assms(1)])
  with assms(3) have "k < nx_chan (cli s)" unfolding staged_def by blast
  from run_grows [OF assms(2) st this] assms(3-5) show ?thesis
    by (auto simp: grows_def writing_def history_def)
qed

lemma c_run5: "run exCStep c3 [CCall Main (EvNext [] []), CCall Main EvSend] c5"
  by (rule run_cons [of exCStep, OF c_step4 run_cons [of exCStep, OF c_step5 run_nil [of exCStep c5]]])

theorem messages_keep_their_order_witness:
  "\<exists>xs. [newProxyReq exP 1] = xs \<and> cn_wire (exConnOf CtlRead) @ ch_buf (hp_chan (cli c5) 0) =
     cn_wire (exConnOf CtlRead) @ ch_buf (hp_chan (cli c3) 0) @ xs"
proof -
  have "ch_buf (hp_chan (cli c5) 0) = [newProxyReq exP 1]" "ch_buf (hp_chan (cli c3) 0) = []"
    by (simp_all add: c3_def c5_def) (simp_all add: ex_client)
  with messages_keep_their_order [OF c_reach3 c_run5, of 0 "exConnOf CtlRead" "exConnOf CtlRead"]
  show ?thesis by (simp add: c3_def c5_def)
qed

text \<open>
  C6: in every reachable state of the client, every message that has been
  written to a connection carries the type of its payload, and its payload is what the server's handler
  decodes: the handler does with the frame what it is to do with the message.
\<close>

theorem requests_are_well_typed:
  assumes "reachable go_start (go_cstep J u) s" "conns s k = Some n" "r \<in> set (cn_wire n)"
  shows "wq_typ r = cmsgType (wq_msg r) \<and>
    ctlHandle goDecoders v bind (wq_typ r) (encCMsg (wq_msg r)) sv i = serveCMsg v bind (wq_msg r) sv i"
proof -
  have "well_typed r"
    using typing.reachable_inv [OF assms(1)] assms(2,3) by (auto simp: typed_def)
  then show ?thesis by (simp add: well_typed_def ctlHandle_message)
qed

theorem requests_are_well_typed_witness:
  "ctlHandle goDecoders (\<lambda>s. s) None TypeNewProxy (encNewProxy exNP) (srv ex3) 0 =
     (Some (SNewProxyResp (okResp exNP 30000)), srv ex4)"
proof -
  from ex_net8 obtain s where s: "exNet s" "nt_cli s = d8" by (auto simp: linked_at_def)
  have r: "reachable go_start goC d8" using net_client_reachable [OF unwrapped_reachable [OF s(1)]] s(2) by simp
  have c: "conns d8 0 = Some (exConnW CtlRead)" by (simp add: d8_def exSys_def)
  have w: "newProxyReq exP 1 \<in> set (cn_wire (exConnW CtlRead))" by (simp add: exConnW_def)
  from requests_are_well_typed [OF r c w, of "\<lambda>s. s" None "srv ex3" 0] ex_register ex_messages show ?thesis
    by (simp add: newProxyReq_def ex4_def)
qed

text \<open>
  C35: \<^verbatim>\<open>Run\<close> does not leave a connection before its control
  loop has read an error: cancelling the context while the client is connected does not make
  \<^verbatim>\<open>Run\<close> return, in any number of steps.
\<close>

theorem cancellation_waits_for_connection:
  assumes "run (cstep J u) s ls t" "conns s k = Some n" "loop_runs n"
    and "mpc s \<in> {MList k, MTasks k, MAwait k}" "\<forall>x. CReadError k x \<notin> set ls"
  shows "mpc t \<in> {MList k, MTasks k, MAwait k} \<and> mpc t \<noteq> MReturned"
proof -
  have "live_of m = Some k \<longleftrightarrow> m \<in> {MList k, MTasks k, MAwait k}" for m
    by (cases m) (auto simp: live_of_def)
  with serving_run [OF assms(1) _ _ assms(2,3)] assms(4,5) show ?thesis by auto
qed

theorem cancellation_waits_for_connection_witness:
  "mpc (c10\<lparr>cancelled := True\<rparr>) \<in> {MList 0, MTasks 0, MAwait 0} \<and>
     mpc (c10\<lparr>cancelled := True\<rparr>) \<noteq> MReturned"
proof -
  have "exCStep c10 CCancel (c10\<lparr>cancelled := True\<rparr>)" by (rule c_cancel) (simp add: c10_def)
  from cancellation_waits_for_connection [OF run_cons [of exCStep, OF this run_nil [of exCStep]], of 0 "exConnOf CtlRead"] show ?thesis
    by (simp add: c10_def loop_runs_def)
qed

section \<open>The network of both\<close>

text \<open>
  C3: when \<^verbatim>\<open>registerProxy\<close> of the client reports success or
  a refusal, the server has handled exactly this request, in a session of this client, and what is
  reported is what happened there: success means that the name was registered when the request had been
  handled, a refusal that the server's tables did not change, with the error as JSON transports it. It
  holds for any interleaving of client, server and network, with other clients of any behaviour, in an
  execution in which the counter of the requests has not wrapped around. The other results, the two
  timeouts and the lack of a connection, say nothing of the server and are not covered: after a
  timeout the server may have registered the proxy, or may do so later.
\<close>

theorem reported_registration_is_the_servers:
  assumes "reachable (net_start loadCert) (unwrapped_net quoted u) s"
    and "callerStep ev (cli (nt_cli s)) (callers (nt_cli s) g) = Some (CallOK cl1 a1)"
    and "ca_pc a1 = RLeave r res p" "res = None \<or> (\<exists>m. res = Some (Refused m))"
  shows "\<exists>h \<in> set (nt_regs s). hd_sid h \<in> nt_mine s \<and> hd_msg h = sentNewProxy (newProxyMsg p r) \<and>
    registerProxy u (hd_before h) (hd_sid h) (hd_msg h) (hd_bind h) = (hd_resp h, hd_after h) \<and>
    (if res = None
     then sv_proxies (hd_after h)
            (proxyKey (se_clientID (hp_session (hd_before h) (hd_sid h))) (np_Name (hd_msg h))) \<noteq> None
     else hd_after h = hd_before h \<and> res = Some (Refused (sentError quoted (nr_Error (hd_resp h)))))"
proof -
  note inv = network.both.reachable_inv [OF assms(1)]
  from reported_result [OF assms(2-4)] obtain ch where w: "ca_pc (callers (nt_cli s) g) = RWait r ch p"
    and e: "callerStep EvReply (cli (nt_cli s)) (callers (nt_cli s) g) = Some (CallOK cl1 a1)" by blast
  from taken_reply [OF w e assms(3)] obtain y where y: "y \<in> set (hp_reply (cli (nt_cli s)) ch)" "res = replyResult y"
    by blast
  from reported_registration [OF _ _ w y(1)] inv obtain h where h: "h \<in> set (nt_regs s)"
    "hd_sid h \<in> nt_mine s" "hd_msg h = sentNewProxy (newProxyMsg p r)"
    "registerProxy u (hd_before h) (hd_sid h) (hd_msg h) (hd_bind h) = (hd_resp h, hd_after h)"
    "y = sentNewProxyResp quoted (hd_resp h)" by blast
  from h(1) inv have "reg_inv (hd_before h)" "hd_sid h < nx_sid (hd_before h)"
    by (auto simp: net_ok_def regs_ok_def genuine_def)
  with h y(2) registerProxy_accepted [of "hd_before h" "hd_sid h"] registerProxy_refused [OF h(4)]
  show ?thesis by (intro bexI [of _ h]) (auto simp: replyResult_def)
qed

theorem reported_registration_is_the_servers_witness:
  "\<exists>s. exNet s \<and> nt_cli s = d8 \<and> (\<exists>h \<in> set (nt_regs s). hd_sid h \<in> nt_mine s \<and> hd_msg h = exNP \<and>
     sv_proxies (hd_after h) (proxyKey (se_clientID (hp_session (hd_before h) (hd_sid h))) ''ssh'') \<noteq> None)"
proof -
  from ex_net8 obtain s where s: "exNet s" "nt_cli s = d8" by (auto simp: linked_at_def)
  let ?a = "exCaller [] (RWait 1 0 exP) []"
  obtain cl1 a1 where c: "callerStep EvReply (cli (nt_cli s)) (callers (nt_cli s) Main) = Some (CallOK cl1 a1)"
    "ca_pc a1 = RLeave 1 None exP"
    by (simp add: s(2) d8_def exSys_def exCaller_def callerStep_def replyRecv_def exResp_def replyResult_def)
  from reported_registration_is_the_servers [OF s(1) c] s ex_messages show ?thesis
    by (intro exI [of _ s]) (auto simp: exNP_def)
qed

section \<open>Visitors under every interleaving\<close>

lemma ex4_idle: "px_visitors (hp_proxy (srv ex4) 0) = []" "waiting ex4 = []" "joined ex4 = []" "pend ex4 = []"
  "0 < nx_pid (srv ex4)"
  using ex_alloc(1,3) by (simp_all add: ex4_def reg_simps tcpProxy_def)
    (simp_all add: ex_srv)

text \<open>A visitor of the proxy of the scenario, and the data stream that takes it.\<close>

lemma ex_joined:
  "\<exists>s. run exStep ex0 [LAdmit 1 exLogin ''h'' 0, LWelcome 0 0 True, LFrame 0 TypeNewProxy [], LHandle 0 None,
      LVisitor 0 5, LStream 0 6 (Inr (TypeStreamMeta, [])), LTake 0 0 6] s \<and> joined s = [(0, 0, 5, 6)]"
proof -
  let ?fr = "Inr (TypeStreamMeta, [])"
  note v = ex4_idle
  define P where "P = (hp_proxy (srv ex4) 0)\<lparr>px_visitors := [5]\<rparr>"
  define a where "a = ex4\<lparr>srv := (srv ex4)\<lparr>hp_proxy := (hp_proxy (srv ex4))(0 := P)\<rparr>, pend := pend ex4 @ [(0, 5)]\<rparr>"
  define b where "b = a\<lparr>waiting := [(0, 0, 6)]\<rparr>"
  define c where "c = b\<lparr>srv := snd (streamSelect (srv b) 0 0 6), waiting := [], joined := [(0, 0, 5, 6)]\<rparr>"
  have "queueVisitor (srv ex4) 0 5 = (True, srv a)"
    by (simp add: queueVisitor_def visitorSend_def visitorCap_def v a_def P_def)
  from sstep.visitor [OF v(5) this, of exJ "\<lambda>s. s"] have a: "exStep ex4 (LVisitor 0 5) a" by (simp add: a_def)
  have "streamProxy exJ (srv a) 0 ?fr = Some 0"
    by (simp add: streamProxy_def a_def) (simp add: exJ_def ex4_client(3))
  with sstep.stream [of 0 a exJ "\<lambda>s. s" 6 ?fr] have b: "exStep a (LStream 0 6 ?fr) b"
    by (simp add: a_def b_def v ex4_client)
  have "streamSelect (srv b) 0 0 6 = (Some 5, srv c)"
    by (simp add: streamSelect_def visitorRecv_def c_def b_def a_def P_def)
  from sstep.take [OF _ this, of exJ "\<lambda>s. s"] have c: "exStep b (LTake 0 0 6) c"
    by (simp add: c_def b_def a_def v)
  have "run exStep ex0 [LAdmit 1 exLogin ''h'' 0, LWelcome 0 0 True, LFrame 0 TypeNewProxy [], LHandle 0 None,
      LVisitor 0 5, LStream 0 6 ?fr, LTake 0 0 6] c"
    by (rule run_cons, rule ex_step1, rule run_cons, rule ex_step2, rule run_cons, rule ex_step3,
      rule run_cons, rule ex_step4, rule run_cons, rule a, rule run_cons, rule b, rule run_cons, rule c, rule run_nil)
  then show ?thesis by (intro exI [of _ c]) (simp add: c_def)
qed

text \<open>
  C11: whatever the order in which logins, registrations, visitors and data
  streams of all clients come: a data stream is joined only with a visitor of a proxy that the stream's
  own session has registered; a visitor is joined at most as often as it came, counting the joins that
  are over, and so is a data stream.
\<close>

theorem visitors_reach_their_owner:
  assumes "sys_start loadCert s0" "run (sstep J u) s0 ls s"
  shows "(\<forall>(i, p, v, st) \<in> set (joined s). px_session (hp_proxy (srv s) p) = i) \<and>
    visitorJoins p v s + tally (visitEnds p v) ls \<le> tally (visitComes p v) ls \<and>
    streamJoins i st s + tally (streamEnds i st) ls \<le> tally (streamComes i st) ls"
proof -
  have "traced ls s"
    using run_traced [OF assms(2) server.inv_init [OF assms(1)] traced_start [OF assms(1)]] by simp
  then have j: "\<forall>(i, p, v, st) \<in> set (joined s). p < nx_pid (srv s) \<and> px_session (hp_proxy (srv s) p) = i"
    and v: "tally (\<lambda>c. c = v) (px_visitors (hp_proxy (srv s) p)) + visitorJoins p v s + tally (visitEnds p v) ls
      \<le> tally (visitComes p v) ls"
    and st: "streamWaits i st s + streamJoins i st s + tally (streamEnds i st) ls \<le> tally (streamComes i st) ls"
    unfolding traced_def by blast+
  from j have "\<forall>(i, p, v, st) \<in> set (joined s). px_session (hp_proxy (srv s) p) = i" by auto
  with v st show ?thesis by simp
qed

theorem visitors_reach_their_owner_witness:
  "\<exists>s ls. run exStep ex0 ls s \<and> joined s = [(0, 0, 5, 6)] \<and> px_session (hp_proxy (srv s) 0) = 0 \<and>
     visitorJoins 0 5 s = 1 \<and> tally (visitEnds 0 5) ls = 0 \<and> streamJoins 0 6 s = 1"
proof -
  obtain s ls where ls: "ls = [LAdmit 1 exLogin ''h'' 0, LWelcome 0 0 True, LFrame 0 TypeNewProxy [], LHandle 0 None,
      LVisitor 0 5, LStream 0 6 (Inr (TypeStreamMeta, [])), LTake 0 0 6]"
    and r: "run exStep ex0 ls s" and j: "joined s = [(0, 0, 5, 6)]"
    using ex_joined by blast
  have n: "visitorJoins 0 5 s = 1" "streamJoins 0 6 s = 1" by (simp_all add: visitorJoins_def streamJoins_def j)
  have "tally (visitEnds 0 5) ls = 0" by (simp add: ls)
  with visitors_reach_their_owner [OF ex_start r, of 0 5 0 6] j n show ?thesis
    by (intro exI [of _ s] exI [of _ ls]) (simp add: r)
qed

text \<open>
  C25: \<^verbatim>\<open>removeProxyLocked\<close> drains the queue of a proxy once. A
  visitor accepted before but queued after it, while the session still takes the notification, stays
  in the queue for good if no data stream that named the proxy before is still in its
  \<^verbatim>\<open>select\<close>: in every continuation it is neither joined with a stream nor closed, even when
  the session ends. Only a later visitor of the same proxy whose notification fails could take it out.
\<close>

theorem late_visitor_is_stranded:
  assumes "reachable (sys_start loadCert) (sstep J u) s" "p < nx_pid (srv s)" "\<not> registered (srv s) p"
    and "\<forall>(i, q, st) \<in> set (waiting s). q \<noteq> p" "only_queued p v s" "length (px_visitors (hp_proxy (srv s) p)) < visitorCap"
    and "run (sstep J u) s [LVisitor p v, LNotify p v True] m" "run (sstep J u) m ls t"
    and "\<forall>l \<in> set ls. \<not> brings v l \<and> (\<forall>c. l \<noteq> LNotify p c False)"
  shows "v \<in> set (px_visitors (hp_proxy (srv t) p)) \<and> v \<notin> os_closed (srv t) \<and>
    (\<forall>(i, q, w, st) \<in> set (joined t). w \<noteq> v)"
proof -
  have inv: "sys_inv s" "sys_inv m"
    using server.reachable_inv [OF assms(1)] server.run_inv [OF assms(7)] by blast+
  have "stranded p v m \<and> only_queued p v m" by (rule late_visit [OF inv(1) assms(2-7)])
  with run_only_queued [OF assms(8) inv(2) _ _ assms(9)] have "stranded p v t" "only_queued p v t" by blast+
  then show ?thesis by (auto simp: stranded_def only_queued_def)
qed

text \<open>The client has closed its proxy.\<close>

lemma ex_withdrawn:
  obtains s where "reachable exStart exStep s" "\<not> registered (srv s) 0" "\<And>r. queue (srv s) r = []" "0 < nx_pid (srv s)"
    "waiting s = []" "pend s = []" "only_queued 0 5 s" "se_proxies (hp_session (srv s) 0) = Map.empty" "pcs s = [0 \<mapsto> PcRead]"
proof -
  define a where "a = ex4\<lparr>srv := snd (sendMsg True 0 (SNewProxyResp (okResp exNP 30000)) (srv ex4)), pcs := [0 \<mapsto> PcRead]\<rparr>"
  define b where "b = a\<lparr>pcs := [0 \<mapsto> PcFrame TypeCloseProxy []]\<rparr>"
  define s where "s = b\<lparr>srv := closeProxy (srv b) 0 ''ssh'', pcs := [0 \<mapsto> PcRead]\<rparr>"
  have p4: "pcs ex4 = [0 \<mapsto> PcReply (SNewProxyResp (okResp exNP 30000))]" by (simp add: ex4_def)
  have a: "exStep ex4 (LReply 0 True) a"
    using sstep.reply [of ex4 0 "SNewProxyResp (okResp exNP 30000)" exJ "\<lambda>s. s" True] by (simp add: a_def p4)
  have b: "exStep a (LFrame 0 TypeCloseProxy []) b"
    using sstep.frame [of a 0 exJ "\<lambda>s. s" TypeCloseProxy "[]"] by (simp add: b_def) (simp add: a_def)
  have "ctlHandle exJ (\<lambda>s. s) None TypeCloseProxy [] (srv b) 0 = (None, srv s)"
    by (simp add: ctlHandle_def exJ_def s_def TypeCloseProxy_def TypeNewProxy_def)
  from sstep.handle [OF _ this] have s: "exStep b (LHandle 0 None) s"
    by (simp add: b_def s_def)
  have rs: "reachable exStart exStep s"
    by (rule reach_step [OF reach_step [OF reach_step [OF ex_reach4 a] b] s])
  have own: "se_proxies (hp_session (srv b) 0) ''ssh'' = Some 0"
    by (simp add: b_def a_def sendMsg_def ex4_client)
  have px: "hp_proxy (srv b) = hp_proxy (srv ex4)" "nx_pid (srv b) = nx_pid (srv ex4)" "nx_sid (srv b) = 1"
    "sv_proxies (srv b) = sv_proxies (srv ex4)" "os_closed (srv b) = os_closed (srv ex4)"
    "se_conn (hp_session (srv b) i) = se_conn (hp_session (srv ex4) i)" for i
    by (simp_all add: b_def a_def sendMsg_def ex4_client)
  have ss: "srv s = removeProxyLocked (srv b) 0" by (simp add: s_def closeProxy_def own)
  have "registered (srv b) 0" using ex_owner4(1) by (simp add: registered_def px)
  then have nr: "\<not> registered (srv s) 0" by (simp add: ss remove_registered)
  have c4: "se_conn (hp_session (srv ex4) 0) = 1" "os_closed (srv ex4) = {}"
    "\<And>q. q \<noteq> 0 \<Longrightarrow> queue (srv ex4) q = []"
    using ex_alloc(3)
    by (simp_all add: ex4_def reg_simps)
      (simp_all add: ex_srv exServer_def emptyServer_def admitted_def sendMsg_def newSession_def nilProxy_def)
  have q: "queue (srv s) r = []" for r
    using c4(3) ex4_idle(1) by (cases "r = 0") (simp_all add: ss px reg_simps)
  have lists: "waiting s = []" "joined s = []" "pend s = []" by (simp_all add: s_def b_def a_def ex4_idle)
  have n: "0 < nx_pid (srv s)" "nx_sid (srv s) = 1" using ex4_idle(5) by (simp_all add: ss px reg_simps)
  have only: "only_queued 0 5 s"
    using c4 ex4_idle(1) by (simp add: only_queued_def lists q n) (simp add: ss px reg_simps sessions_conn)
  have "px_name (hp_proxy (srv ex4) 0) = ''ssh''"
    using ex_alloc(3) by (simp add: ex4_def reg_simps tcpProxy_def exNP_fields)
  then have none: "se_proxies (hp_session (srv s) 0) = Map.empty"
    using ex_owner4(2) by (simp add: ss reg_simps px) (simp add: b_def a_def sendMsg_def ex4_client)
  have "pcs s = [0 \<mapsto> PcRead]" by (simp add: s_def)
  with that rs nr q n(1) lists(1,3) only none show ?thesis by blast
qed

text \<open>Visitor 5 was on its way then; the client ends its session.\<close>

theorem late_visitor_is_stranded_witness:
  "\<exists>s m t. reachable exStart exStep s \<and> run exStep s [LVisitor 0 5, LNotify 0 5 True] m \<and>
     run exStep m [LReadError 0, LClose 0 []] t \<and> se_closed (hp_session (srv t) 0) \<and>
     5 \<in> set (px_visitors (hp_proxy (srv t) 0)) \<and> 5 \<notin> os_closed (srv t)"
proof -
  obtain s where rs: "reachable exStart exStep s" and nr: "\<not> registered (srv s) 0" and q: "\<And>r. queue (srv s) r = []"
    and n: "0 < nx_pid (srv s)" and lists: "waiting s = []" "pend s = []" and only: "only_queued 0 5 s"
    and none: "se_proxies (hp_session (srv s) 0) = Map.empty" and ps: "pcs s = [0 \<mapsto> PcRead]"
    using ex_withdrawn by blast
  define m1 where "m1 = s\<lparr>srv := snd (queueVisitor (srv s) 0 5), pend := [(0, 5)]\<rparr>"
  define m where "m = m1\<lparr>srv := notifyClient (srv m1) 0 5 True, pend := []\<rparr>"
  define r where "r = m\<lparr>pcs := [0 \<mapsto> PcClosing]\<rparr>"
  define t where "t = r\<lparr>srv := CloseSession [] (srv r) 0, pcs := [0 \<mapsto> PcDone]\<rparr>"
  have m1: "queueVisitor (srv s) 0 5 = (True, srv m1)"
    by (simp add: m1_def queueVisitor_def visitorSend_def visitorCap_def q)
  from sstep.visitor [OF n m1, of exJ "\<lambda>s. s"] have v1: "exStep s (LVisitor 0 5) m1"
    by (simp add: m1_def lists)
  from sstep.notify [of 0 5 m1 exJ "\<lambda>s. s" True] have v2: "exStep m1 (LNotify 0 5 True) m"
    by (simp add: m_def) (simp add: m1_def)
  have r1: "run exStep s [LVisitor 0 5, LNotify 0 5 True] m"
    by (rule run_cons, rule v1, rule run_cons, rule v2, rule run_nil)
  have pm: "pcs m = [0 \<mapsto> PcRead]" by (simp add: m_def m1_def ps)
  from sstep.read_error [of m 0 exJ "\<lambda>s. s"] have r: "exStep m (LReadError 0) r" by (simp add: r_def pm)
  have "se_proxies (hp_session (srv r) 0) = Map.empty"
    using none by (simp add: r_def m_def m1_def notifyClient_def sendMsg_def Let_def queueVisitor_def visitorSend_def visitorCap_def q)
  then have "iterates [] (srv r) 0" by (simp add: iterates_def covers_def)
  with sstep.close [of r 0 "[]" exJ "\<lambda>s. s"] have t: "exStep r (LClose 0 []) t"
    by (simp add: t_def) (simp add: r_def)
  have r2: "run exStep m [LReadError 0, LClose 0 []] t"
    by (rule run_cons, rule r, rule run_cons, rule t, rule run_nil)
  have "se_closed (hp_session (srv t) 0)" by (simp add: t_def CloseSession_view)
  with late_visitor_is_stranded [OF rs n nr _ only _ r1 r2] rs r1 r2 show ?thesis
    by (intro exI [of _ s] exI [of _ m] exI [of _ t]) (simp add: lists q visitorCap_def)
qed

section \<open>Counters, start-up and dashboard\<close>

text \<open>
  C28: in every reachable state of the server the connection counter of a
  session is the number of data streams that are joined with a visitor for it, and the counter of a
  proxy the number joined for the proxy, modulo the width of the counters.
\<close>

theorem counters_count_streams:
  assumes "reachable (sys_start loadCert) (sstep J u) s"
  shows "se_activeConns (hp_session (srv s) i) = of_nat (length (filter (\<lambda>(j, p, v, c). j = i) (joined s))) \<and>
    px_active (hp_proxy (srv s) q) = of_nat (length (filter (\<lambda>(j, p, v, c). p = q) (joined s)))"
  using counters.both.reachable_inv [OF assms] by (simp add: counted_def session_streams_def proxy_streams_def)

theorem counters_count_streams_witness:
  "\<exists>s. reachable exStart exStep s \<and> joined s = [(0, 0, 5, 6)] \<and>
     se_activeConns (hp_session (srv s) 0) = 1 \<and> px_active (hp_proxy (srv s) 0) = 1"
proof -
  obtain s where s: "run exStep ex0 [LAdmit 1 exLogin ''h'' 0, LWelcome 0 0 True, LFrame 0 TypeNewProxy [], LHandle 0 None,
      LVisitor 0 5, LStream 0 6 (Inr (TypeStreamMeta, [])), LTake 0 0 6] s" and j: "joined s = [(0, 0, 5, 6)]"
    using ex_joined by blast
  have r: "reachable exStart exStep s" by (rule run_reachable [OF s reach_init]) (rule ex_start)
  from counters_count_streams [OF r, of 0 0] r j show ?thesis by (intro exI [of _ s]) simp
qed

text \<open>
  C33: \<^verbatim>\<open>Server.Run\<close> among the goroutines it does not wait for.
  While it serves, exactly the listeners the configuration asks for are open; when it has returned, with
  an error of its start-up or after the context has been cancelled, none is. After a regular return
  every session that was in the session table when \<^verbatim>\<open>Run\<close> copied it is closed, and whoever is in
  the table has logged in since. And unless it serves or has returned, \<^verbatim>\<open>Run\<close> itself can go on.
\<close>

theorem run_opens_and_closes_everything:
  assumes "reachable (run_start loadCert listen cfg) (rstep listen cfg J u) r"
  shows "(rn_pc r = RunServing \<longrightarrow> ran (ls_open (rn_ls r)) = wanted_addrs cfg) \<and>
    (\<forall>e. rn_pc r = RunReturned e \<longrightarrow> ls_open (rn_ls r) = Map.empty) \<and>
    (rn_pc r = RunReturned None \<longrightarrow>
       (\<forall>i \<in> set (rn_sessions r). se_closed (hp_session (srv (rn_sys r)) i)) \<and>
       (\<forall>c i. sv_sessions (srv (rn_sys r)) c = Some i \<longrightarrow> rn_bound r \<le> i)) \<and>
    (rn_pc r = RunServing \<or> (\<exists>e. rn_pc r = RunReturned e) \<or> (\<exists>l r'. own_step l \<and> rstep listen cfg J u r l r'))"
proof -
  have inv: "running listen cfg r" by (rule serving.reachable_inv [OF assms])
  have "rn_bound r \<le> i" if "rn_pc r = RunReturned None" "sv_sessions (srv (rn_sys r)) c = Some i" for c i
  proof -
    from that inv have "stopped [] r" "\<not> se_closed (hp_session (srv (rn_sys r)) i)"
      by (simp_all add: running_def sys_inv_def reg_inv_def inv_sessions_def)
    with that(2) show ?thesis by (auto simp: stopped_def)
  qed
  moreover have "rn_pc r = RunReturned None \<Longrightarrow> i \<in> set (rn_sessions r) \<Longrightarrow> se_closed (hp_session (srv (rn_sys r)) i)" for i
    using inv by (simp add: running_def stopped_def)
  ultimately show ?thesis using inv run_goes_on [OF inv, of J u] by (auto simp: running_def)
qed

definition exListen :: "gostring \<Rightarrow> gostring + nat" where
  "exListen a =
     (if a = controlAddr exCfg then Inr 0
      else if a = JoinHostPort (sc_BindAddr exCfg) (Itoa 8080) then Inr 1 else Inl ''in use'')"

abbreviation exRun :: "runst \<Rightarrow> run_label \<Rightarrow> runst \<Rightarrow> bool" where
  "exRun \<equiv> rstep exListen exCfg exJ (\<lambda>s. s)"

text \<open>Start-up; then a connection is accepted and the context cancelled before its login is read.\<close>

lemma ex_stopping:
  obtains r where "reachable (run_start (\<lambda>_ _. None) exListen exCfg) exRun r" "rn_pc r = RunStopping"
    "rn_conns r = {1}" "rn_sys r = ex0"
proof -
  let ?c = "\<lparr>ls_ctrl = Some 0, ls_vhost = None, ls_dash = None, ls_open = [0 \<mapsto> controlAddr exCfg]\<rparr>"
  let ?L = "?c\<lparr>ls_vhost := Some 1, ls_open := [0 \<mapsto> controlAddr exCfg, 1 \<mapsto> JoinHostPort (sc_BindAddr exCfg) (Itoa 8080)]\<rparr>"
  let ?r0 = "run_init exServer"
  let ?r1 = "?r0\<lparr>rn_ls := ?c, rn_pc := RunAddVhost\<rparr>"
  let ?r2 = "?r0\<lparr>rn_ls := ?L, rn_pc := RunAddDash\<rparr>"
  let ?r3 = "?r0\<lparr>rn_ls := ?L, rn_pc := RunServing\<rparr>"
  let ?r4 = "?r3\<lparr>rn_conns := {1}\<rparr>"
  let ?r5 = "?r4\<lparr>rn_ls := closeListeners ?L, rn_pc := RunStopping\<rparr>"
  have cfg: "sc_VhostHTTPPort exCfg = 8080" "dash_Addr (sc_Dashboard exCfg) = []"
    by (simp_all add: exCfg_def defaultServer_def)
  have ne: "JoinHostPort (sc_BindAddr exCfg) (Itoa 8080) \<noteq> controlAddr exCfg"
    by (simp add: controlAddr_def exCfg_def defaultServer_def JoinHostPort_def Itoa_def)
  have "fresh_listeners exListen" by (auto simp: fresh_listeners_def exListen_def split: if_splits)
  moreover have "New (\<lambda>_ _. None) 0 exCfg = Inr exServer"
    by (simp add: New_def exServer_def exCfg_def defaultServer_def ex_ranges)
  ultimately have "run_start (\<lambda>_ _. None) exListen exCfg ?r0" unfolding run_start_def by blast
  then have r0: "reachable (run_start (\<lambda>_ _. None) exListen exCfg) exRun ?r0" by (rule reach_init)
  have s1: "exRun ?r0 DoListen ?r1"
    using r_listen [of ?r0 exListen exCfg "Inr 0" "no_listeners\<lparr>ls_open := [0 \<mapsto> controlAddr exCfg]\<rparr>" exJ "\<lambda>s. s"]
    by (simp add: run_init_def netListen_def exListen_def no_listeners_def)
  have s2: "exRun ?r1 DoVhost ?r2"
    using r_vhost [of ?r1 exListen exCfg None ?L exJ "\<lambda>s. s"]
    by (simp add: run_init_def startVhost_def netListen_def exListen_def cfg ne)
  have s3: "exRun ?r2 DoDash ?r3"
    using r_dash [of ?r2 exListen exCfg None ?L exJ "\<lambda>s. s"] by (simp add: run_init_def startDashboard_def cfg)
  have s4: "exRun ?r3 (DoAccept 1) ?r4"
    using r_accept [of ?r3 0 exListen exCfg exJ "\<lambda>s. s" 1] by (simp add: run_init_def)
  have s5: "exRun ?r4 DoCancel ?r5"
    using r_cancel [of ?r4 exListen exCfg exJ "\<lambda>s. s"] by simp
  have "reachable (run_start (\<lambda>_ _. None) exListen exCfg) exRun ?r5"
    by (rule reach_step, rule reach_step, rule reach_step, rule reach_step, rule reach_step,
      rule r0, rule s1, rule s2, rule s3, rule s4, rule s5)
  then show thesis by (rule that) (simp_all add: run_init_def ex0_def)
qed

text \<open>No session is in the table; the accepted connection stays without a login.\<close>

theorem run_opens_and_closes_everything_witness:
  "\<exists>r. reachable (run_start (\<lambda>_ _. None) exListen exCfg) exRun r \<and> rn_pc r = RunReturned None \<and>
     rn_conns r = {1} \<and> ls_open (rn_ls r) = Map.empty"
proof -
  obtain r where r: "reachable (run_start (\<lambda>_ _. None) exListen exCfg) exRun r" "rn_pc r = RunStopping"
    "rn_conns r = {1}" "rn_sys r = ex0"
    using ex_stopping by blast
  have "sv_sessions (srv ex0) = Map.empty" by (simp add: ex0_def sys_init_def exServer_def emptyServer_def)
  with r_copy [OF r(2), of "[]" "[]" exListen exCfg exJ "\<lambda>s. s"] obtain m where
    m: "exRun r (DoCopy []) m" "rn_pc m = RunClosing []" "rn_conns m = {1}"
    by (auto simp: r(3,4) List.map_filter_simps)
  let ?t = "m\<lparr>rn_pc := RunReturned None\<rparr>"
  have "exRun m DoReturn ?t" using m(2) by (rule r_return)
  with m(1) r(1) have t: "reachable (run_start (\<lambda>_ _. None) exListen exCfg) exRun ?t" by (blast intro: reach_step)
  from run_opens_and_closes_everything [OF t] t m(3) show ?thesis by (intro exI [of _ ?t]) simp
qed

text \<open>
  C37: \<^verbatim>\<open>Run\<close> does not wait for the goroutines that read a login. If a
  connection has been accepted and its login is valid when \<^verbatim>\<open>Run\<close> is about to copy the session
  table, there is an execution in which \<^verbatim>\<open>Run\<close> closes all it has copied and returns without an error,
  and leaves an open session of this client in the table.
\<close>

theorem login_survives_shutdown:
  assumes "reachable (run_start loadCert listen cfg) (rstep listen cfg J u) r"
    and "rn_pc r = RunStopping" "conn \<in> rn_conns r" "loginVerdict (srv (rn_sys r)) lg now = None"
  shows "\<exists>ls t i. run (rstep listen cfg J u) r ls t \<and> rn_pc t = RunReturned None \<and>
    sv_sessions (srv (rn_sys t)) (lg_ClientID lg) = Some i \<and> \<not> se_closed (hp_session (srv (rn_sys t)) i)"
  using login_after_copy [OF serving.reachable_inv [OF assms(1)] assms(2-4), of J u] by blast

theorem login_survives_shutdown_witness:
  "\<exists>r t i. rn_pc r = RunReturned None \<and> reachable (run_start (\<lambda>_ _. None) exListen exCfg) exRun r \<and>
     t = srv (rn_sys r) \<and> sv_sessions t ''c'' = Some i \<and> \<not> se_closed (hp_session t i)"
proof -
  obtain r where r: "reachable (run_start (\<lambda>_ _. None) exListen exCfg) exRun r" "rn_pc r = RunStopping"
    "rn_conns r = {1}" "rn_sys r = ex0"
    using ex_stopping by blast
  have "loginVerdict (srv (rn_sys r)) exLogin 0 = None" using ex_verdict [of "srv ex0"] r(4) by simp
  from login_survives_shutdown [OF r(1,2) _ this, of 1] r(3) obtain ls t i where
    t: "run exRun r ls t" "rn_pc t = RunReturned None" "sv_sessions (srv (rn_sys t)) (lg_ClientID exLogin) = Some i"
    "\<not> se_closed (hp_session (srv (rn_sys t)) i)" by auto
  from run_reachable [OF t(1) r(1)] t(2-4) show ?thesis
    by (intro exI [of _ t] exI [of _ "srv (rn_sys t)"] exI [of _ i]) (simp add: exLogin_def)
qed

text \<open>
  C38: the client list of the dashboard is the registry. A port is shown next
  to a client exactly when the request passes the basic authentication (or none is configured) and the
  port table leads to a proxy of the session that the client has now.
\<close>

theorem dashboard_shows_port_table:
  assumes "reg_inv s" "set (da_cs e) = dom (sv_sessions s)" "rq_Path r = ''/api/clients''" "port \<noteq> 0"
    and "\<forall>i. set (da_ords e i) = dom (se_proxies (hp_session s i))"
  shows "(\<exists>ds dcs dc px. serveDashboard e s r = ClientsJSON ds dcs \<and> dc \<in> set dcs \<and>
      dc_ClientID dc = c \<and> dc_Proxies dc = Some px \<and> port \<in> dp_RemotePort ` set px) \<longleftrightarrow>
    (dash_User (sc_Dashboard (sv_cfg s)) = [] \<or>
      rq_Auth r = Some (dash_User (sc_Dashboard (sv_cfg s)), dash_Password (sc_Dashboard (sv_cfg s)))) \<and>
    (\<exists>p i. sv_byPort s port = Some p \<and> px_session (hp_proxy s p) = i \<and> sv_sessions s c = Some i)"
    (is "?shown \<longleftrightarrow> ?auth \<and> ?table")
proof -
  let ?snap = "snapshot (da_rfc3339 e) (da_durString e) (da_now e) (da_ords e) s (da_cs e)"
  have d: "dashMux e s r = ClientsJSON ds dcs \<longleftrightarrow> dashClients e s = ClientsJSON ds dcs" for ds dcs
    by (simp add: dashMux_def assms(3))
  have "(serveDashboard e s r = ClientsJSON ds dcs) \<longleftrightarrow> ?auth \<and> dashClients e s = ClientsJSON ds dcs" for ds dcs
    by (auto simp: serveDashboard_def basicAuth_def Let_def d split: option.splits)
  then have "?shown \<longleftrightarrow> ?auth \<and> (\<exists>dc \<in> set ?snap. dc_ClientID dc = c \<and>
      (\<exists>ds. dc_Proxies dc = Some ds \<and> (\<exists>d \<in> set ds. dp_RemotePort d = port)))"
    by (auto simp: dashClients_def image_iff)
  also have "\<dots> \<longleftrightarrow> ?auth \<and> ?table"
    using snapshot_ports [OF assms(1,2) _ assms(4), of "da_ords e"] assms(5) by simp
  finally show ?thesis .
qed

definition exDash :: dash_env where
  "exDash = \<lparr>da_now = 0, da_cs = [''c''], da_ords = (\<lambda>i. if i = 0 then [''ssh''] else []),
     da_rfc3339 = (\<lambda>_. []), da_durString = (\<lambda>_. [])\<rparr>"

theorem dashboard_shows_port_table_witness:
  "\<exists>ds dcs dc px. serveDashboard exDash (srv ex4) \<lparr>rq_Path = ''/api/clients'', rq_Auth = None\<rparr> = ClientsJSON ds dcs \<and>
     dc \<in> set dcs \<and> dc_ClientID dc = ''c'' \<and> dc_Proxies dc = Some px \<and> 30000 \<in> dp_RemotePort ` set px"
proof -
  have "se_proxies (hp_session (srv ex4) i) = Map.empty" if "i \<noteq> 0" for i
    using that by (simp add: ex4_def reg_simps tcpProxy_def)
      (simp add: ex_srv exServer_def emptyServer_def admitted_def sendMsg_def newSession_def)
  then have "set (da_ords exDash i) = dom (se_proxies (hp_session (srv ex4) i))" for i
    by (cases "i = 0") (simp_all add: exDash_def ex4_client)
  then have o: "\<forall>i. set (da_ords exDash i) = dom (se_proxies (hp_session (srv ex4) i))" by blast
  have a: "dash_User (sc_Dashboard exCfg) = []" by (simp add: exCfg_def defaultServer_def)
  show ?thesis
    by (rule dashboard_shows_port_table [OF server_inv4 _ _ _ o, THEN iffD2])
      (simp_all add: ex4_sessions a ex4_client exDash_def, use ex_owner4(2) in simp)
qed

text \<open>
  C24: what the page makes of the reply of \<^verbatim>\<open>/api/clients\<close>. If every session has
  a proxy, it has one row for each session of the registry, in which the name of the client stands as markup, not
  as text. If some session has none, the script fails at the first \<^verbatim>\<open>null\<close> and shows an error;
  the rows are then exactly those of the clients that come before that client in the order of the reply:
  it and all after it are missing.
\<close>

theorem dashboard_page_shows_registry:
  assumes "rq_Path r = ''/api/clients''"
    and "dash_User (sc_Dashboard (sv_cfg s)) = [] \<or>
      rq_Auth r = Some (dash_User (sc_Dashboard (sv_cfg s)), dash_Password (sc_Dashboard (sv_cfg s)))"
    and "set (da_cs e) = dom (sv_sessions s)" "sv_sessions s \<noteq> Map.empty"
    and "\<forall>i. set (da_ords e i) = dom (se_proxies (hp_session s i))"
    and "\<forall>p. in_int64 (px_remotePort (hp_proxy s p))"
  shows "\<exists>pg'. refresh num exc (renderReply (serveDashboard e s r)) pg = Some pg' \<and>
    pg_rows pg' = map (the \<circ> clientRow num \<circ> validClient)
      (snapshotOf (e\<lparr>da_cs := takeWhile (hasProxies s) (da_cs e)\<rparr>) s) \<and>
    (if \<exists>i. i \<in> ran (sv_sessions s) \<and> se_proxies (hp_session s i) = Map.empty
     then pg_meta pg' = loadFailed @ exc \<and> length (pg_rows pg') < length (da_cs e)
     else pg_rows pg' = map (the \<circ> clientRow num \<circ> validClient) (snapshotOf e s) \<and>
       (\<forall>i \<in> ran (sv_sessions s). \<exists>row \<in> set (pg_rows pg').
          HasPrefix row (''<td>'' @ toValid (se_clientID (hp_session s i)) @ ''</td>'')))"
proof -
  obtain pg' where pg: "refresh num exc (renderReply (serveDashboard e s r)) pg = Some pg'"
    "pg_rows pg' = map (the \<circ> clientRow num \<circ> validClient)
      (snapshotOf (e\<lparr>da_cs := takeWhile (hasProxies s) (da_cs e)\<rparr>) s)"
    "\<exists>i \<in> ran (sv_sessions s). se_proxies (hp_session s i) = Map.empty \<Longrightarrow>
      pg_meta pg' = loadFailed @ exc \<and> length (pg_rows pg') < length (da_cs e)"
    "\<forall>i \<in> ran (sv_sessions s). se_proxies (hp_session s i) \<noteq> Map.empty \<Longrightarrow>
      pg_rows pg' = map (the \<circ> clientRow num \<circ> validClient) (snapshotOf e s)"
    by (rule page_of_registry [OF assms(1-4), of num exc pg]) (use assms(5,6) in blast)+
  show ?thesis
  proof (cases "\<exists>i. i \<in> ran (sv_sessions s) \<and> se_proxies (hp_session s i) = Map.empty")
    case False
    then have all: "\<forall>i \<in> ran (sv_sessions s). se_proxies (hp_session s i) \<noteq> Map.empty" by blast
    have "\<forall>i \<in> ran (sv_sessions s). \<exists>row \<in> set (pg_rows pg').
        HasPrefix row (''<td>'' @ toValid (se_clientID (hp_session s i)) @ ''</td>'')"
      using page_names [OF assms(3) _ all, of _ num] assms(5) unfolding pg(4) [OF all] by simp
    with pg(1,2) pg(4) [OF all] False show ?thesis by (intro exI [of _ pg']) (simp only: if_False simp_thms)
  next
    case True
    then have "pg_meta pg' = loadFailed @ exc \<and> length (pg_rows pg') < length (da_cs e)" by (intro pg(3)) blast
    with pg(1,2) True show ?thesis by (intro exI [of _ pg']) (simp only: if_True simp_thms)
  qed
qed

text \<open>A client whose name is markup, with one proxy and with none.\<close>

definition exMarkup :: "(gostring \<rightharpoonup> pid) \<Rightarrow> Server" where
  "exMarkup ps =
     (let s = allocated exServer 1 (exLogin\<lparr>lg_ClientID := ''<b>c</b>''\<rparr>) ''h'' 0; se = hp_session s 0 in
      s\<lparr>sv_sessions := [''<b>c</b>'' \<mapsto> 0], hp_session := (hp_session s)(0 := se\<lparr>se_proxies := ps\<rparr>)\<rparr>)"

lemma exMarkup_fields:
  "sv_sessions (exMarkup ps) = [''<b>c</b>'' \<mapsto> 0]" "se_proxies (hp_session (exMarkup ps) 0) = ps"
  "se_clientID (hp_session (exMarkup ps) 0) = ''<b>c</b>''" "i \<noteq> 0 \<Longrightarrow> se_proxies (hp_session (exMarkup ps) i) = Map.empty"
  "sv_cfg (exMarkup ps) = exCfg" "px_remotePort (hp_proxy (exMarkup ps) p) = 0"
  by (simp_all add: exMarkup_def allocated_def exServer_def emptyServer_def newSession_def nilProxy_def Let_def)

definition exPage :: page where "exPage = \<lparr>pg_meta = [], pg_tbody = [], pg_rows = []\<rparr>"

theorem dashboard_page_shows_registry_witness:
  "(\<exists>pg'. refresh Itoa ''e'' (renderReply (serveDashboard (exDash\<lparr>da_cs := [''<b>c</b>''], da_ords := (\<lambda>_. [])\<rparr>)
        (exMarkup Map.empty) \<lparr>rq_Path = ''/api/clients'', rq_Auth = None\<rparr>)) exPage = Some pg' \<and> pg_rows pg' = []) \<and>
   (\<exists>pg' row. refresh Itoa ''e'' (renderReply (serveDashboard (exDash\<lparr>da_cs := [''<b>c</b>'']\<rparr>)
        (exMarkup [''ssh'' \<mapsto> 0]) \<lparr>rq_Path = ''/api/clients'', rq_Auth = None\<rparr>)) exPage = Some pg' \<and>
      row \<in> set (pg_rows pg') \<and> HasPrefix row ''<td><b>c</b></td>'')"
proof
  have a: "dash_User (sc_Dashboard exCfg) = []" by (simp add: exCfg_def defaultServer_def)
  have p: "\<forall>p. in_int64 (px_remotePort (hp_proxy (exMarkup ps) p))" for ps
    by (simp add: exMarkup_fields in_int64_def)
  have o1: "\<forall>i. set (da_ords (exDash\<lparr>da_cs := [''<b>c</b>''], da_ords := (\<lambda>_. [])\<rparr>) i) =
      dom (se_proxies (hp_session (exMarkup Map.empty) i))"
  proof
    fix i show "set (da_ords (exDash\<lparr>da_cs := [''<b>c</b>''], da_ords := (\<lambda>_. [])\<rparr>) i) =
      dom (se_proxies (hp_session (exMarkup Map.empty) i))"
      by (cases "i = 0") (simp_all add: exMarkup_fields)
  qed
  have o2: "\<forall>i. set (da_ords (exDash\<lparr>da_cs := [''<b>c</b>'']\<rparr>) i) =
      dom (se_proxies (hp_session (exMarkup [''ssh'' \<mapsto> 0]) i))"
  proof
    fix i show "set (da_ords (exDash\<lparr>da_cs := [''<b>c</b>'']\<rparr>) i) =
      dom (se_proxies (hp_session (exMarkup [''ssh'' \<mapsto> 0]) i))"
      by (cases "i = 0") (simp_all add: exMarkup_fields exDash_def)
  qed
  have v: "toValid ''<b>c</b>'' = ''<b>c</b>''" by (rule toValid_valid, rule valid_ascii) code_simp
  show "\<exists>pg'. refresh Itoa ''e'' (renderReply (serveDashboard (exDash\<lparr>da_cs := [''<b>c</b>''], da_ords := (\<lambda>_. [])\<rparr>)
        (exMarkup Map.empty) \<lparr>rq_Path = ''/api/clients'', rq_Auth = None\<rparr>)) exPage = Some pg' \<and> pg_rows pg' = []"
    using dashboard_page_shows_registry [OF _ _ _ _ o1 p, of "\<lparr>rq_Path = ''/api/clients'', rq_Auth = None\<rparr>" Itoa "''e''" exPage]
    by (auto simp: exMarkup_fields a)
  show "\<exists>pg' row. refresh Itoa ''e'' (renderReply (serveDashboard (exDash\<lparr>da_cs := [''<b>c</b>'']\<rparr>)
        (exMarkup [''ssh'' \<mapsto> 0]) \<lparr>rq_Path = ''/api/clients'', rq_Auth = None\<rparr>)) exPage = Some pg' \<and>
      row \<in> set (pg_rows pg') \<and> HasPrefix row ''<td><b>c</b></td>''"
    using dashboard_page_shows_registry [OF _ _ _ _ o2 p, of "\<lparr>rq_Path = ''/api/clients'', rq_Auth = None\<rparr>" Itoa "''e''" exPage]
    by (auto simp: exMarkup_fields a v)
qed

end
